(* ===== verification/Prelude.thy ===== *)
theory Prelude
  imports Main "HOL-Library.Word" "HOL-Library.AList"
begin

text \<open>
  Shared vocabulary of the development: the Rust types the components use, byte slices and
  big-endian integers, association tables for the hash maps, the result type of methods that
  take \<open>&mut self\<close>, and the two interfaces (locales) almost every component provides:
  a fixed-width codec and a step system with an invariant.

  Conventions. \<open>usize\<close> values are \<open>nat\<close>: every one of them is a buffer length or a table
  size bounded by constants of the source, so no addition on them can reach \<open>2 ^ 64\<close>. Wire
  integers keep their width (\<open>8 word\<close>, \<open>16 word\<close>, \<open>32 word\<close>, \<open>64 word\<close>). An
  \<open>Instant\<close> is a \<open>nat\<close> number of nanoseconds on one monotonic timeline and a
  \<open>Duration\<close> a \<open>nat\<close> number of nanoseconds; \<open>Instant::duration_since\<close> saturates at
  zero, as subtraction on \<open>nat\<close> does. Clocks and random bytes are arguments.
\<close>

unbundle bit_operations_syntax

type_synonym byte = "8 word"
type_synonym bytes = "byte list"
type_synonym u16 = "16 word"
type_synonym u32 = "32 word"
type_synonym u64 = "64 word"
type_synonym instant = nat
type_synonym duration = nat

text \<open>\<open>Result<T, E>\<close> is a sum with the error on the left; a method that mutates its receiver
  returns its result together with the receiver's new state, on the error paths too.\<close>

type_synonym ('e, 'a) result = "'e + 'a"

text \<open>\<open>SocketAddr\<close>: address bytes and port, and for IPv6 the flow and scope words.\<close>

datatype SocketAddr = SocketAddrV4 bytes u16 | SocketAddrV6 bytes u16 u32 u32

named_theorems layout_simps \<open>numeric values of the wire-layout constants\<close>
named_theorems table_simps \<open>lookups in association tables after an update or a delete\<close>

definition is_Ok :: "'e + 'a \<Rightarrow> bool" where
  "is_Ok r = (case r of Inl _ \<Rightarrow> False | Inr _ \<Rightarrow> True)"

lemma is_Ok_simps [simp]: "is_Ok (Inr a)" "\<not> is_Ok (Inl e)"
  by (simp_all add: is_Ok_def)

lemma is_Ok_iff: "is_Ok r \<longleftrightarrow> (\<exists>a. r = Inr a)"
  by (cases r) auto

text \<open>The successful results of a sequence of calls.\<close>

fun oks :: "('e + 'a) list \<Rightarrow> 'a list" where
  "oks [] = []"
| "oks (Inl _ # rs) = oks rs"
| "oks (Inr a # rs) = a # oks rs"

lemma oks_map_Inr [simp]: "oks (map Inr xs) = xs"
  by (induction xs) simp_all

lemma oks_append: "oks (xs @ ys) = oks xs @ oks ys"
  by (induction xs rule: oks.induct) simp_all

section \<open>Formatting\<close>

text \<open>An unsigned integer as \<open>{}\<close> formats it.\<close>

fun decimal :: "nat \<Rightarrow> string" where
  "decimal n =
     (if n < 10 then [char_of (48 + n)] else decimal (n div 10) @ [char_of (48 + n mod 10)])"

declare decimal.simps [simp del]

section \<open>Durations\<close>

definition from_secs :: "nat \<Rightarrow> duration" where
  "from_secs s = s * 1000000000"

definition from_millis :: "nat \<Rightarrow> duration" where
  "from_millis s = s * 1000000"

section \<open>Checked and saturating arithmetic\<close>

definition checked_add :: "'a::len word \<Rightarrow> 'a word \<Rightarrow> 'a word option" where
  "checked_add a b = (if unat a + unat b < 2 ^ LENGTH('a) then Some (a + b) else None)"

definition saturating_sub :: "'a::len word \<Rightarrow> 'a word \<Rightarrow> 'a word" where
  "saturating_sub a b = (if b \<le> a then a - b else 0)"

definition saturating_add :: "'a::len word \<Rightarrow> 'a word \<Rightarrow> 'a word" where
  "saturating_add a b = (if unat a + unat b < 2 ^ LENGTH('a) then a + b else - 1)"

definition saturating_mul :: "'a::len word \<Rightarrow> 'a word \<Rightarrow> 'a word" where
  "saturating_mul a b = (if unat a * unat b < 2 ^ LENGTH('a) then a * b else - 1)"

lemma checked_add_Some: "checked_add a b = Some c \<Longrightarrow> unat c = unat a + unat b"
  by (auto simp: checked_add_def unat_word_ariths split: if_splits)

section \<open>Slices and copies\<close>

text \<open>\<open>&xs[a..b]\<close> (for \<open>a \<le> b \<le> len\<close>) and \<open>buf[off..off + xs.len()].copy_from_slice(xs)\<close>.\<close>

definition slice :: "nat \<Rightarrow> nat \<Rightarrow> 'a list \<Rightarrow> 'a list" where
  "slice a b xs = take (b - a) (drop a xs)"

definition copy_at :: "nat \<Rightarrow> 'a list \<Rightarrow> 'a list \<Rightarrow> 'a list" where
  "copy_at off xs buf = take off buf @ xs @ drop (off + length xs) buf"

lemma length_slice [simp]: "length (slice a b xs) = min (b - a) (length xs - a)"
  by (simp add: slice_def min.commute)

lemma length_copy_at [simp]:
  "off + length xs \<le> length buf \<Longrightarrow> length (copy_at off xs buf) = length buf"
  by (simp add: copy_at_def)

lemma nth_copy_at:
  assumes "off + length xs \<le> length buf" and "i < length buf"
  shows "copy_at off xs buf ! i =
    (if i < off then buf ! i else if i < off + length xs then xs ! (i - off) else buf ! i)"
  using assms by (auto simp: copy_at_def nth_append min_def)

lemma nth_slice: "a + i < b \<Longrightarrow> b \<le> length xs \<Longrightarrow> slice a b xs ! i = xs ! (a + i)"
  by (simp add: slice_def)

lemma slice_copy_at_same:
  "off + length xs \<le> length buf \<Longrightarrow> slice off (off + length xs) (copy_at off xs buf) = xs"
  by (simp add: slice_def copy_at_def)

lemma slice_append_left: "b \<le> length xs \<Longrightarrow> slice a b (xs @ ys) = slice a b xs"
  by (auto simp: slice_def)

lemma slice_append_right:
  "length xs \<le> a \<Longrightarrow> slice a b (xs @ ys) = slice (a - length xs) (b - length xs) ys"
  by (simp add: slice_def)

lemma slice_all [simp]: "length xs \<le> b \<Longrightarrow> slice 0 b xs = xs"
  by (simp add: slice_def)

lemma slice_zero: "slice 0 b xs = take b xs"
  by (simp add: slice_def)

lemma copy_at_front:
  "length xs \<le> length buf \<Longrightarrow> copy_at 0 xs buf = xs @ drop (length xs) buf"
  by (simp add: copy_at_def)

lemma copy_at_after:
  "off = length ys \<Longrightarrow> copy_at off xs (ys @ zs) = ys @ xs @ drop (length xs) zs"
  by (simp add: copy_at_def)

lemma take_slice_split: "a \<le> b \<Longrightarrow> b \<le> length xs \<Longrightarrow> take b xs = take a xs @ slice a b xs"
  by (simp add: slice_def take_add [symmetric])

lemma slice_split: "a \<le> b \<Longrightarrow> b \<le> c \<Longrightarrow> slice a b xs @ slice b c xs = slice a c xs"
proof -
  assume h: "a \<le> b" "b \<le> c"
  have "drop b xs = drop (b - a) (drop a xs)" using h by simp
  moreover have "c - a = (b - a) + (c - b)" using h by simp
  ultimately show ?thesis unfolding slice_def by (simp only: take_add)
qed

lemma slice_of_slice: "b + d \<le> c \<Longrightarrow> slice a' d (slice b c xs) = slice (b + a') (b + d) xs"
  by (cases "a' \<le> d") (simp_all add: slice_def take_drop add.commute min_def)

text \<open>A buffer cut into blocks of \<open>B\<close> bytes (the last one shorter), and a second buffer that agrees
  with it on the blocks in \<open>S\<close>: writing one more block extends the agreement.\<close>

definition block :: "nat \<Rightarrow> nat \<Rightarrow> 'a list \<Rightarrow> 'a list" where
  "block B i xs = slice (i * B) (min (i * B + B) (length xs)) xs"

definition agree_on :: "nat \<Rightarrow> nat set \<Rightarrow> 'a list \<Rightarrow> 'a list \<Rightarrow> bool" where
  "agree_on B S xs ys \<longleftrightarrow> length ys = length xs \<and> (\<forall>k < length xs. k div B \<in> S \<longrightarrow> ys ! k = xs ! k)"

lemma length_block: "length (block B i xs) = min B (length xs - i * B)"
  by (auto simp: block_def min_def)

lemma block_nth: "k < length (block B i xs) \<Longrightarrow> block B i xs ! k = xs ! (i * B + k)"
  by (simp add: block_def slice_def)

lemma block_index: "0 < B \<Longrightarrow> (k :: nat) div B = i \<longleftrightarrow> i * B \<le> k \<and> k < i * B + B"
  using div_nat_eqI [of B i k] times_div_less_eq_dividend [of B k] dividend_less_div_times [of B k]
  by (auto simp: mult.commute)

lemma agree_on_write:
  assumes B: "0 < B" and a: "agree_on B S xs ys" and i: "i * B \<le> length xs"
  shows "agree_on B (insert i S) xs (copy_at (i * B) (block B i xs) ys)"
proof -
  let ?zs = "copy_at (i * B) (block B i xs) ys"
  have len: "length ys = length xs" using a by (simp add: agree_on_def)
  have fit: "i * B + length (block B i xs) \<le> length ys" using i len by (simp add: length_block)
  have "?zs ! k = xs ! k" if k: "k < length xs" "k div B \<in> insert i S" for k
  proof (cases "k div B = i")
    case True
    then have b: "i * B \<le> k" "k < i * B + B" using block_index [OF B] by blast+
    then have "k - i * B < length (block B i xs)" using k(1) unfolding length_block by linarith
    moreover from this have "k < i * B + length (block B i xs)" using b(1) by linarith
    ultimately show ?thesis using b(1) fit len k(1) block_nth [of "k - i * B" B i xs]
      by (simp add: nth_copy_at)
  next
    case False
    then have "k < i * B \<or> i * B + B \<le> k" using block_index [OF B, of k i] by linarith
    then have "\<not> (i * B \<le> k \<and> k < i * B + length (block B i xs))" by (auto simp: length_block)
    then have "?zs ! k = ys ! k" using fit len k(1) by (auto simp: nth_copy_at)
    then show ?thesis using a k False by (simp add: agree_on_def)
  qed
  then show ?thesis using fit len by (simp add: agree_on_def)
qed

lemma agree_on_all:
  "0 < B \<Longrightarrow> agree_on B S xs ys \<Longrightarrow> {..<n} \<subseteq> S \<Longrightarrow> length xs \<le> n * B \<Longrightarrow> ys = xs"
  by (rule nth_equalityI) (auto simp: agree_on_def div_less_iff_less_mult subset_iff)

lemma agree_on_block:
  assumes B: "0 < B" and a: "agree_on B S xs ys" and i: "i \<in> S" "i * B \<le> length xs"
  shows "slice (i * B) (i * B + length (block B i xs)) ys = block B i xs"
proof (rule nth_equalityI)
  have len: "length ys = length xs" using a by (simp add: agree_on_def)
  have fit: "i * B + length (block B i xs) \<le> length ys" using i len by (simp add: length_block)
  then show l: "length (slice (i * B) (i * B + length (block B i xs)) ys) = length (block B i xs)" by simp
  fix k assume "k < length (slice (i * B) (i * B + length (block B i xs)) ys)"
  then have k: "k < length (block B i xs)" using l by simp
  then have "(i * B + k) div B = i" using block_index [OF B] by (simp add: length_block)
  then have "ys ! (i * B + k) = xs ! (i * B + k)" using a i k fit len by (simp add: agree_on_def)
  then show "slice (i * B) (i * B + length (block B i xs)) ys ! k = block B i xs ! k"
    using nth_slice [of "i * B" k "i * B + length (block B i xs)" ys] k fit by (simp add: block_nth)
qed

section \<open>Big-endian integers\<close>

text \<open>\<open>x.to_be_bytes()\<close> for an \<open>n\<close>-byte integer, and \<open>uN::from_be_bytes\<close>.\<close>

definition to_be :: "nat \<Rightarrow> 'a::len word \<Rightarrow> bytes" where
  "to_be n w = map (\<lambda>i. ucast (drop_bit (8 * i) w)) (rev [0..<n])"

definition from_be :: "bytes \<Rightarrow> 'a::len word" where
  "from_be bs = foldl (\<lambda>acc b. push_bit 8 acc OR ucast b) 0 bs"

lemma length_to_be [simp]: "length (to_be n w) = n"
  by (simp add: to_be_def)

lemma from_be_snoc: "from_be (bs @ [b]) = push_bit 8 (from_be bs) OR ucast b"
  by (simp add: from_be_def)

lemma from_be_Nil [simp]: "from_be [] = 0"
  by (simp add: from_be_def)

lemma bit_byte_bound: "bit (b :: byte) k \<Longrightarrow> k < 8"
  using bit_imp_le_length by fastforce

lemma bit_from_be:
  "bit (from_be bs :: 'a::len word) k \<longleftrightarrow>
     k < LENGTH('a) \<and> k div 8 < length bs \<and> bit (rev bs ! (k div 8)) (k mod 8)"
proof (induction bs arbitrary: k rule: rev_induct)
  case Nil
  then show ?case by simp
next
  case (snoc b bs)
  show ?case
  proof (cases "k < 8")
    case True
    then show ?thesis
      by (auto simp: from_be_snoc bit_simps dest: bit_byte_bound)
  next
    case False
    then obtain m where m: "k = m + 8"
      by (metis add.commute le_Suc_ex not_le)
    have "\<not> bit b k" using False by (auto dest: bit_byte_bound)
    moreover have "(m + 8) div 8 = Suc (m div 8)" by simp
    ultimately show ?thesis
      using m by (auto simp: from_be_snoc bit_simps snoc.IH)
  qed
qed

lemma rev_to_be_nth: "i < n \<Longrightarrow> rev (to_be n w) ! i = ucast (drop_bit (8 * i) w)"
  by (simp add: to_be_def rev_map)

lemma from_be_to_be:
  assumes "LENGTH('a::len) = 8 * n"
  shows "from_be (to_be n (w :: 'a word)) = w"
proof (rule bit_word_eqI)
  fix k assume k: "k < LENGTH('a)"
  then have d: "k div 8 < n" using assms by simp
  have "8 * (k div 8) + k mod 8 = k" by simp
  with k d show "bit (from_be (to_be n w) :: 'a word) k = bit w k"
    by (simp add: bit_from_be rev_to_be_nth bit_simps)
qed

lemma to_be_from_be:
  assumes "LENGTH('a::len) = 8 * length bs"
  shows "to_be (length bs) (from_be bs :: 'a word) = bs"
proof -
  have "rev (to_be (length bs) (from_be bs :: 'a word)) = rev bs"
  proof (rule nth_equalityI)
    show "length (rev (to_be (length bs) (from_be bs :: 'a word))) = length (rev bs)" by simp
  next
    fix i assume "i < length (rev (to_be (length bs) (from_be bs :: 'a word)))"
    then have i: "i < length bs" by simp
    show "rev (to_be (length bs) (from_be bs :: 'a word)) ! i = rev bs ! i"
    proof (rule bit_word_eqI)
      fix k assume k: "k < LENGTH(8)"
      have dm: "(8 * i + k) div 8 = i" "(8 * i + k) mod 8 = k" using k by auto
      have lt: "8 * i + k < LENGTH('a)" using i k assms by simp
      show "bit (rev (to_be (length bs) (from_be bs :: 'a word)) ! i) k = bit (rev bs ! i) k"
        using i k dm lt by (simp add: rev_to_be_nth bit_simps bit_from_be)
    qed
  qed
  then show ?thesis by (metis rev_rev_ident)
qed

lemma from_be_u16 [simp]: "from_be (to_be 2 (w :: u16)) = w"
  by (rule from_be_to_be) simp

lemma from_be_u32 [simp]: "from_be (to_be 4 (w :: u32)) = w"
  by (rule from_be_to_be) simp

lemma from_be_u64 [simp]: "from_be (to_be 8 (w :: u64)) = w"
  by (rule from_be_to_be) simp

lemma to_be_u16: "length bs = 2 \<Longrightarrow> to_be 2 (from_be bs :: u16) = bs"
  using to_be_from_be [where 'a = 16, of bs] by simp

lemma to_be_u32: "length bs = 4 \<Longrightarrow> to_be 4 (from_be bs :: u32) = bs"
  using to_be_from_be [where 'a = 32, of bs] by simp

lemma to_be_u64: "length bs = 8 \<Longrightarrow> to_be 8 (from_be bs :: u64) = bs"
  using to_be_from_be [where 'a = 64, of bs] by simp

section \<open>Association tables\<close>

text \<open>A \<open>HashMap\<close> or \<open>BTreeMap\<close> whose size matters is an association list with distinct keys:
  \<open>insert\<close> is \<open>AList.update\<close>, \<open>remove\<close> is \<open>AList.delete\<close>, \<open>get\<close> is \<open>map_of\<close>,
  \<open>len\<close> is \<open>length\<close>, \<open>retain\<close> is \<open>filter\<close>. The iteration order of a hash map is
  unspecified; the list order is one such order and no theorem depends on which.\<close>

type_synonym ('k, 'v) table = "('k \<times> 'v) list"

definition keys :: "('k, 'v) table \<Rightarrow> 'k list" where
  "keys t = map fst t"

definition table_ok :: "('k, 'v) table \<Rightarrow> bool" where
  "table_ok t = distinct (map fst t)"

definition contains_key :: "'k \<Rightarrow> ('k, 'v) table \<Rightarrow> bool" where
  "contains_key k t = (map_of t k \<noteq> None)"

lemma table_ok_Nil [simp]: "table_ok []"
  by (simp add: table_ok_def)

lemma table_ok_update [simp]: "table_ok t \<Longrightarrow> table_ok (AList.update k v t)"
  by (simp add: table_ok_def distinct_update)

lemma table_ok_delete [simp]: "table_ok t \<Longrightarrow> table_ok (AList.delete k t)"
  by (simp add: table_ok_def distinct_delete)

lemma table_ok_filter [simp]: "table_ok t \<Longrightarrow> table_ok (filter P t)"
  by (simp add: table_ok_def distinct_map_filter)

lemma map_of_update [table_simps]:
  "map_of (AList.update k v t) k' = (if k' = k then Some v else map_of t k')"
  by (simp add: update_conv')

lemma map_of_delete [table_simps]:
  "map_of (AList.delete k t) k' = (if k' = k then None else map_of t k')"
  by (simp add: delete_conv')

lemma map_of_filter [table_simps]:
  "table_ok t \<Longrightarrow> map_of (filter P t) k =
     (case map_of t k of None \<Rightarrow> None | Some v \<Rightarrow> if P (k, v) then Some v else None)"
proof (induction t)
  case Nil
  then show ?case by simp
next
  case (Cons e t)
  obtain a b where e: "e = (a, b)" by (cases e)
  have "table_ok t" "a \<notin> fst ` set t" using Cons.prems e by (simp_all add: table_ok_def)
  then have "map_of t a = None" by (simp add: map_of_eq_None_iff)
  with Cons.IH [OF \<open>table_ok t\<close>] e show ?case by auto
qed

lemma length_update:
  "length (AList.update k v t) = (if contains_key k t then length t else Suc (length t))"
  by (induction t) (auto simp: contains_key_def)

lemma length_delete_mem:
  "table_ok t \<Longrightarrow> contains_key k t \<Longrightarrow> length (AList.delete k t) = length t - 1"
proof (induction t)
  case Nil
  then show ?case by (simp add: contains_key_def)
next
  case (Cons e t)
  obtain a b where e: "e = (a, b)" by (cases e)
  have ok: "table_ok t" and a: "a \<notin> fst ` set t" using Cons.prems e by (simp_all add: table_ok_def)
  show ?case
  proof (cases "k = a")
    case True
    have "AList.delete a t = t" using a by (simp add: delete_id)
    then show ?thesis using True e by simp
  next
    case False
    then have "contains_key k t" using Cons.prems e by (simp add: contains_key_def)
    moreover from this have "t \<noteq> []" by (auto simp: contains_key_def)
    ultimately show ?thesis using Cons.IH [OF ok] False e by (cases t) auto
  qed
qed

lemma length_delete_absent: "\<not> contains_key k t \<Longrightarrow> AList.delete k t = t"
  by (simp add: contains_key_def map_of_eq_None_iff delete_id)

lemma contains_key_iff: "contains_key k t \<longleftrightarrow> k \<in> set (map fst t)"
  by (auto simp: contains_key_def map_of_eq_None_iff)

lemma contains_key_update [table_simps]: "contains_key k' (AList.update k v t) \<longleftrightarrow> k' = k \<or> contains_key k' t"
  by (simp add: contains_key_def map_of_update)

lemma contains_key_delete [table_simps]: "contains_key k' (AList.delete k t) \<longleftrightarrow> k' \<noteq> k \<and> contains_key k' t"
  by (simp add: contains_key_def map_of_delete)

section \<open>Step systems\<close>

text \<open>A component driven from outside is a function from an input and a state to outputs and a
  state; a run feeds it a list of inputs, newest output last. The interface of every state
  machine below: an invariant that one step keeps. Its client's lemma: every run keeps it.\<close>

fun run :: "('i \<Rightarrow> 's \<Rightarrow> 'o \<times> 's) \<Rightarrow> 'i list \<Rightarrow> 's \<Rightarrow> 'o list \<times> 's" where
  "run step [] s = ([], s)"
| "run step (i # is) s =
     (let (out, s1) = step i s; (outs, s2) = run step is s1 in (out # outs, s2))"

lemma run_Cons:
  "run step (i # is) s =
     (fst (step i s) # fst (run step is (snd (step i s))), snd (run step is (snd (step i s))))"
  by (simp add: Let_def split: prod.splits)

declare run.simps(2) [simp del] and run_Cons [simp]

lemma run_append:
  "run step (is @ js) s =
     (let (o1, s1) = run step is s; (o2, s2) = run step js s1 in (o1 @ o2, s2))"
  by (induction "is" arbitrary: s) (simp_all add: Let_def split: prod.splits)

lemma length_run [simp]: "length (fst (run step is s)) = length is"
  by (induction "is" arbitrary: s) simp_all

locale step_system =
  fixes step :: "'i \<Rightarrow> 's \<Rightarrow> 'o \<times> 's"
    and inv :: "'s \<Rightarrow> bool"
  assumes step_inv: "inv s \<Longrightarrow> inv (snd (step i s))"
begin

lemma run_inv: "inv s \<Longrightarrow> inv (snd (run step is s))"
  by (induction "is" arbitrary: s) (simp_all add: step_inv)

lemma run_measure:
  fixes m :: "'s \<Rightarrow> nat"
  assumes mono: "\<And>i s. inv s \<Longrightarrow> m s \<le> m (snd (step i s))"
  shows "inv s \<Longrightarrow> m s \<le> m (snd (run step is s))"
proof (induction "is" arbitrary: s)
  case Nil
  then show ?case by simp
next
  case (Cons i "is")
  have "m s \<le> m (snd (step i s))" using mono Cons.prems .
  also have "\<dots> \<le> m (snd (run step is (snd (step i s))))"
    using Cons.IH step_inv [OF Cons.prems] .
  finally show ?case by simp
qed

end

section \<open>Fixed-width codecs\<close>

text \<open>The interface of every wire format below: an encoder onto \<open>width\<close> bytes and a decoder
  that reads them back from the front of a buffer and accepts nothing but images of the
  encoder. Its clients get injectivity, canonicity (one byte string per value) and that no
  encoding is a proper prefix of another.\<close>

locale fixed_codec =
  fixes enc :: "'a \<Rightarrow> bytes"
    and dec :: "bytes \<Rightarrow> 'e + 'a"
    and wf :: "'a \<Rightarrow> bool"
    and width :: nat
  assumes enc_length: "wf x \<Longrightarrow> length (enc x) = width"
    and dec_enc: "wf x \<Longrightarrow> dec (enc x) = Inr x"
    and dec_sound: "dec bs = Inr x \<Longrightarrow> wf x \<and> width \<le> length bs \<and> enc x = take width bs"
begin

lemma enc_inj: "wf x \<Longrightarrow> wf y \<Longrightarrow> enc x = enc y \<Longrightarrow> x = y"
  by (metis dec_enc sum.inject(2))

lemma dec_canonical:
  "dec bs = Inr x \<Longrightarrow> dec cs = Inr x \<Longrightarrow> take width bs = take width cs"
  by (metis dec_sound)

lemma dec_exact: "dec bs = Inr x \<Longrightarrow> length bs = width \<Longrightarrow> bs = enc x"
  by (metis dec_sound take_all order_refl)

lemma enc_prefix_free: "wf x \<Longrightarrow> wf y \<Longrightarrow> enc x = enc y @ zs \<Longrightarrow> x = y \<and> zs = []"
proof -
  assume w: "wf x" "wf y" and e: "enc x = enc y @ zs"
  have "length (enc x) = length (enc y)" using enc_length w by simp
  then have "zs = []" using e by simp
  then show ?thesis using e w enc_inj by simp
qed

lemma dec_iff_image: "length bs = width \<Longrightarrow> is_Ok (dec bs) \<longleftrightarrow> (\<exists>x. wf x \<and> bs = enc x)"
  by (metis dec_enc dec_exact dec_sound is_Ok_iff)

end

end
