(* ===== verification/Crypto.thy ===== *)
theory Crypto
  imports Prelude
begin

text \<open>
  The wrappers of \<open>pq-crypto/src\<close> over third-party primitives. The primitives themselves
  (ChaCha20-Poly1305, HKDF, HMAC, SHA-256, ML-KEM-768, ML-DSA-65, X25519) are not under
  \<open>src/\<close>: they are the fields of a record \<open>primitives\<close> that every definition using them takes
  as its first argument, and what the code relies on are the named predicates
  \<open>aead_correct\<close>, \<open>hkdf_correct\<close>, \<open>kem_correct\<close>, \<open>dsa_correct\<close>, \<open>x25519_correct\<close>,
  \<open>hash_sized\<close>. Keys and ciphertexts are their encodings (byte lists); a random draw is an
  argument. A fallible primitive returns the error as the library displays it, which the code
  appends to its own text. A secret key is the seed its pair is generated from (64 bytes for
  ML-KEM, 32 bytes for ML-DSA and X25519), so \<open>kem_correct\<close> and \<open>dsa_correct\<close> speak of generated
  pairs only. ML-KEM decapsulation of an honest ciphertext is taken to be exact (its failure
  probability is below \<open>2 ^ -164\<close>).
\<close>

section \<open>Errors and primitives\<close>

datatype CryptoError =
    Kem string
  | Signature string
  | X25519 string
  | Aead string
  | Kdf string
  | InvalidInput string
  | VerificationFailed

record primitives =
  chacha_key_error :: string
  chacha_encrypt :: "bytes \<Rightarrow> bytes \<Rightarrow> bytes \<Rightarrow> bytes \<Rightarrow> string + bytes"
  chacha_decrypt :: "bytes \<Rightarrow> bytes \<Rightarrow> bytes \<Rightarrow> bytes \<Rightarrow> string + bytes"
  hkdf_expand :: "bytes \<Rightarrow> bytes \<Rightarrow> bytes \<Rightarrow> nat \<Rightarrow> string + bytes"
  hmac_sha256 :: "bytes \<Rightarrow> bytes \<Rightarrow> bytes"
  sha256_digest :: "bytes \<Rightarrow> bytes"
  mlkem_ek_of :: "bytes \<Rightarrow> bytes"
  mlkem_ek_ok :: "bytes \<Rightarrow> bool"
  mlkem_ek_error :: "bytes \<Rightarrow> string"
  mlkem_encaps :: "bytes \<Rightarrow> bytes \<Rightarrow> bytes \<times> bytes"
  mlkem_decaps :: "bytes \<Rightarrow> bytes \<Rightarrow> bytes"
  mldsa_vk_of :: "bytes \<Rightarrow> bytes"
  mldsa_sign :: "bytes \<Rightarrow> bytes \<Rightarrow> bytes"
  mldsa_sig_ok :: "bytes \<Rightarrow> bool"
  mldsa_verify :: "bytes \<Rightarrow> bytes \<Rightarrow> bytes \<Rightarrow> bool"
  x25519_pk_of :: "bytes \<Rightarrow> bytes"
  x25519_dh :: "bytes \<Rightarrow> bytes \<Rightarrow> bytes"
  x25519_contributory :: "bytes \<Rightarrow> bytes \<Rightarrow> bool"

section \<open>AEAD (\<open>aead.rs\<close>)\<close>

definition AEAD_KEY_BYTES :: nat where [layout_simps]: "AEAD_KEY_BYTES = 32"
definition AEAD_NONCE_BYTES :: nat where [layout_simps]: "AEAD_NONCE_BYTES = 12"
definition AEAD_TAG_BYTES :: nat where [layout_simps]: "AEAD_TAG_BYTES = 16"

definition aead_encrypt ::
  "primitives \<Rightarrow> bytes \<Rightarrow> bytes \<Rightarrow> bytes \<Rightarrow> bytes \<Rightarrow> CryptoError + bytes" where
  "aead_encrypt P key nonce plaintext aad =
     (if length key \<noteq> AEAD_KEY_BYTES then Inl (Aead (''invalid key: '' @ chacha_key_error P))
      else case chacha_encrypt P key nonce plaintext aad of
        Inl e \<Rightarrow> Inl (Aead (''encryption failed: '' @ e))
      | Inr c \<Rightarrow> Inr c)"

definition aead_decrypt ::
  "primitives \<Rightarrow> bytes \<Rightarrow> bytes \<Rightarrow> bytes \<Rightarrow> bytes \<Rightarrow> CryptoError + bytes" where
  "aead_decrypt P key nonce ciphertext aad =
     (if length key \<noteq> AEAD_KEY_BYTES then Inl (Aead (''invalid key: '' @ chacha_key_error P))
      else case chacha_decrypt P key nonce ciphertext aad of
        Inl e \<Rightarrow> Inl (Aead (''decryption failed: '' @ e))
      | Inr m \<Rightarrow> Inr m)"

text \<open>RFC 8439: for a 32-byte key and a 12-byte nonce, sealing a message (well below the 256 GiB
  limit) succeeds and appends a 16-byte tag, opening inverts sealing, and opening accepts only
  what sealing the opened message produces.\<close>

definition aead_correct :: "primitives \<Rightarrow> bool" where
  "aead_correct P \<longleftrightarrow>
     (\<forall>k n m a. length k = 32 \<longrightarrow> length n = 12 \<longrightarrow> length m \<le> 65536 \<longrightarrow>
        (\<exists>c. chacha_encrypt P k n m a = Inr c \<and> length c = length m + 16 \<and>
             chacha_decrypt P k n c a = Inr m)) \<and>
     (\<forall>k n c a m. chacha_decrypt P k n c a = Inr m \<longrightarrow> chacha_encrypt P k n m a = Inr c)"

lemma aead_encrypt_ok:
  assumes "aead_correct P" "length k = 32" "length n = 12" "length m \<le> 65536"
  obtains c where "aead_encrypt P k n m a = Inr c" "length c = length m + 16"
    "aead_decrypt P k n c a = Inr m"
proof -
  obtain c where "chacha_encrypt P k n m a = Inr c" "length c = length m + 16"
    "chacha_decrypt P k n c a = Inr m"
    using assms unfolding aead_correct_def by blast
  then show thesis
    using that assms(2) by (simp add: aead_encrypt_def aead_decrypt_def AEAD_KEY_BYTES_def)
qed

lemma aead_decrypt_sound:
  "aead_correct P \<Longrightarrow> aead_decrypt P k n c a = Inr m \<Longrightarrow> aead_encrypt P k n m a = Inr c"
  by (auto simp: aead_correct_def aead_decrypt_def aead_encrypt_def split: if_splits sum.splits)

section \<open>Key derivation (\<open>kdf.rs\<close>)\<close>

definition ascii :: "string \<Rightarrow> bytes" where
  "ascii s = map of_char s"

definition zero_salt :: bytes where
  "zero_salt = replicate 32 0"

definition kdf_derive :: "primitives \<Rightarrow> bytes \<Rightarrow> bytes \<Rightarrow> bytes \<Rightarrow> nat \<Rightarrow> CryptoError + bytes" where
  "kdf_derive P input salt info out_len =
     (case hkdf_expand P salt input info out_len of
        Inl e \<Rightarrow> Inl (Kdf (''expand failed: '' @ e))
      | Inr okm \<Rightarrow> Inr okm)"

text \<open>The message holds an em dash, three bytes of UTF-8.\<close>

definition size_mismatch :: string where
  "size_mismatch = ''output size mismatch '' @ [CHR 0xE2, CHR 0x80, CHR 0x94] @ '' unreachable''"

definition kdf_derive_to_bytes ::
  "primitives \<Rightarrow> nat \<Rightarrow> bytes \<Rightarrow> bytes \<Rightarrow> bytes \<Rightarrow> CryptoError + bytes" where
  "kdf_derive_to_bytes P N input salt info =
     (case hkdf_expand P salt input info N of
        Inl e \<Rightarrow> Inl (Kdf (''expand failed: '' @ e))
      | Inr okm \<Rightarrow> if length okm = N then Inr okm else Inl (Kdf size_mismatch))"

definition session_info :: "bytes \<Rightarrow> bytes \<Rightarrow> bytes" where
  "session_info label session_id = label @ session_id"

definition derive_client_to_server_key :: "primitives \<Rightarrow> bytes \<Rightarrow> bytes \<Rightarrow> CryptoError + bytes" where
  "derive_client_to_server_key P master sid =
     kdf_derive_to_bytes P 32 master zero_salt (session_info (ascii ''pq-tunnel-c2s-v2'') sid)"

definition derive_server_to_client_key :: "primitives \<Rightarrow> bytes \<Rightarrow> bytes \<Rightarrow> CryptoError + bytes" where
  "derive_server_to_client_key P master sid =
     kdf_derive_to_bytes P 32 master zero_salt (session_info (ascii ''pq-tunnel-s2c-v2'') sid)"

definition derive_nonce_prefix_c2s :: "primitives \<Rightarrow> bytes \<Rightarrow> bytes \<Rightarrow> CryptoError + bytes" where
  "derive_nonce_prefix_c2s P master sid =
     kdf_derive_to_bytes P 4 master zero_salt (session_info (ascii ''pq-tunnel-nonce-c2s-v2'') sid)"

definition derive_nonce_prefix_s2c :: "primitives \<Rightarrow> bytes \<Rightarrow> bytes \<Rightarrow> CryptoError + bytes" where
  "derive_nonce_prefix_s2c P master sid =
     kdf_derive_to_bytes P 4 master zero_salt (session_info (ascii ''pq-tunnel-nonce-s2c-v2'') sid)"

definition derive_master_secret_v2 ::
  "primitives \<Rightarrow> bytes \<Rightarrow> bytes \<Rightarrow> bytes \<Rightarrow> byte \<Rightarrow> bytes \<Rightarrow> bytes \<Rightarrow> CryptoError + bytes" where
  "derive_master_secret_v2 P ss_a ss_b dh_cs version sid th3 =
     (let ikm = ss_a @ ss_b @ dh_cs;
          info = ascii ''pq-tunnel-master-v2'' @ [version] @ sid @ th3
      in kdf_derive_to_bytes P 32 ikm zero_salt info)"

definition derive_finished_key :: "primitives \<Rightarrow> bytes \<Rightarrow> byte \<Rightarrow> bytes \<Rightarrow> CryptoError + bytes" where
  "derive_finished_key P master version sid =
     kdf_derive_to_bytes P 32 master zero_salt (ascii ''pq-tunnel-finished-v1'' @ [version] @ sid)"

definition compute_client_finished :: "primitives \<Rightarrow> bytes \<Rightarrow> bytes \<Rightarrow> bytes" where
  "compute_client_finished P finished_key th3 = take 16 (hmac_sha256 P finished_key th3)"

definition build_session_nonce :: "bytes \<Rightarrow> u64 \<Rightarrow> bytes" where
  "build_session_nonce prefix counter =
     copy_at 4 (to_be 8 counter) (copy_at 0 prefix (replicate 12 0))"

text \<open>RFC 5869: expansion to at most 255 blocks of SHA-256 succeeds with the length asked for.\<close>

definition hkdf_correct :: "primitives \<Rightarrow> bool" where
  "hkdf_correct P \<longleftrightarrow>
     (\<forall>salt ikm info n. n \<le> 255 * 32 \<longrightarrow>
        (\<exists>okm. hkdf_expand P salt ikm info n = Inr okm \<and> length okm = n))"

lemma kdf_derive_to_bytes_ok:
  assumes "hkdf_correct P" "N \<le> 255 * 32"
  obtains okm where "kdf_derive_to_bytes P N input salt info = Inr okm" "length okm = N"
proof -
  obtain okm where "hkdf_expand P salt input info N = Inr okm" "length okm = N"
    using assms unfolding hkdf_correct_def by blast
  then show thesis using that by (simp add: kdf_derive_to_bytes_def)
qed

lemma kdf_derive_to_bytes_length: "kdf_derive_to_bytes P N input salt info = Inr okm \<Longrightarrow> length okm = N"
  by (auto simp: kdf_derive_to_bytes_def split: sum.splits if_splits)

lemma build_session_nonce_eq: "length prefix = 4 \<Longrightarrow> build_session_nonce prefix c = prefix @ to_be 8 c"
  by (simp add: build_session_nonce_def copy_at_def)

lemma build_session_nonce_length: "length prefix = 4 \<Longrightarrow> length (build_session_nonce prefix c) = 12"
  by (simp add: build_session_nonce_eq)

lemma build_session_nonce_inj:
  "length p = 4 \<Longrightarrow> length q = 4 \<Longrightarrow>
   build_session_nonce p c = build_session_nonce q d \<longleftrightarrow> p = q \<and> c = d"
  by (metis append_eq_append_conv build_session_nonce_eq from_be_u64)

section \<open>Key encapsulation, signatures, key agreement, transcript\<close>

definition ML_KEM_768_PUBLIC_KEY_BYTES :: nat where [layout_simps]: "ML_KEM_768_PUBLIC_KEY_BYTES = 1184"
definition ML_KEM_768_CIPHERTEXT_BYTES :: nat where [layout_simps]: "ML_KEM_768_CIPHERTEXT_BYTES = 1088"
definition ML_DSA_65_PUBLIC_KEY_BYTES :: nat where [layout_simps]: "ML_DSA_65_PUBLIC_KEY_BYTES = 1952"
definition ML_DSA_65_SIGNATURE_BYTES :: nat where [layout_simps]: "ML_DSA_65_SIGNATURE_BYTES = 3309"

definition kem_public_from_bytes :: "primitives \<Rightarrow> bytes \<Rightarrow> CryptoError + bytes" where
  "kem_public_from_bytes P bs =
     (if length bs \<noteq> 1184 then Inl (Kem ''invalid kem key length'')
      else if mlkem_ek_ok P bs then Inr bs else Inl (Kem (''invalid kem key: '' @ mlkem_ek_error P bs)))"

definition kem_ciphertext_from_bytes :: "bytes \<Rightarrow> CryptoError + bytes" where
  "kem_ciphertext_from_bytes bs =
     (if length bs \<noteq> ML_KEM_768_CIPHERTEXT_BYTES then Inl (Kem ''invalid ciphertext length'')
      else Inr bs)"

text \<open>Generated key pairs; the seed a generator draws is an argument.\<close>

record MlKemKeypair =
  kem_public :: bytes
  kem_secret :: bytes

definition kem_generate :: "primitives \<Rightarrow> bytes \<Rightarrow> CryptoError + MlKemKeypair" where
  "kem_generate P seed = Inr \<lparr>kem_public = mlkem_ek_of P seed, kem_secret = seed\<rparr>"

record X25519Keypair =
  x_public :: bytes
  x_secret :: bytes

definition x25519_generate :: "primitives \<Rightarrow> bytes \<Rightarrow> X25519Keypair" where
  "x25519_generate P seed = \<lparr>x_public = x25519_pk_of P seed, x_secret = seed\<rparr>"

definition encapsulate :: "primitives \<Rightarrow> bytes \<Rightarrow> bytes \<Rightarrow> CryptoError + (bytes \<times> bytes)" where
  "encapsulate P pk rnd = (let (ct, ss) = mlkem_encaps P pk rnd in Inr (ss, ct))"

definition decapsulate :: "primitives \<Rightarrow> bytes \<Rightarrow> bytes \<Rightarrow> CryptoError + bytes" where
  "decapsulate P sk ct = Inr (mlkem_decaps P sk ct)"

definition dsa_public_from_bytes :: "bytes \<Rightarrow> CryptoError + bytes" where
  "dsa_public_from_bytes bs =
     (if length bs \<noteq> ML_DSA_65_PUBLIC_KEY_BYTES then Inl (Signature ''invalid dsa key length'')
      else Inr bs)"

definition dsa_signature_from_bytes :: "primitives \<Rightarrow> bytes \<Rightarrow> CryptoError + bytes" where
  "dsa_signature_from_bytes P bs =
     (if length bs \<noteq> ML_DSA_65_SIGNATURE_BYTES then Inl (Signature ''invalid signature length'')
      else if mldsa_sig_ok P bs then Inr bs else Inl (Signature ''signature decode failed''))"

definition dsa_sign :: "primitives \<Rightarrow> bytes \<Rightarrow> bytes \<Rightarrow> CryptoError + bytes" where
  "dsa_sign P seed msg = Inr (mldsa_sign P seed msg)"

definition dsa_verify :: "primitives \<Rightarrow> bytes \<Rightarrow> bytes \<Rightarrow> bytes \<Rightarrow> CryptoError + bool" where
  "dsa_verify P pk msg sig = (if mldsa_verify P pk msg sig then Inr True else Inr False)"

definition diffie_hellman :: "primitives \<Rightarrow> bytes \<Rightarrow> bytes \<Rightarrow> bytes option" where
  "diffie_hellman P secret other =
     (if \<not> x25519_contributory P secret other then None else Some (x25519_dh P secret other))"

text \<open>A \<open>Transcript\<close> is the bytes absorbed so far; the streaming hash is the hash of their
  concatenation.\<close>

record Transcript =
  tr_absorbed :: bytes

definition transcript_new :: Transcript where
  "transcript_new = \<lparr>tr_absorbed = []\<rparr>"

definition transcript_update :: "bytes \<Rightarrow> Transcript \<Rightarrow> Transcript" where
  "transcript_update data t = t\<lparr>tr_absorbed := tr_absorbed t @ data\<rparr>"

definition transcript_new_with_initial :: "bytes \<Rightarrow> Transcript" where
  "transcript_new_with_initial data = transcript_update data transcript_new"

definition transcript_into_bytes :: "primitives \<Rightarrow> Transcript \<Rightarrow> bytes" where
  "transcript_into_bytes P t = sha256_digest P (tr_absorbed t)"

definition transcript_challenge :: "primitives \<Rightarrow> Transcript \<Rightarrow> bytes" where
  "transcript_challenge P t = sha256_digest P (tr_absorbed t)"

definition sha256 :: "primitives \<Rightarrow> bytes \<Rightarrow> bytes" where
  "sha256 P data = sha256_digest P data"

definition kem_correct :: "primitives \<Rightarrow> bool" where
  "kem_correct P \<longleftrightarrow>
     (\<forall>dk rnd. length dk = 64 \<longrightarrow> length rnd = 32 \<longrightarrow>
        length (mlkem_ek_of P dk) = 1184 \<and> mlkem_ek_ok P (mlkem_ek_of P dk) \<and>
        (\<exists>ct ss. mlkem_encaps P (mlkem_ek_of P dk) rnd = (ct, ss) \<and>
           length ct = 1088 \<and> length ss = 32 \<and> mlkem_decaps P dk ct = ss))"

definition dsa_correct :: "primitives \<Rightarrow> bool" where
  "dsa_correct P \<longleftrightarrow>
     (\<forall>seed msg. length seed = 32 \<longrightarrow>
        length (mldsa_vk_of P seed) = 1952 \<and> length (mldsa_sign P seed msg) = 3309 \<and>
        mldsa_sig_ok P (mldsa_sign P seed msg) \<and>
        mldsa_verify P (mldsa_vk_of P seed) msg (mldsa_sign P seed msg))"

definition x25519_correct :: "primitives \<Rightarrow> bool" where
  "x25519_correct P \<longleftrightarrow>
     (\<forall>a b. length a = 32 \<longrightarrow> length b = 32 \<longrightarrow>
        length (x25519_pk_of P a) = 32 \<and> length (x25519_dh P a (x25519_pk_of P b)) = 32 \<and>
        x25519_contributory P a (x25519_pk_of P b) \<and>
        x25519_dh P a (x25519_pk_of P b) = x25519_dh P b (x25519_pk_of P a))"

definition hash_sized :: "primitives \<Rightarrow> bool" where
  "hash_sized P \<longleftrightarrow>
     (\<forall>m. length (sha256_digest P m) = 32) \<and> (\<forall>k m. length (hmac_sha256 P k m) = 32)"

text \<open>FIPS 203: encapsulation to any key that passes the key check yields a ciphertext of the fixed size.\<close>

definition kem_sized :: "primitives \<Rightarrow> bool" where
  "kem_sized P \<longleftrightarrow>
     (\<forall>ek rnd. length ek = 1184 \<longrightarrow> mlkem_ek_ok P ek \<longrightarrow> length rnd = 32 \<longrightarrow>
        length (fst (mlkem_encaps P ek rnd)) = 1088)"

text \<open>Everything the library of primitives promises.\<close>

definition primitives_ok :: "primitives \<Rightarrow> bool" where
  "primitives_ok P \<longleftrightarrow> aead_correct P \<and> hkdf_correct P \<and> kem_correct P \<and> kem_sized P \<and> dsa_correct P \<and>
     x25519_correct P \<and> hash_sized P"

text \<open>Absorbing in pieces hashes the concatenation: the transcript API and the one-shot
  \<open>sha256\<close> agree.\<close>

lemma transcript_pieces:
  "transcript_challenge P (fold transcript_update parts transcript_new) = sha256 P (concat parts)"
proof -
  have "tr_absorbed (fold transcript_update parts t) = tr_absorbed t @ concat parts" for t
    by (induction parts arbitrary: t) (simp_all add: transcript_update_def)
  then show ?thesis by (simp add: transcript_challenge_def sha256_def transcript_new_def)
qed

section \<open>A concrete instance\<close>

text \<open>Keyed but insecure primitives that satisfy every predicate above; witnesses instantiate
  the parameter with it, which shows the hypotheses can hold together.\<close>

definition pad_to :: "nat \<Rightarrow> bytes \<Rightarrow> bytes" where
  "pad_to n bs = take n (bs @ replicate n 0)"

definition demo_open :: "bytes \<Rightarrow> bytes \<Rightarrow> bytes \<Rightarrow> bytes \<Rightarrow> string + bytes" where
  "demo_open k n c a =
     (if length n = 12 \<and> length k = 32 \<and> 16 \<le> length c \<and>
         drop (length c - 16) c = n @ take 4 k
      then Inr (take (length c - 16) c) else Inl ''aead::Error'')"

definition demo :: primitives where
  "demo = \<lparr>
     chacha_key_error = ''Invalid Length'',
     chacha_encrypt = (\<lambda>k n m a. Inr (m @ n @ take 4 k)),
     chacha_decrypt = demo_open,
     hkdf_expand = (\<lambda>salt ikm info n. if n \<le> 8160 then Inr (pad_to n info) else Inl ''too large''),
     hmac_sha256 = (\<lambda>k m. pad_to 32 (m @ k)),
     sha256_digest = (\<lambda>m. pad_to 32 m),
     mlkem_ek_of = (\<lambda>dk. pad_to 1184 dk),
     mlkem_ek_ok = (\<lambda>ek. True),
     mlkem_ek_error = (\<lambda>ek. ''InvalidKey''),
     mlkem_encaps = (\<lambda>ek rnd. (pad_to 1088 rnd, rnd)),
     mlkem_decaps = (\<lambda>dk ct. take 32 ct),
     mldsa_vk_of = (\<lambda>seed. pad_to 1952 seed),
     mldsa_sign = (\<lambda>seed msg. pad_to 3309 (seed @ msg)),
     mldsa_sig_ok = (\<lambda>sig. True),
     mldsa_verify = (\<lambda>vk msg sig. sig = pad_to 3309 (take 32 vk @ msg)),
     x25519_pk_of = (\<lambda>sk. sk),
     x25519_dh = (\<lambda>sk pk. map2 (XOR) sk pk),
     x25519_contributory = (\<lambda>sk pk. True)\<rparr>"

lemma length_pad_to [simp]: "length (pad_to n bs) = n"
  by (simp add: pad_to_def)

lemma take_pad_to: "length bs = k \<Longrightarrow> k \<le> n \<Longrightarrow> take k (pad_to n bs) = bs"
  by (simp add: pad_to_def)

lemma demo_aead: "aead_correct demo"
proof -
  have "c = m @ n @ take 4 k" if "demo_open k n c a = Inr m" for k n c a m
    using that by (auto simp: demo_open_def split: if_splits)
      (metis append_take_drop_id)
  then show ?thesis by (auto simp: aead_correct_def demo_def demo_open_def)
qed

lemma demo_hkdf: "hkdf_correct demo"
  by (simp add: hkdf_correct_def demo_def)

lemma demo_kem: "kem_correct demo"
  by (simp add: kem_correct_def demo_def take_pad_to)

lemma demo_dsa: "dsa_correct demo"
  by (simp add: dsa_correct_def demo_def take_pad_to)

lemma demo_x25519: "x25519_correct demo"
proof -
  have "map2 (XOR) a b = map2 (XOR) b a" for a b :: bytes
    by (rule nth_equalityI) (simp_all add: xor.commute)
  then show ?thesis by (simp add: x25519_correct_def demo_def)
qed

lemma demo_hash: "hash_sized demo"
  by (simp add: hash_sized_def demo_def)

lemma demo_ok: "primitives_ok demo"
  by (simp add: primitives_ok_def demo_aead demo_hkdf demo_kem demo_dsa demo_x25519 demo_hash)
    (simp add: kem_sized_def demo_def)

lemmas demo_correct = demo_aead demo_hkdf demo_kem demo_dsa demo_x25519 demo_hash

end
