(* ===== verification/Codec.thy ===== *)
theory Codec
  imports Crypto
begin

text \<open>
  The fixed-size wire layout of \<open>pq-tunnel-core/src/codec.rs\<close> and its errors (\<open>error.rs\<close>):
  the clear-text header (the AEAD's associated data), the inner plaintext the AEAD protects,
  and the 1280-byte packet that holds both. The encoders write into zeroed buffers at fixed
  offsets as the code does; the lemmas show the concatenation they amount to, and both formats
  are interpretations of \<open>fixed_codec\<close>.
\<close>

section \<open>Errors\<close>

datatype CodecError =
    Truncated string nat nat
  | WrongLength string nat nat
  | InvalidVersion byte byte
  | InvalidMessageType byte
  | InvalidDirection byte
  | NonceExhausted u64
  | RekeyRejected string
  | DecryptionFailed
  | Rejected
  | CodecCrypto CryptoError

section \<open>Layout constants\<close>

definition PROTOCOL_VERSION :: byte where "PROTOCOL_VERSION = 2"
definition VERSION_LEN :: nat where [layout_simps]: "VERSION_LEN = 1"
definition PACKET_SIZE :: nat where [layout_simps]: "PACKET_SIZE = 1280"
definition SESSION_ID_LEN :: nat where [layout_simps]: "SESSION_ID_LEN = 8"
definition PACKET_NONCE_LEN :: nat where [layout_simps]: "PACKET_NONCE_LEN = 8"
definition AEAD_TAG_LEN :: nat where [layout_simps]: "AEAD_TAG_LEN = 16"
definition AEAD_NONCE_LEN :: nat where [layout_simps]: "AEAD_NONCE_LEN = 12"
definition HEADER_LEN :: nat where
  [layout_simps]: "HEADER_LEN = VERSION_LEN + SESSION_ID_LEN + PACKET_NONCE_LEN"
definition INNER_PLAINTEXT_LEN :: nat where
  [layout_simps]: "INNER_PLAINTEXT_LEN = PACKET_SIZE - HEADER_LEN - AEAD_TAG_LEN"
definition PAYLOAD_LEN :: nat where
  [layout_simps]: "PAYLOAD_LEN = INNER_PLAINTEXT_LEN - 2"

definition MAX_PACKET_NONCE :: u64 where
  "MAX_PACKET_NONCE = (- 1) - push_bit 32 1"

definition is_counter_exhausted :: "u64 \<Rightarrow> bool" where
  "is_counter_exhausted counter = (MAX_PACKET_NONCE \<le> counter)"

text \<open>The compile-time assertions of the source.\<close>

lemma layout_partition: "HEADER_LEN + INNER_PLAINTEXT_LEN + AEAD_TAG_LEN = PACKET_SIZE"
  by (simp add: layout_simps)

lemma nonce_partition: "AEAD_NONCE_LEN = PACKET_NONCE_LEN + 4"
  by (simp add: layout_simps)

lemma layout_values:
  "HEADER_LEN = 17" "INNER_PLAINTEXT_LEN = 1247" "PAYLOAD_LEN = 1245" "PACKET_SIZE = 1280"
  by (simp_all add: layout_simps)

lemma unat_MAX_PACKET_NONCE: "unat MAX_PACKET_NONCE = 2 ^ 64 - 1 - 2 ^ 32"
  by (simp add: MAX_PACKET_NONCE_def push_bit_eq_mult)

section \<open>Message type and direction\<close>

datatype MessageType = Handshake | Data | Cover | Close | TunData

fun message_type_from_u8 :: "byte \<Rightarrow> CodecError + MessageType" where
  "message_type_from_u8 v =
     (if v = 0 then Inr Handshake
      else if v = 1 then Inr Data
      else if v = 2 then Inr Cover
      else if v = 3 then Inr Close
      else if v = 4 then Inr TunData
      else Inl (InvalidMessageType v))"

fun message_type_as_u8 :: "MessageType \<Rightarrow> byte" where
  "message_type_as_u8 Handshake = 0"
| "message_type_as_u8 Data = 1"
| "message_type_as_u8 Cover = 2"
| "message_type_as_u8 Close = 3"
| "message_type_as_u8 TunData = 4"

datatype Direction = ClientToServer | ServerToClient

fun direction_from_u8 :: "byte \<Rightarrow> CodecError + Direction" where
  "direction_from_u8 v =
     (if v = 0 then Inr ClientToServer
      else if v = 1 then Inr ServerToClient
      else Inl (InvalidDirection v))"

fun direction_as_u8 :: "Direction \<Rightarrow> byte" where
  "direction_as_u8 ClientToServer = 0"
| "direction_as_u8 ServerToClient = 1"

lemma message_type_roundtrip [simp]: "message_type_from_u8 (message_type_as_u8 t) = Inr t"
  by (cases t) simp_all

lemma message_type_sound: "message_type_from_u8 v = Inr t \<Longrightarrow> message_type_as_u8 t = v"
  by (auto split: if_splits)

lemma direction_roundtrip [simp]: "direction_from_u8 (direction_as_u8 d) = Inr d"
  by (cases d) simp_all

lemma direction_sound: "direction_from_u8 v = Inr d \<Longrightarrow> direction_as_u8 d = v"
  by (auto split: if_splits)

declare message_type_from_u8.simps [simp del] and direction_from_u8.simps [simp del]

fun message_type_display :: "MessageType \<Rightarrow> string" where
  "message_type_display Handshake = ''handshake''"
| "message_type_display Data = ''data''"
| "message_type_display Cover = ''cover''"
| "message_type_display Close = ''close''"
| "message_type_display TunData = ''tun-data''"

fun direction_display :: "Direction \<Rightarrow> string" where
  "direction_display ClientToServer = ''client-to-server''"
| "direction_display ServerToClient = ''server-to-client''"

section \<open>Clear-text header\<close>

record PacketHeader =
  ph_version :: byte
  ph_session_id :: bytes
  ph_packet_nonce :: u64

definition header_new :: "bytes \<Rightarrow> u64 \<Rightarrow> PacketHeader" where
  "header_new sid nonce =
     \<lparr>ph_version = PROTOCOL_VERSION, ph_session_id = sid, ph_packet_nonce = nonce\<rparr>"

definition header_encode :: "PacketHeader \<Rightarrow> bytes" where
  "header_encode h =
     (let out = replicate HEADER_LEN 0;
          out = out[0 := ph_version h];
          out = copy_at 1 (ph_session_id h) out
      in copy_at (1 + SESSION_ID_LEN) (to_be 8 (ph_packet_nonce h)) out)"

definition header_decode :: "bytes \<Rightarrow> CodecError + PacketHeader" where
  "header_decode data =
     (if length data < HEADER_LEN then Inl (Truncated ''PacketHeader'' HEADER_LEN (length data))
      else let version = data ! 0 in
        if version \<noteq> PROTOCOL_VERSION then Inl (InvalidVersion PROTOCOL_VERSION version)
        else Inr \<lparr>ph_version = version,
                  ph_session_id = slice 1 (1 + SESSION_ID_LEN) data,
                  ph_packet_nonce = from_be (slice (1 + SESSION_ID_LEN)
                     (1 + SESSION_ID_LEN + PACKET_NONCE_LEN) data)\<rparr>)"

definition header_wf :: "PacketHeader \<Rightarrow> bool" where
  "header_wf h = (ph_version h = PROTOCOL_VERSION \<and> length (ph_session_id h) = SESSION_ID_LEN)"

lemma replicate_front: "0 < n \<Longrightarrow> replicate n x = x # replicate (n - 1) x"
  by (cases n) simp_all

lemma zeros_17: "replicate 17 (0 :: byte) = 0 # replicate 16 0"
  using replicate_front [of 17 "0 :: byte"] by simp

lemma header_encode_eq:
  "length (ph_session_id h) = 8 \<Longrightarrow>
   header_encode h = ph_version h # ph_session_id h @ to_be 8 (ph_packet_nonce h)"
  by (simp add: header_encode_def copy_at_def layout_simps Let_def zeros_17)

lemma header_decode_encode: "header_wf h \<Longrightarrow> header_decode (header_encode h) = Inr h"
  by (simp add: header_wf_def header_decode_def header_encode_eq layout_simps slice_def Let_def)

lemma header_decode_sound:
  assumes "header_decode bs = Inr h"
  shows "header_wf h \<and> HEADER_LEN \<le> length bs \<and> header_encode h = take HEADER_LEN bs"
proof -
  from assms have len: "17 \<le> length bs"
    and h: "h = \<lparr>ph_version = bs ! 0, ph_session_id = slice 1 9 bs,
                 ph_packet_nonce = from_be (slice 9 17 bs)\<rparr>"
    and v: "bs ! 0 = PROTOCOL_VERSION"
    by (auto simp: header_decode_def layout_simps Let_def split: if_splits)
  have "take 17 bs = take 1 bs @ slice 1 9 bs @ slice 9 17 bs"
    using len by (simp add: take_slice_split [of 1 17] slice_split)
  moreover have "take 1 bs = [bs ! 0]"
    using len by (cases bs) auto
  ultimately show ?thesis
    using len v by (simp add: h header_wf_def header_encode_eq layout_simps to_be_u64)
qed

interpretation header: fixed_codec header_encode header_decode header_wf HEADER_LEN
proof
  show "length (header_encode h) = HEADER_LEN" if "header_wf h" for h
    using that by (simp add: header_wf_def header_encode_eq layout_simps)
qed (use header_decode_encode header_decode_sound in blast)+

section \<open>Inner plaintext\<close>

record InnerPlaintext =
  ip_msg_type :: MessageType
  ip_direction :: Direction
  ip_payload :: bytes

definition inner_new :: "MessageType \<Rightarrow> Direction \<Rightarrow> bytes \<Rightarrow> CodecError + InnerPlaintext" where
  "inner_new mt dir payload =
     (if length payload \<noteq> PAYLOAD_LEN
      then Inl (WrongLength ''payload'' PAYLOAD_LEN (length payload))
      else Inr \<lparr>ip_msg_type = mt, ip_direction = dir, ip_payload = payload\<rparr>)"

definition inner_encode :: "InnerPlaintext \<Rightarrow> bytes" where
  "inner_encode p =
     (let out = replicate INNER_PLAINTEXT_LEN 0;
          out = out[0 := message_type_as_u8 (ip_msg_type p)];
          out = out[1 := direction_as_u8 (ip_direction p)]
      in copy_at 2 (ip_payload p) out)"

definition inner_decode :: "bytes \<Rightarrow> CodecError + InnerPlaintext" where
  "inner_decode data =
     (if length data \<noteq> INNER_PLAINTEXT_LEN
      then Inl (Truncated ''InnerPlaintext'' INNER_PLAINTEXT_LEN (length data))
      else case message_type_from_u8 (data ! 0) of
        Inl e \<Rightarrow> Inl e
      | Inr mt \<Rightarrow> (case direction_from_u8 (data ! 1) of
          Inl e \<Rightarrow> Inl e
        | Inr dir \<Rightarrow> Inr \<lparr>ip_msg_type = mt, ip_direction = dir,
                         ip_payload = slice 2 (2 + PAYLOAD_LEN) data\<rparr>))"

definition inner_cover :: "Direction \<Rightarrow> byte \<Rightarrow> InnerPlaintext" where
  "inner_cover dir fill =
     \<lparr>ip_msg_type = Cover, ip_direction = dir, ip_payload = replicate PAYLOAD_LEN fill\<rparr>"

definition inner_data :: "Direction \<Rightarrow> bytes \<Rightarrow> CodecError + InnerPlaintext" where
  "inner_data dir payload = inner_new Data dir payload"

definition inner_wf :: "InnerPlaintext \<Rightarrow> bool" where
  "inner_wf p = (length (ip_payload p) = PAYLOAD_LEN)"

lemma inner_new_ok:
  "inner_new mt dir payload = Inr p \<longleftrightarrow>
     length payload = PAYLOAD_LEN \<and> p = \<lparr>ip_msg_type = mt, ip_direction = dir, ip_payload = payload\<rparr>"
  by (auto simp: inner_new_def)

lemma zeros_1247: "replicate 1247 (0 :: byte) = 0 # 0 # replicate 1245 0"
  using replicate_front [of 1247 "0 :: byte"] replicate_front [of 1246 "0 :: byte"] by simp

lemma inner_encode_eq:
  "inner_wf p \<Longrightarrow> inner_encode p =
    message_type_as_u8 (ip_msg_type p) # direction_as_u8 (ip_direction p) # ip_payload p"
  by (simp add: inner_encode_def zeros_1247 Let_def copy_at_def inner_wf_def layout_values)

lemma inner_decode_encode: "inner_wf p \<Longrightarrow> inner_decode (inner_encode p) = Inr p"
  by (simp add: inner_decode_def inner_encode_eq slice_def inner_wf_def layout_values)

lemma inner_decode_sound:
  assumes "inner_decode bs = Inr p"
  shows "inner_wf p \<and> length bs = INNER_PLAINTEXT_LEN \<and> inner_encode p = bs"
proof -
  from assms have len: "length bs = 1247"
    and mt: "message_type_from_u8 (bs ! 0) = Inr (ip_msg_type p)"
    and dir: "direction_from_u8 (bs ! 1) = Inr (ip_direction p)"
    and pay: "ip_payload p = slice 2 1247 bs"
    by (auto simp: inner_decode_def layout_values split: if_splits sum.splits)
  then have wf: "inner_wf p" by (simp add: inner_wf_def layout_values)
  obtain a b r where bs: "bs = a # b # r" using len
    by (cases bs; cases "tl bs") auto
  have "slice 2 1247 bs = r" using bs len by (simp add: slice_def)
  with wf len bs pay show ?thesis
    using message_type_sound [OF mt] direction_sound [OF dir]
    by (simp add: inner_encode_eq layout_values)
qed

interpretation inner: fixed_codec inner_encode inner_decode inner_wf INNER_PLAINTEXT_LEN
proof
  show "length (inner_encode p) = INNER_PLAINTEXT_LEN" if "inner_wf p" for p
    using that by (simp add: inner_encode_eq inner_wf_def layout_values)
qed (auto simp: inner_decode_encode dest: inner_decode_sound)

section \<open>The packet\<close>

text \<open>\<open>WirePacket([u8; PACKET_SIZE])\<close>.\<close>

datatype WirePacket = WirePacket (as_bytes: bytes)

definition packet_wf :: "WirePacket \<Rightarrow> bool" where
  "packet_wf pkt = (length (as_bytes pkt) = PACKET_SIZE)"

definition packet_zeroed :: WirePacket where
  "packet_zeroed = WirePacket (replicate PACKET_SIZE 0)"

definition packet_from_bytes :: "bytes \<Rightarrow> CodecError + WirePacket" where
  "packet_from_bytes data =
     (if length data \<noteq> PACKET_SIZE then Inl (Truncated ''WirePacket'' PACKET_SIZE (length data))
      else Inr (WirePacket data))"

definition header_bytes :: "WirePacket \<Rightarrow> bytes" where
  "header_bytes pkt = slice 0 HEADER_LEN (as_bytes pkt)"

definition packet_ciphertext :: "WirePacket \<Rightarrow> bytes" where
  "packet_ciphertext pkt = slice HEADER_LEN (HEADER_LEN + INNER_PLAINTEXT_LEN) (as_bytes pkt)"

definition packet_tag :: "WirePacket \<Rightarrow> bytes" where
  "packet_tag pkt = drop (HEADER_LEN + INNER_PLAINTEXT_LEN) (as_bytes pkt)"

definition packet_aad :: "WirePacket \<Rightarrow> bytes" where
  "packet_aad pkt = header_bytes pkt"

definition parse_header :: "WirePacket \<Rightarrow> CodecError + PacketHeader" where
  "parse_header pkt = header_decode (slice 0 HEADER_LEN (as_bytes pkt))"

definition aead_region :: "WirePacket \<Rightarrow> bytes" where
  "aead_region pkt = drop HEADER_LEN (as_bytes pkt)"

definition from_parts :: "bytes \<Rightarrow> bytes \<Rightarrow> CodecError + WirePacket" where
  "from_parts header region =
     (if header ! 0 \<noteq> PROTOCOL_VERSION then Inl (InvalidVersion PROTOCOL_VERSION (header ! 0))
      else if length region \<noteq> PACKET_SIZE - HEADER_LEN
      then Inl (Truncated ''aead_region'' (PACKET_SIZE - HEADER_LEN) (length region))
      else let buf = replicate PACKET_SIZE 0; buf = copy_at 0 header buf
           in Inr (WirePacket (copy_at HEADER_LEN region buf)))"

lemma from_parts_ok:
  assumes "length hdr = HEADER_LEN" and "from_parts hdr region = Inr pkt"
  shows "as_bytes pkt = hdr @ region \<and> packet_wf pkt"
proof -
  have "length region = 1263" "pkt = WirePacket (copy_at 17 region (copy_at 0 hdr (replicate 1280 0)))"
    using assms by (auto simp: from_parts_def layout_values Let_def split: if_splits)
  with assms(1) show ?thesis by (simp add: copy_at_def packet_wf_def layout_values)
qed

lemma from_parts_header:
  assumes "header_wf h" and "length region = PACKET_SIZE - HEADER_LEN"
  shows "from_parts (header_encode h) region = Inr (WirePacket (header_encode h @ region))"
proof -
  have len: "length (header_encode h) = HEADER_LEN" using assms(1) by (rule header.enc_length)
  have v: "header_encode h ! 0 = PROTOCOL_VERSION"
    using assms(1) by (simp add: header_wf_def header_encode_eq layout_simps)
  then obtain pkt where pkt: "from_parts (header_encode h) region = Inr pkt"
    using assms(2) by (auto simp: from_parts_def Let_def)
  then show ?thesis using from_parts_ok [OF len pkt] by (metis WirePacket.collapse)
qed

lemma packet_regions:
  "packet_wf pkt \<Longrightarrow> header_bytes pkt @ packet_ciphertext pkt @ packet_tag pkt = as_bytes pkt \<and>
     length (header_bytes pkt) = HEADER_LEN \<and> length (packet_ciphertext pkt) = INNER_PLAINTEXT_LEN \<and>
     length (packet_tag pkt) = AEAD_TAG_LEN \<and> aead_region pkt = packet_ciphertext pkt @ packet_tag pkt"
proof -
  assume wf: "packet_wf pkt"
  have "packet_ciphertext pkt @ packet_tag pkt = drop 17 (as_bytes pkt)"
    using append_take_drop_id [of 1247 "drop 17 (as_bytes pkt)"]
    by (simp add: packet_ciphertext_def packet_tag_def slice_def layout_values)
  with wf show ?thesis
    by (simp add: header_bytes_def aead_region_def packet_ciphertext_def packet_tag_def packet_wf_def
        slice_zero layout_values AEAD_TAG_LEN_def)
qed

lemma parse_header_parts:
  "header_wf h \<Longrightarrow> parse_header (WirePacket (header_encode h @ region)) = Inr h"
  "header_wf h \<Longrightarrow> packet_aad (WirePacket (header_encode h @ region)) = header_encode h"
  "header_wf h \<Longrightarrow> aead_region (WirePacket (header_encode h @ region)) = region"
  by (simp_all add: parse_header_def packet_aad_def header_bytes_def aead_region_def slice_zero
      header.enc_length header_decode_encode)

section \<open>Properties\<close>

text \<open>A header decodes exactly when it is the canonical encoding of a well-formed header,
  whatever follows it: decoding inverts encoding and no second byte string decodes to the same
  header.\<close>

lemma header_decode_exact:
  "header_decode bs = Inr h \<longleftrightarrow> header_wf h \<and> (\<exists>rest. bs = header_encode h @ rest)"
proof
  assume "header_decode bs = Inr h"
  from header_decode_sound [OF this]
  show "header_wf h \<and> (\<exists>rest. bs = header_encode h @ rest)"
    using append_take_drop_id [of HEADER_LEN bs] by metis
next
  assume "header_wf h \<and> (\<exists>rest. bs = header_encode h @ rest)"
  then obtain rest where h: "header_wf h" and bs: "bs = header_encode h @ rest" by blast
  have "header_encode h = ph_version h # ph_session_id h @ to_be 8 (ph_packet_nonce h)"
    using h by (simp add: header_encode_eq header_wf_def layout_simps)
  then show "header_decode bs = Inr h"
    using h by (simp add: bs header_wf_def header_decode_def layout_simps slice_def Let_def)
qed

text \<open>An inner plaintext decodes exactly when it is the 1247-byte encoding of a message type, a
  direction and a full payload.\<close>

lemma inner_decode_exact: "inner_decode bs = Inr p \<longleftrightarrow> inner_wf p \<and> bs = inner_encode p"
  using inner_decode_sound inner_decode_encode by blast

end
