(* ===== verification/Replay.thy ===== *)
theory Replay
  imports Codec
begin

text \<open>
  The sliding replay window of \<open>pq-tunnel-core/src/replay.rs\<close>: 1024 bits in sixteen 64-bit
  words, shifted in place. The window refines an abstract guard that remembers every counter
  ever accepted (\<open>window_rel\<close>, \<open>accept_spec\<close>); the interface \<open>antireplay\<close> turns that into
  "no key is accepted twice over any sequence of inputs" for every component that provides it.
\<close>

section \<open>The interface\<close>

fun accepted :: "('i \<Rightarrow> 's \<Rightarrow> ('e + 'a) \<times> 's) \<Rightarrow> 'i list \<Rightarrow> 's \<Rightarrow> 'i list" where
  "accepted step [] s = []"
| "accepted step (i # is) s =
     (case step i s of (Inl _, s1) \<Rightarrow> accepted step is s1 | (Inr _, s1) \<Rightarrow> i # accepted step is s1)"

locale antireplay =
  fixes step :: "'i \<Rightarrow> 's \<Rightarrow> ('e + 'a) \<times> 's"
    and key :: "'i \<Rightarrow> 'k"
    and rel :: "'s \<Rightarrow> 'k set \<Rightarrow> bool"
  assumes ok_fresh: "rel s A \<Longrightarrow> step i s = (Inr a, s1) \<Longrightarrow>
      key i \<notin> A \<and> (\<exists>B. insert (key i) A \<subseteq> B \<and> rel s1 B)"
    and err_keeps: "rel s A \<Longrightarrow> step i s = (Inl e, s1) \<Longrightarrow> \<exists>B. A \<subseteq> B \<and> rel s1 B"
begin

lemma accepted_fresh:
  "rel s A \<Longrightarrow> distinct (map key (accepted step is s)) \<and> set (map key (accepted step is s)) \<inter> A = {}"
proof (induction "is" arbitrary: s A)
  case Nil
  then show ?case by simp
next
  case (Cons i "is")
  obtain r s1 where st: "step i s = (r, s1)" by fastforce
  show ?case
  proof (cases r)
    case (Inl e)
    then obtain B where B: "A \<subseteq> B" "rel s1 B"
      using err_keeps [OF Cons.prems, of i e s1] st by auto
    have "accepted step (i # is) s = accepted step is s1" using Inl st by simp
    with Cons.IH [OF B(2)] B(1) show ?thesis by auto
  next
    case (Inr a)
    then obtain B where B: "key i \<notin> A" "insert (key i) A \<subseteq> B" "rel s1 B"
      using ok_fresh [OF Cons.prems, of i a s1] st by auto
    have "accepted step (i # is) s = i # accepted step is s1" using Inr st by simp
    with Cons.IH [OF B(3)] B(1,2) show ?thesis by auto
  qed
qed

lemma run_rel: "rel s A \<Longrightarrow> \<exists>B. A \<subseteq> B \<and> rel (snd (run step is s)) B"
proof (induction "is" arbitrary: s A)
  case Nil
  then show ?case by auto
next
  case (Cons i "is")
  obtain r s1 where st: "step i s = (r, s1)" by fastforce
  have "\<exists>B. A \<subseteq> B \<and> rel s1 B"
  proof (cases r)
    case (Inl e)
    then show ?thesis using err_keeps [OF Cons.prems] st by auto
  next
    case (Inr a)
    then show ?thesis using ok_fresh [OF Cons.prems, of i a s1] st by auto
  qed
  then obtain B where B: "A \<subseteq> B" "rel s1 B" by blast
  obtain C where "B \<subseteq> C" "rel (snd (run step is s1)) C" using Cons.IH [OF B(2)] by blast
  with B(1) st show ?case by auto
qed

end

section \<open>The window\<close>

definition WINDOW_BITS :: nat where "WINDOW_BITS = 1024"
definition WINDOW_WORDS :: nat where "WINDOW_WORDS = WINDOW_BITS div 64"

record ReplayWindow =
  rw_highest :: "u64 option"
  rw_bitmap :: "u64 list"

definition replay_new :: ReplayWindow where
  "replay_new = \<lparr>rw_highest = None, rw_bitmap = replicate WINDOW_WORDS 0\<rparr>"

definition replay_clear :: "ReplayWindow \<Rightarrow> ReplayWindow" where
  "replay_clear w = w\<lparr>rw_highest := None, rw_bitmap := replicate WINDOW_WORDS 0\<rparr>"

definition set_bit_at :: "nat \<Rightarrow> u64 list \<Rightarrow> u64 list" where
  "set_bit_at bit_index bm =
     (let word = bit_index div 64; b = bit_index mod 64
      in bm[word := (bm ! word) OR push_bit b 1])"

definition get_bit_at :: "nat \<Rightarrow> u64 list \<Rightarrow> bool" where
  "get_bit_at bit_index bm =
     (let word = bit_index div 64; b = bit_index mod 64 in (bm ! word) AND push_bit b 1 \<noteq> 0)"

definition shift_right :: "nat \<Rightarrow> u64 list \<Rightarrow> u64 list" where
  "shift_right gap bm =
     (let word_gap = gap div 64; bit_shift = gap mod 64;
          bm = (if word_gap > 0 then
                  fold (\<lambda>i bm. bm[i := 0]) [0..<word_gap]
                    (fold (\<lambda>i bm. bm[i := bm ! (i - word_gap)]) (rev [word_gap..<WINDOW_WORDS]) bm)
                else bm)
      in if bit_shift > 0 then
           let inv = 64 - bit_shift;
               bm = fold (\<lambda>i bm. bm[i := push_bit bit_shift (bm ! i) OR drop_bit inv (bm ! (i - 1))])
                      (rev [1..<WINDOW_WORDS]) bm
           in bm[0 := push_bit bit_shift (bm ! 0)]
         else bm)"

definition replay_accept :: "u64 \<Rightarrow> ReplayWindow \<Rightarrow> (CodecError + unit) \<times> ReplayWindow" where
  "replay_accept counter w =
     (case rw_highest w of
        None \<Rightarrow> (Inr (), w\<lparr>rw_highest := Some counter\<rparr>)
      | Some h \<Rightarrow>
          if counter > h then
            (let gap = unat (counter - h);
                 bm = (if gap > WINDOW_BITS then replicate WINDOW_WORDS 0
                       else if gap = WINDOW_BITS
                       then set_bit_at (WINDOW_BITS - 1) (replicate WINDOW_WORDS 0)
                       else set_bit_at (gap - 1) (shift_right gap (rw_bitmap w)))
             in (Inr (), w\<lparr>rw_bitmap := bm, rw_highest := Some counter\<rparr>))
          else if counter = h then (Inl DecryptionFailed, w)
          else let offset = unat (h - counter) in
            if offset > WINDOW_BITS then (Inl DecryptionFailed, w)
            else let bit_index = offset - 1 in
              if get_bit_at bit_index (rw_bitmap w) then (Inl DecryptionFailed, w)
              else (Inr (), w\<lparr>rw_bitmap := set_bit_at bit_index (rw_bitmap w)\<rparr>))"

section \<open>Bit-level behaviour of the bitmap\<close>

definition bm_bit :: "u64 list \<Rightarrow> nat \<Rightarrow> bool" where
  "bm_bit bm i = bit (bm ! (i div 64)) (i mod 64)"

lemma get_bit_at_eq: "get_bit_at i bm = bm_bit bm i"
  by (simp add: get_bit_at_def bm_bit_def Let_def bit_iff_and_push_bit_not_eq_0)

lemma length_set_bit_at [simp]: "length (set_bit_at i bm) = length bm"
  by (simp add: set_bit_at_def Let_def)

lemma word_index_eq: "(i :: nat) div 64 = j div 64 \<Longrightarrow> i mod 64 = j mod 64 \<Longrightarrow> i = j"
  by (rule trans [OF mult_div_mod_eq [of 64 i, symmetric]]) simp

lemma bm_bit_set_bit_at:
  assumes "i < 64 * length bm" "j < 64 * length bm"
  shows "bm_bit (set_bit_at i bm) j \<longleftrightarrow> j = i \<or> bm_bit bm j"
proof -
  have "i div 64 < length bm" "j div 64 < length bm" using assms by auto
  moreover have "j = i \<longleftrightarrow> j div 64 = i div 64 \<and> j mod 64 = i mod 64"
    using word_index_eq [of j i] by auto
  ultimately show ?thesis
    by (auto simp: bm_bit_def set_bit_at_def Let_def nth_list_update bit_simps)
qed

lemma bm_bit_zero [simp]: "i < 64 * n \<Longrightarrow> \<not> bm_bit (replicate n 0) i"
  by (simp add: bm_bit_def)

text \<open>A descending in-place loop that combines each element with the one \<open>g\<close> below it reads only
  elements it has not yet written.\<close>

lemma descending_loop:
  fixes xs :: "'a list"
  assumes "0 < g" "m \<le> length xs"
  defines "body \<equiv> \<lambda>f i (ys :: 'a list). ys[i := f (ys ! i) (ys ! (i - g))]"
  shows "length (fold (body f) (rev [g..<m]) xs) = length xs \<and>
    (\<forall>k < length xs. fold (body f) (rev [g..<m]) xs ! k =
       (if g \<le> k \<and> k < m then f (xs ! k) (xs ! (k - g)) else xs ! k))"
  using assms(2)
proof (induction m arbitrary: xs)
  case 0
  then show ?case by simp
next
  case (Suc m)
  show ?case
  proof (cases "g \<le> m")
    case False
    then show ?thesis by auto
  next
    case True
    let ?ys = "body f m xs"
    have len: "length ?ys = length xs" by (simp add: body_def)
    have unfold: "fold (body f) (rev [g..<Suc m]) xs = fold (body f) (rev [g..<m]) ?ys"
      using True by simp
    have ys: "?ys ! k = (if k = m then f (xs ! m) (xs ! (m - g)) else xs ! k)"
      if "k < length xs" for k
      using that Suc.prems by (simp add: body_def nth_list_update)
    note IH = Suc.IH [of ?ys, unfolded len, OF Suc_leD [OF Suc.prems]]
    show ?thesis unfolding unfold
    proof (intro conjI allI impI)
      show "length (fold (body f) (rev [g..<m]) ?ys) = length xs" using IH by blast
      fix k assume k: "k < length xs"
      show "fold (body f) (rev [g..<m]) ?ys ! k =
        (if g \<le> k \<and> k < Suc m then f (xs ! k) (xs ! (k - g)) else xs ! k)"
      proof (cases "g \<le> k \<and> k < m")
        case True
        then have "k - g < length xs" "k - g \<noteq> m" "k \<noteq> m" using k by linarith+
        then have "?ys ! k = xs ! k" "?ys ! (k - g) = xs ! (k - g)"
          using ys [of k] ys [of "k - g"] k by simp_all
        then show ?thesis using IH k True by simp
      next
        case False
        then have "fold (body f) (rev [g..<m]) ?ys ! k = ?ys ! k" using IH k by auto
        then show ?thesis using ys [OF k] False \<open>g \<le> m\<close> by auto
      qed
    qed
  qed
qed

lemma zero_loop:
  "length (fold (\<lambda>i bm. bm[i := 0]) [0..<m] xs) = length xs \<and>
   (\<forall>k < length xs. fold (\<lambda>i bm. bm[i := 0]) [0..<m] xs ! k = (if k < m then 0 else xs ! k))"
proof (induction m)
  case 0
  then show ?case by simp
next
  case (Suc m)
  let ?ys = "fold (\<lambda>i bm. bm[i := 0]) [0..<m] xs"
  have ys: "length ?ys = length xs" "\<And>k. k < length xs \<Longrightarrow> ?ys ! k = (if k < m then 0 else xs ! k)"
    using Suc by blast+
  have eq: "fold (\<lambda>i bm. bm[i := 0]) [0..<Suc m] xs = ?ys[m := 0]" by simp
  have "?ys[m := 0] ! k = (if k < Suc m then 0 else xs ! k)" if "k < length xs" for k
    using that ys by (cases "k = m") (simp_all add: less_Suc_eq)
  then show ?case unfolding eq using ys(1) by simp
qed

lemma WINDOW_WORDS_eq: "WINDOW_WORDS = 16"
  by (simp add: WINDOW_WORDS_def WINDOW_BITS_def)

definition word_stage :: "nat \<Rightarrow> u64 list \<Rightarrow> u64 list" where
  "word_stage g bm = fold (\<lambda>i bm. bm[i := 0]) [0..<g]
     (fold (\<lambda>i bm. bm[i := bm ! (i - g)]) (rev [g..<16]) bm)"

definition bit_stage :: "nat \<Rightarrow> u64 list \<Rightarrow> u64 list" where
  "bit_stage s bm =
     (let bm = fold (\<lambda>i bm. bm[i := push_bit s (bm ! i) OR drop_bit (64 - s) (bm ! (i - 1))])
                 (rev [1..<16]) bm
      in bm[0 := push_bit s (bm ! 0)])"

lemma shift_right_stages:
  "shift_right gap bm =
     (let bm = (if gap div 64 > 0 then word_stage (gap div 64) bm else bm)
      in if gap mod 64 > 0 then bit_stage (gap mod 64) bm else bm)"
  by (simp add: shift_right_def word_stage_def bit_stage_def WINDOW_WORDS_eq Let_def)

lemma word_stage_nth:
  assumes "length bm = 16" "0 < g"
  shows "length (word_stage g bm) = 16"
    and "k < 16 \<Longrightarrow> word_stage g bm ! k = (if k < g then 0 else bm ! (k - g))"
proof -
  let ?ys = "fold (\<lambda>i bm. bm[i := bm ! (i - g)]) (rev [g..<16]) bm"
  have ys: "length ?ys = 16" "\<And>k. k < 16 \<Longrightarrow> ?ys ! k = (if g \<le> k then bm ! (k - g) else bm ! k)"
    using descending_loop [of g 16 bm "\<lambda>_ b. b"] assms by simp_all
  show "length (word_stage g bm) = 16"
    unfolding word_stage_def using zero_loop [of g ?ys] ys(1) by simp
  show "k < 16 \<Longrightarrow> word_stage g bm ! k = (if k < g then 0 else bm ! (k - g))"
    unfolding word_stage_def using zero_loop [of g ?ys] ys by simp
qed

lemma bit_stage_nth:
  assumes "length bm = 16"
  shows "length (bit_stage s bm) = 16"
    and "k < 16 \<Longrightarrow> bit_stage s bm ! k =
      (if k = 0 then push_bit s (bm ! 0)
       else push_bit s (bm ! k) OR drop_bit (64 - s) (bm ! (k - 1)))"
  using descending_loop [of 1 16 bm "\<lambda>a b. push_bit s a OR drop_bit (64 - s) b"] assms
  unfolding bit_stage_def by (simp_all add: Let_def nth_list_update)

lemma word_stage_bit:
  assumes "length bm = 16" "0 < g" "i < 1024"
  shows "bm_bit (word_stage g bm) i \<longleftrightarrow> 64 * g \<le> i \<and> bm_bit bm (i - 64 * g)"
proof -
  have "i div 64 < 16" using assms(3) by auto
  moreover have "i div 64 < g \<longleftrightarrow> \<not> 64 * g \<le> i" by auto
  moreover have "(i - 64 * g) div 64 = i div 64 - g" "64 * g \<le> i \<Longrightarrow> (i - 64 * g) mod 64 = i mod 64"
    by (auto simp: mod_diff_right_eq le_iff_add)
  ultimately show ?thesis
    using word_stage_nth [OF assms(1,2)] by (auto simp: bm_bit_def)
qed

lemma bit_stage_bit:
  assumes "length bm = 16" "0 < s" "s < 64" "i < 1024"
  shows "bm_bit (bit_stage s bm) i \<longleftrightarrow> s \<le> i \<and> bm_bit bm (i - s)"
proof -
  define k b where "k = i div 64" and "b = i mod 64"
  have i: "i = 64 * k + b" and b: "b < 64" and k: "k < 16"
    using assms(4) by (auto simp: k_def b_def)
  have nth: "bit_stage s bm ! k = (if k = 0 then push_bit s (bm ! 0)
       else push_bit s (bm ! k) OR drop_bit (64 - s) (bm ! (k - 1)))"
    by (rule bit_stage_nth(2) [OF assms(1) k])
  have lhs: "bm_bit (bit_stage s bm) i = bit (bit_stage s bm ! k) b"
    by (simp add: bm_bit_def k_def b_def)
  show ?thesis
  proof (cases "s \<le> b")
    case True
    then have "i - s = 64 * k + (b - s)" using i by simp
    then have "(i - s) div 64 = k" "(i - s) mod 64 = b - s" using b by simp_all
    moreover have "\<not> bit w (64 - s + b)" for w :: u64
      using True bit_imp_le_length [of w "64 - s + b"] assms(3) by auto
    ultimately show ?thesis
      using True b i unfolding lhs nth by (auto simp: bm_bit_def bit_simps)
  next
    case False
    have "(i - s) div 64 = k - 1 \<and> (i - s) mod 64 = 64 - s + b" if "0 < k"
    proof -
      have "i - s = 64 * (k - 1) + (64 - s + b)" using i that assms(3) by (cases k) simp_all
      moreover have "64 - s + b < 64" using False assms(2,3) by linarith
      ultimately show ?thesis by simp
    qed
    moreover have "s \<le> i \<longleftrightarrow> 0 < k"
    proof
      show "0 < k" if "s \<le> i" using that False i by (cases "k = 0") simp_all
      show "s \<le> i" if "0 < k" using that i assms(3) by (cases k) simp_all
    qed
    ultimately show ?thesis
      using False b unfolding lhs nth by (cases "k = 0") (simp_all add: bm_bit_def bit_simps)
  qed
qed

lemma shift_right_bit:
  assumes "length bm = 16" "gap < 1024" "i < 1024"
  shows "bm_bit (shift_right gap bm) i \<longleftrightarrow> gap \<le> i \<and> bm_bit bm (i - gap)"
    and "length (shift_right gap bm) = 16"
proof -
  define ws where "ws = (if gap div 64 > 0 then word_stage (gap div 64) bm else bm)"
  let ?g = "64 * (gap div 64)"
  have gap: "gap = ?g + gap mod 64" by simp
  have len: "length ws = 16" using assms(1) word_stage_nth(1) by (simp add: ws_def)
  have ws: "bm_bit ws j \<longleftrightarrow> ?g \<le> j \<and> bm_bit bm (j - ?g)" if "j < 1024" for j
    using that assms(1) word_stage_bit unfolding ws_def by simp
  have sr: "shift_right gap bm = (if gap mod 64 > 0 then bit_stage (gap mod 64) ws else ws)"
    by (simp add: shift_right_stages ws_def Let_def)
  show "length (shift_right gap bm) = 16" unfolding sr using len bit_stage_nth(1) by simp
  have "bm_bit (shift_right gap bm) i \<longleftrightarrow> gap mod 64 \<le> i \<and> bm_bit ws (i - gap mod 64)"
    unfolding sr using len assms(3) bit_stage_bit by simp
  also have "\<dots> \<longleftrightarrow> gap mod 64 \<le> i \<and> ?g \<le> i - gap mod 64 \<and> bm_bit bm (i - gap mod 64 - ?g)"
    using assms(3) ws [of "i - gap mod 64"] by simp
  also have "i - gap mod 64 - ?g = i - gap"
    using diff_diff_left [of i "gap mod 64" ?g] gap by (simp add: add.commute)
  also have "gap mod 64 \<le> i \<and> ?g \<le> i - gap mod 64 \<and> P \<longleftrightarrow> gap \<le> i \<and> P" for P
    using gap by linarith
  finally show "bm_bit (shift_right gap bm) i \<longleftrightarrow> gap \<le> i \<and> bm_bit bm (i - gap)" .
qed

section \<open>Refinement of the abstract guard\<close>

text \<open>The abstract guard: the set of all counters accepted so far. It takes a counter that is new
  and not more than 1024 below the largest one.\<close>

definition accept_spec :: "u64 set \<Rightarrow> u64 \<Rightarrow> bool" where
  "accept_spec A c \<longleftrightarrow> c \<notin> A \<and> (\<forall>a\<in>A. unat a \<le> unat c + 1024)"

definition window_rel :: "ReplayWindow \<Rightarrow> u64 set \<Rightarrow> bool" where
  "window_rel w A \<longleftrightarrow> length (rw_bitmap w) = 16 \<and>
     (case rw_highest w of
        None \<Rightarrow> A = {} \<and> rw_bitmap w = replicate 16 0
      | Some h \<Rightarrow> h \<in> A \<and> (\<forall>a\<in>A. a \<le> h) \<and>
          (\<forall>i < 1024. bm_bit (rw_bitmap w) i \<longleftrightarrow> (\<exists>a\<in>A. unat a + Suc i = unat h)))"

lemma window_rel_new: "window_rel replay_new {}"
  by (simp add: window_rel_def replay_new_def WINDOW_WORDS_eq)

lemma window_rel_clear: "window_rel (replay_clear w) {}"
  by (simp add: window_rel_def replay_clear_def WINDOW_WORDS_eq)

lemma window_relD:
  assumes "window_rel w A" "rw_highest w = Some h"
  shows "length (rw_bitmap w) = 16" "h \<in> A" "\<And>a. a \<in> A \<Longrightarrow> a \<le> h"
    "\<And>i. i < 1024 \<Longrightarrow> bm_bit (rw_bitmap w) i \<longleftrightarrow> (\<exists>a\<in>A. unat a + Suc i = unat h)"
  using assms by (auto simp: window_rel_def)

lemma window_relI:
  assumes "rw_highest w = Some h" "length (rw_bitmap w) = 16" "h \<in> A" "\<And>a. a \<in> A \<Longrightarrow> a \<le> h"
    "\<And>i. i < 1024 \<Longrightarrow> bm_bit (rw_bitmap w) i \<longleftrightarrow> (\<exists>a\<in>A. unat a + Suc i = unat h)"
  shows "window_rel w A"
  using assms by (simp add: window_rel_def)

lemma accept_first:
  "window_rel w A \<Longrightarrow> rw_highest w = None \<Longrightarrow>
   accept_spec A c \<and> replay_accept c w = (Inr (), w\<lparr>rw_highest := Some c\<rparr>) \<and>
   window_rel (w\<lparr>rw_highest := Some c\<rparr>) (insert c A)"
  by (auto simp: accept_spec_def replay_accept_def window_rel_def)

text \<open>The bitmap of an advanced window, in each of the three cases of the gap.\<close>

definition advanced :: "nat \<Rightarrow> u64 list \<Rightarrow> u64 list" where
  "advanced gap bm =
     (if gap > WINDOW_BITS then replicate WINDOW_WORDS 0
      else if gap = WINDOW_BITS then set_bit_at (WINDOW_BITS - 1) (replicate WINDOW_WORDS 0)
      else set_bit_at (gap - 1) (shift_right gap bm))"

lemma length_advanced: "length bm = 16 \<Longrightarrow> length (advanced gap bm) = 16"
  using shift_right_bit(2) [of bm gap 0]
  by (simp add: advanced_def WINDOW_WORDS_eq WINDOW_BITS_def)

lemma advanced_bit:
  assumes "length bm = 16" "0 < gap" "i < 1024"
  shows "bm_bit (advanced gap bm) i \<longleftrightarrow> i = gap - 1 \<or> (gap \<le> i \<and> bm_bit bm (i - gap))"
proof -
  consider "gap > 1024" | "gap = 1024" | "gap < 1024" by linarith
  then show ?thesis
  proof cases
    case 1
    then show ?thesis using assms by (auto simp: advanced_def WINDOW_WORDS_eq WINDOW_BITS_def)
  next
    case 2
    then show ?thesis
      using assms by (simp add: advanced_def WINDOW_WORDS_eq WINDOW_BITS_def bm_bit_set_bit_at)
  next
    case 3
    then show ?thesis
      using assms shift_right_bit [of bm gap i]
      by (simp add: advanced_def WINDOW_BITS_def bm_bit_set_bit_at)
  qed
qed

lemma accept_advance:
  assumes R: "window_rel w A" and h: "rw_highest w = Some h" and c: "h < c"
  shows "accept_spec A c \<and> (\<exists>w1. replay_accept c w = (Inr (), w1) \<and> window_rel w1 (insert c A))"
proof -
  note D = window_relD [OF R h]
  let ?gap = "unat (c - h)"
  let ?w1 = "w\<lparr>rw_bitmap := advanced ?gap (rw_bitmap w), rw_highest := Some c\<rparr>"
  have lt: "unat h < unat c" using c by (simp add: word_less_nat_alt)
  have gap: "?gap = unat c - unat h" using c by (simp add: unat_sub less_imp_le)
  have below: "unat a \<le> unat h" if "a \<in> A" for a using D(3) [OF that] by (simp add: word_le_nat_alt)
  have eq: "replay_accept c w = (Inr (), ?w1)"
    using h c by (simp add: replay_accept_def advanced_def Let_def)
  have spec: "accept_spec A c"
    unfolding accept_spec_def using below lt by force
  have "window_rel ?w1 (insert c A)"
  proof (rule window_relI)
    show "a \<le> c" if "a \<in> insert c A" for a using that D(3) c by force
    show "bm_bit (rw_bitmap ?w1) i \<longleftrightarrow> (\<exists>a\<in>insert c A. unat a + Suc i = unat c)"
      if i: "i < 1024" for i
    proof -
      have "bm_bit (rw_bitmap ?w1) i \<longleftrightarrow> unat h + Suc i = unat c \<or>
          (?gap \<le> i \<and> (\<exists>a\<in>A. unat a + Suc (i - ?gap) = unat h))"
        using advanced_bit [OF D(1) _ i, of ?gap] D(4) [of "i - ?gap"] gap lt i by auto
      also have "\<dots> \<longleftrightarrow> (\<exists>a\<in>insert c A. unat a + Suc i = unat c)"
      proof -
        have pt: "unat a + Suc i = unat c \<longleftrightarrow> (unat a = unat h \<and> unat h + Suc i = unat c) \<or>
            (?gap \<le> i \<and> unat a + Suc (i - ?gap) = unat h)" if "a \<in> A" for a
          using below [OF that] gap lt by (cases "?gap \<le> i") linarith+
        have "unat c + Suc i \<noteq> unat c" by simp
        then show ?thesis using D(2) pt by blast
      qed
      finally show ?thesis .
    qed
  qed (use D(1) length_advanced in auto)
  with eq spec show ?thesis by blast
qed

lemma accept_below:
  assumes R: "window_rel w A" and h: "rw_highest w = Some h" and c: "c \<le> h"
  shows "if accept_spec A c then \<exists>w1. replay_accept c w = (Inr (), w1) \<and> window_rel w1 (insert c A)
    else replay_accept c w = (Inl DecryptionFailed, w)"
proof (cases "c = h")
  case True
  then have "\<not> accept_spec A c" using window_relD(2) [OF R h] by (simp add: accept_spec_def)
  then show ?thesis using True h by (simp add: replay_accept_def)
next
  case False
  note D = window_relD [OF R h]
  let ?off = "unat (h - c)"
  let ?w1 = "w\<lparr>rw_bitmap := set_bit_at (?off - 1) (rw_bitmap w)\<rparr>"
  have lt: "unat c < unat h" using c False by (metis order_le_less word_less_nat_alt)
  have off: "?off = unat h - unat c" using c by (simp add: unat_sub)
  have below: "unat a \<le> unat h" if "a \<in> A" for a using D(3) [OF that] by (simp add: word_le_nat_alt)
  have eq: "replay_accept c w =
    (if ?off > 1024 \<or> bm_bit (rw_bitmap w) (?off - 1) then (Inl DecryptionFailed, w) else (Inr (), ?w1))"
    using h leD [OF c] False by (simp add: replay_accept_def WINDOW_BITS_def Let_def get_bit_at_eq)
  have seen: "bm_bit (rw_bitmap w) (?off - 1) \<longleftrightarrow> c \<in> A" if "\<not> ?off > 1024"
  proof -
    have "unat a + Suc (?off - 1) = unat h \<longleftrightarrow> a = c" for a
      using off lt by (auto simp: word_unat_eq_iff)
    then show ?thesis using D(4) [of "?off - 1"] that off lt by auto
  qed
  have spec: "accept_spec A c \<longleftrightarrow> \<not> (?off > 1024 \<or> c \<in> A)"
    unfolding accept_spec_def using off lt below D(2) by force
  have "window_rel ?w1 (insert c A)" if "accept_spec A c"
  proof (rule window_relI [of _ h])
    have lim: "?off - 1 < 1024" using that spec off lt by linarith
    show "bm_bit (rw_bitmap ?w1) i \<longleftrightarrow> (\<exists>a\<in>insert c A. unat a + Suc i = unat h)"
      if "i < 1024" for i
      using bm_bit_set_bit_at [of "?off - 1" "rw_bitmap w" i] lim that D(1) D(4) [OF that] off lt
      by auto
  qed (use h D c in auto)
  then show ?thesis using eq seen spec by auto
qed

text \<open>The window decides exactly as the abstract guard and stays related to it.\<close>

lemma replay_accept_refines:
  assumes "window_rel w A"
  shows "if accept_spec A c then \<exists>w1. replay_accept c w = (Inr (), w1) \<and> window_rel w1 (insert c A)
    else replay_accept c w = (Inl DecryptionFailed, w)"
proof (cases "rw_highest w")
  case None
  then show ?thesis using accept_first [OF assms] by auto
next
  case (Some h)
  then show ?thesis
    using accept_advance [OF assms Some, of c] accept_below [OF assms Some, of c] by fastforce
qed

lemma replay_accept_ok:
  assumes "window_rel w A" "replay_accept c w = (Inr u, w1)"
  shows "accept_spec A c" "window_rel w1 (insert c A)"
  using replay_accept_refines [OF assms(1), of c] assms(2) by (auto split: if_splits)

lemma replay_accept_err:
  assumes "window_rel w A" "replay_accept c w = (Inl e, w1)"
  shows "\<not> accept_spec A c" "w1 = w" "e = DecryptionFailed"
  using replay_accept_refines [OF assms(1), of c] assms(2) by (auto split: if_splits)

interpretation window: antireplay replay_accept "\<lambda>c. c" window_rel
proof
  show "c \<notin> A \<and> (\<exists>B. insert c A \<subseteq> B \<and> window_rel w1 B)"
    if "window_rel w A" "replay_accept c w = (Inr a, w1)" for w A c a w1
    using replay_accept_ok [OF that] by (auto simp: accept_spec_def)
  show "\<exists>B. A \<subseteq> B \<and> window_rel w1 B"
    if "window_rel w A" "replay_accept c w = (Inl e, w1)" for w A c e w1
    using replay_accept_err [OF that] that(1) by auto
qed

section \<open>Sequences of counters\<close>

fun guard_run :: "u64 set \<Rightarrow> u64 list \<Rightarrow> bool list" where
  "guard_run A [] = []"
| "guard_run A (c # cs) =
     (if accept_spec A c then True # guard_run (insert c A) cs else False # guard_run A cs)"

lemma guard_run_all:
  assumes "distinct cs" "set cs \<inter> A = {}" "\<forall>a \<in> A \<union> set cs. \<forall>c \<in> set cs. unat a \<le> unat c + 1024"
  shows "guard_run A cs = replicate (length cs) True"
  using assms by (induction cs arbitrary: A) (simp_all add: accept_spec_def)


lemma guard_run_refines:
  "window_rel w A \<Longrightarrow> map is_Ok (fst (run replay_accept cs w)) = guard_run A cs"
proof (induction cs arbitrary: w A)
  case Nil
  then show ?case by simp
next
  case (Cons c cs)
  show ?case
  proof (cases "accept_spec A c")
    case True
    then obtain w1 where "replay_accept c w = (Inr (), w1)" "window_rel w1 (insert c A)"
      using replay_accept_refines [OF Cons.prems, of c] by auto
    then show ?thesis using Cons.IH True by simp
  next
    case False
    then have "replay_accept c w = (Inl DecryptionFailed, w)"
      using replay_accept_refines [OF Cons.prems, of c] by auto
    then show ?thesis using Cons.IH [OF Cons.prems] False by simp
  qed
qed

section \<open>Properties\<close>

text \<open>C14: on every sequence of 64-bit counters the shifted 1024-bit bitmap takes the same decisions
  as the abstract guard that remembers every accepted counter and accepts a counter when it is
  new and at most 1024 below the highest accepted one.\<close>

theorem replay_window_refines_guard:
  "map is_Ok (fst (run replay_accept cs replay_new)) = guard_run {} cs"
  by (rule guard_run_refines [OF window_rel_new])

text \<open>No counter is accepted twice, in any sequence.\<close>

lemma replay_no_duplicates: "distinct (accepted replay_accept cs replay_new)"
  using window.accepted_fresh [OF window_rel_new, of cs] by simp

end
