(* ===== verification/Overlay.thy ===== *)
theory Overlay
  imports Replay
begin

text \<open>
  The overlay framing of \<open>pq-tunnel-core/src/dataplane.rs\<close>: the 20-byte fragment header, the IP
  length checks, the table-driven CRC-32 and the sender's fragmentation. The header is an
  interpretation of \<open>fixed_codec\<close>; the CRC is shown equal to its bitwise definition.
\<close>

section \<open>Constants and errors\<close>

definition OVERLAY_VERSION :: byte where "OVERLAY_VERSION = 1"
definition OVERLAY_HEADER_LEN :: nat where [layout_simps]: "OVERLAY_HEADER_LEN = 20"
definition FRAG_CAP :: nat where [layout_simps]: "FRAG_CAP = PAYLOAD_LEN - OVERLAY_HEADER_LEN"
definition MAX_FRAG_COUNT :: nat where [layout_simps]: "MAX_FRAG_COUNT = 54"
definition MAX_IP_PACKET_LEN :: nat where [layout_simps]: "MAX_IP_PACKET_LEN = 65535"

lemma overlay_values:
  "OVERLAY_HEADER_LEN = 20" "FRAG_CAP = 1225" "MAX_FRAG_COUNT = 54" "MAX_IP_PACKET_LEN = 65535"
  by (simp_all add: layout_simps)

lemma overlay_asserts:
  "OVERLAY_HEADER_LEN + FRAG_CAP = PAYLOAD_LEN"
  "(MAX_FRAG_COUNT - 1) * FRAG_CAP < MAX_IP_PACKET_LEN"
  "MAX_IP_PACKET_LEN \<le> MAX_FRAG_COUNT * FRAG_CAP"
  by (simp_all add: layout_simps)

datatype OverlayError =
    OE_Truncated
  | OE_InvalidVersion
  | OE_InvalidFlags
  | OE_InvalidReserved
  | OE_InvalidFragCount
  | OE_InvalidFragIndex
  | OE_InvalidIpTotalLen
  | OE_InconsistentFragCount
  | OE_InvalidIpHeader
  | OE_InvalidPadding
  | OE_IpLengthMismatch

section \<open>Fragment header\<close>

record OverlayHeader =
  oh_version :: byte
  oh_frag_index :: byte
  oh_frag_count :: byte
  oh_flags :: byte
  oh_ip_total_len :: u16
  oh_reserved :: u16
  oh_datagram_id :: u64
  oh_datagram_crc :: u32

definition overlay_decode :: "bytes \<Rightarrow> OverlayError + OverlayHeader" where
  "overlay_decode bs =
     (if length bs < OVERLAY_HEADER_LEN then Inl OE_Truncated
      else
        let h = slice 0 OVERLAY_HEADER_LEN bs;
            frag_index = h ! 1; frag_count = h ! 2;
            ip_total_len = from_be [h ! 4, h ! 5] :: u16;
            reserved = from_be [h ! 6, h ! 7] :: u16;
            ipt = unat ip_total_len; fc = unat frag_count
        in
        if h ! 0 \<noteq> OVERLAY_VERSION then Inl OE_InvalidVersion
        else if h ! 3 \<noteq> 0 then Inl OE_InvalidFlags
        else if reserved \<noteq> 0 then Inl OE_InvalidReserved
        else if frag_count = 0 \<or> unat frag_count > MAX_FRAG_COUNT then Inl OE_InvalidFragCount
        else if unat frag_index \<ge> unat frag_count then Inl OE_InvalidFragIndex
        else if \<not> (20 \<le> ipt \<and> ipt \<le> MAX_IP_PACKET_LEN) then Inl OE_InvalidIpTotalLen
        else if (fc - 1) * FRAG_CAP \<ge> ipt \<or> ipt > fc * FRAG_CAP then Inl OE_InconsistentFragCount
        else Inr \<lparr>oh_version = h ! 0, oh_frag_index = frag_index, oh_frag_count = frag_count,
                  oh_flags = h ! 3, oh_ip_total_len = ip_total_len, oh_reserved = reserved,
                  oh_datagram_id = from_be (slice 8 16 h), oh_datagram_crc = from_be (slice 16 20 h)\<rparr>)"

definition overlay_encode_into :: "OverlayHeader \<Rightarrow> bytes \<Rightarrow> bytes" where
  "overlay_encode_into h out =
     (let out = out[0 := oh_version h, 1 := oh_frag_index h, 2 := oh_frag_count h, 3 := oh_flags h];
          out = copy_at 4 (to_be 2 (oh_ip_total_len h)) out;
          out = copy_at 6 (to_be 2 (oh_reserved h)) out;
          out = copy_at 8 (to_be 8 (oh_datagram_id h)) out
      in copy_at 16 (to_be 4 (oh_datagram_crc h)) out)"

definition overlay_encode :: "OverlayHeader \<Rightarrow> bytes" where
  "overlay_encode h = overlay_encode_into h (replicate OVERLAY_HEADER_LEN 0)"

definition expected_frag_len :: "OverlayHeader \<Rightarrow> nat" where
  "expected_frag_len hdr =
     (let ipt = unat (oh_ip_total_len hdr); idx = unat (oh_frag_index hdr); fc = unat (oh_frag_count hdr)
      in if idx + 1 < fc then FRAG_CAP else ipt - (fc - 1) * FRAG_CAP)"

definition overlay_wf :: "OverlayHeader \<Rightarrow> bool" where
  "overlay_wf h \<longleftrightarrow> oh_version h = OVERLAY_VERSION \<and> oh_flags h = 0 \<and> oh_reserved h = 0 \<and>
     oh_frag_count h \<noteq> 0 \<and> unat (oh_frag_count h) \<le> 54 \<and>
     unat (oh_frag_index h) < unat (oh_frag_count h) \<and> 20 \<le> unat (oh_ip_total_len h) \<and>
     (unat (oh_frag_count h) - 1) * 1225 < unat (oh_ip_total_len h) \<and>
     unat (oh_ip_total_len h) \<le> unat (oh_frag_count h) * 1225"

lemma zeros_20: "replicate 20 (0 :: byte) = 0 # 0 # 0 # 0 # replicate 16 0"
  using replicate_front [of 20 "0 :: byte"] replicate_front [of 19 "0 :: byte"]
    replicate_front [of 18 "0 :: byte"] replicate_front [of 17 "0 :: byte"] by simp

lemma overlay_encode_eq:
  "overlay_encode h = [oh_version h, oh_frag_index h, oh_frag_count h, oh_flags h] @
     to_be 2 (oh_ip_total_len h) @ to_be 2 (oh_reserved h) @ to_be 8 (oh_datagram_id h) @
     to_be 4 (oh_datagram_crc h)"
  by (simp add: overlay_encode_def overlay_encode_into_def overlay_values zeros_20 copy_at_def Let_def)

lemma overlay_encode_into_app:
  "overlay_encode_into h (replicate 20 0 @ rest) = overlay_encode h @ rest"
  by (simp add: overlay_encode_eq overlay_encode_into_def zeros_20 copy_at_def Let_def)

lemma length_overlay_encode: "20 = length (overlay_encode h)"
  by (simp add: overlay_encode_eq)

lemma u16_bound: "unat (w :: u16) \<le> 65535"
  using unsigned_less [where 'a = nat, of w] by simp

text \<open>A list of known length, destructured.\<close>

lemma pair_slice: "Suc i < length xs \<Longrightarrow> [xs ! i, xs ! Suc i] = slice i (i + 2) xs"
  by (rule nth_equalityI) (auto simp: slice_def nth_Cons' less_Suc_eq)

lemma overlay_decode_encode:
  assumes "overlay_wf h"
  shows "overlay_decode (overlay_encode h) = Inr h"
proof -
  let ?b = "overlay_encode h"
  have len: "length ?b = 20" by (simp add: overlay_encode_eq)
  have "[?b ! 4, ?b ! 5] = slice 4 6 ?b" "[?b ! 6, ?b ! 7] = slice 6 8 ?b"
    using pair_slice [of 4 ?b] pair_slice [of 6 ?b] len by simp_all
  then have f: "[?b ! 4, ?b ! 5] = to_be 2 (oh_ip_total_len h)" "[?b ! 6, ?b ! 7] = to_be 2 (oh_reserved h)"
    by (simp_all add: overlay_encode_eq slice_def)
  have g: "?b ! 0 = oh_version h" "?b ! Suc 0 = oh_frag_index h" "?b ! 2 = oh_frag_count h"
    "?b ! 3 = oh_flags h" "slice 8 16 ?b = to_be 8 (oh_datagram_id h)"
    "slice 16 20 ?b = to_be 4 (oh_datagram_crc h)"
    by (simp_all add: overlay_encode_eq slice_def)
  show ?thesis
    using assms len u16_bound [of "oh_ip_total_len h"]
    by (simp add: overlay_decode_def overlay_values Let_def f g overlay_wf_def slice_zero)
qed

lemma overlay_decode_okD:
  assumes "overlay_decode bs = Inr h"
  shows "20 \<le> length bs" "overlay_wf h"
    "h = \<lparr>oh_version = bs ! 0, oh_frag_index = bs ! 1, oh_frag_count = bs ! 2, oh_flags = bs ! 3,
          oh_ip_total_len = from_be (slice 4 6 bs), oh_reserved = from_be (slice 6 8 bs),
          oh_datagram_id = from_be (slice 8 16 bs), oh_datagram_crc = from_be (slice 16 20 bs)\<rparr>"
proof -
  show len: "20 \<le> length bs"
    using assms by (auto simp: overlay_decode_def overlay_values split: if_splits)
  let ?h = "slice 0 20 bs"
  have nth: "?h ! i = bs ! i" if "i < 20" for i using that len by (simp add: slice_zero)
  have sl: "slice a b ?h = slice a b bs" if "b \<le> 20" for a b
    using that by (simp add: slice_zero slice_def drop_take min_absorb1 le_diff_conv)
  have pr: "[bs ! 4, bs ! 5] = slice 4 6 bs" "[bs ! 6, bs ! 7] = slice 6 8 bs"
    using pair_slice [of 4 bs] pair_slice [of 6 bs] len by simp_all
  show h: "h = \<lparr>oh_version = bs ! 0, oh_frag_index = bs ! 1, oh_frag_count = bs ! 2, oh_flags = bs ! 3,
          oh_ip_total_len = from_be (slice 4 6 bs), oh_reserved = from_be (slice 6 8 bs),
          oh_datagram_id = from_be (slice 8 16 bs), oh_datagram_crc = from_be (slice 16 20 bs)\<rparr>"
    using assms len
    by (auto simp: overlay_decode_def overlay_values Let_def nth sl pr split: if_splits)
  show "overlay_wf h"
    using assms len unfolding h
    by (auto simp: overlay_decode_def overlay_values overlay_wf_def Let_def nth sl pr split: if_splits)
qed

lemma overlay_decode_sound:
  assumes "overlay_decode bs = Inr h"
  shows "overlay_wf h \<and> OVERLAY_HEADER_LEN \<le> length bs \<and> overlay_encode h = take OVERLAY_HEADER_LEN bs"
proof -
  note D = overlay_decode_okD [OF assms]
  have "take 20 bs = take 4 bs @ slice 4 20 bs"
    using take_slice_split [of 4 20 bs] D(1) by simp
  also have "slice 4 20 bs = slice 4 6 bs @ slice 6 8 bs @ slice 8 16 bs @ slice 16 20 bs"
    by (simp add: slice_split)
  also have "take 4 bs = [bs ! 0, bs ! 1, bs ! 2, bs ! 3]"
    using D(1) by (intro nth_equalityI) (auto simp: nth_Cons' less_Suc_eq numeral_eq_Suc)
  finally show ?thesis
    using D by (simp add: overlay_encode_eq overlay_values to_be_u16 to_be_u32 to_be_u64)
qed

lemma overlay_decode_take: "20 \<le> length bs \<Longrightarrow> overlay_decode (take 20 bs) = overlay_decode bs"
  by (simp add: overlay_decode_def overlay_values slice_zero min_absorb1)

lemma overlay_decode_front: "overlay_wf h \<Longrightarrow> overlay_decode (overlay_encode h @ xs) = Inr h"
  using overlay_decode_take [of "overlay_encode h @ xs"] overlay_decode_encode [of h]
  by (simp add: overlay_encode_eq)

interpretation overlay: fixed_codec overlay_encode overlay_decode overlay_wf OVERLAY_HEADER_LEN
proof
  show "length (overlay_encode h) = OVERLAY_HEADER_LEN" if "overlay_wf h" for h
    by (simp add: overlay_encode_eq overlay_values)
qed (use overlay_decode_encode overlay_decode_sound in blast)+

text \<open>The fragment a header announces is never empty and fits its slot.\<close>

lemma expected_frag_len_bounds:
  "overlay_wf h \<Longrightarrow> 0 < expected_frag_len h \<and> expected_frag_len h \<le> 1225 \<and>
     unat (oh_frag_index h) * 1225 + expected_frag_len h \<le> unat (oh_ip_total_len h)"
proof -
  assume wf: "overlay_wf h"
  define ipt idx fc where "ipt = unat (oh_ip_total_len h)" and "idx = unat (oh_frag_index h)"
    and "fc = unat (oh_frag_count h)"
  have b: "idx < fc" "(fc - 1) * 1225 < ipt" "ipt \<le> fc * 1225"
    using wf by (simp_all add: overlay_wf_def ipt_def idx_def fc_def)
  have e: "expected_frag_len h = (if idx + 1 < fc then 1225 else ipt - (fc - 1) * 1225)"
    by (simp add: expected_frag_len_def overlay_values ipt_def idx_def fc_def)
  show ?thesis
  proof (cases "idx + 1 < fc")
    case True
    then have "idx * 1225 + 1225 \<le> (fc - 1) * 1225" by (simp add: algebra_simps)
    then show ?thesis using True b unfolding e by (simp add: ipt_def idx_def)
  next
    case False
    then have "idx = fc - 1" using b(1) by simp
    moreover have "fc * 1225 = (fc - 1) * 1225 + 1225" using b(1) by (cases fc) simp_all
    ultimately show ?thesis using False b unfolding e by (simp add: ipt_def [symmetric] idx_def [symmetric])
  qed
qed

section \<open>IP lengths\<close>

definition declared_ip_len :: "bytes \<Rightarrow> OverlayError + nat" where
  "declared_ip_len ip =
     (if ip = [] then Inl OE_InvalidIpHeader
      else if drop_bit 4 (ip ! 0) = 4 then
        (if length ip < 20 then Inl OE_InvalidIpHeader
         else
           let total = unat (from_be [ip ! 2, ip ! 3] :: u16) in
           if total < 20 then Inl OE_InvalidIpHeader
           else let ihl = unat (ip ! 0 AND 0x0F) * 4 in
             if ihl < 20 \<or> ihl > total then Inl OE_InvalidIpHeader
             else if total > MAX_IP_PACKET_LEN then Inl OE_InvalidIpHeader
             else Inr total)
      else if drop_bit 4 (ip ! 0) = 6 then
        (if length ip < 40 then Inl OE_InvalidIpHeader
         else
           let payload = unat (from_be [ip ! 4, ip ! 5] :: u16); total = 40 + payload in
           if total < 40 then Inl OE_InvalidIpHeader
           else if total > MAX_IP_PACKET_LEN then Inl OE_InvalidIpHeader
           else Inr total)
      else Inl OE_InvalidIpHeader)"

definition validate_ip_packet :: "bytes \<Rightarrow> OverlayError + nat" where
  "validate_ip_packet ip =
     (case declared_ip_len ip of
        Inl e \<Rightarrow> Inl e
      | Inr declared \<Rightarrow> if declared \<noteq> length ip then Inl OE_IpLengthMismatch else Inr declared)"

definition validate_ip_header_at :: "bytes \<Rightarrow> nat \<Rightarrow> OverlayError + unit" where
  "validate_ip_header_at buf expected_len =
     (if expected_len > MAX_IP_PACKET_LEN then Inl OE_InvalidIpHeader
      else if length buf < expected_len then Inl OE_InvalidIpHeader
      else if drop_bit 4 (buf ! 0) = 4 then
        (if expected_len < 20 then Inl OE_InvalidIpHeader
         else if unat (from_be [buf ! 2, buf ! 3] :: u16) \<noteq> expected_len then Inl OE_InvalidIpHeader
         else let ihl = unat (buf ! 0 AND 0x0F) * 4 in
           if ihl < 20 \<or> ihl > expected_len then Inl OE_InvalidIpHeader else Inr ())
      else if drop_bit 4 (buf ! 0) = 6 then
        (if expected_len < 40 then Inl OE_InvalidIpHeader
         else if 40 + unat (from_be [buf ! 4, buf ! 5] :: u16) \<noteq> expected_len then Inl OE_InvalidIpHeader
         else Inr ())
      else Inl OE_InvalidIpHeader)"

text \<open>The receiver's check of a complete buffer is the sender's check.\<close>

lemma validate_agree:
  "buf \<noteq> [] \<Longrightarrow> validate_ip_header_at buf (length buf) = Inr () \<longleftrightarrow> validate_ip_packet buf = Inr (length buf)"
  by (auto simp: validate_ip_header_at_def validate_ip_packet_def declared_ip_len_def Let_def)

text \<open>The receiver's check reads only the first bytes of the buffer, which fragment 0 carries.\<close>

lemma validate_prefix:
  assumes "n \<le> length a" "n \<le> length b" "take 1225 a = take 1225 b" "1 \<le> n"
  shows "validate_ip_header_at a n = validate_ip_header_at b n"
proof -
  have "a ! i = b ! i" if "i < 6" for i
    using arg_cong [OF assms(3), of "\<lambda>xs. xs ! i"] that by simp
  then show ?thesis using assms by (simp add: validate_ip_header_at_def)
qed

section \<open>CRC-32\<close>

definition crc_shift :: "u32 \<Rightarrow> u32" where
  "crc_shift crc = (if crc AND 1 = 1 then drop_bit 1 crc XOR 0xEDB88320 else drop_bit 1 crc)"

definition crc32_table :: "u32 list" where
  "crc32_table = map (\<lambda>i. (crc_shift ^^ 8) (of_nat i)) [0..<256]"

definition crc32 :: "bytes \<Rightarrow> u32" where
  "crc32 data =
     foldl (\<lambda>crc b. drop_bit 8 crc XOR crc32_table ! unat ((crc XOR ucast b) AND 0xFF)) 0xFFFFFFFF data
     XOR 0xFFFFFFFF"

text \<open>The bitwise definition: each byte is added to the register, which then takes eight shifts.\<close>

definition crc32_bitwise :: "bytes \<Rightarrow> u32" where
  "crc32_bitwise data =
     foldl (\<lambda>crc b. (crc_shift ^^ 8) (crc XOR ucast b)) 0xFFFFFFFF data XOR 0xFFFFFFFF"

lemma crc_shift_alt: "crc_shift x = drop_bit 1 x XOR (if bit x 0 then 0xEDB88320 else 0)"
proof -
  have "x AND 1 = 1 \<longleftrightarrow> bit x 0" by (simp add: and_one_eq bit_0 mod2_eq_if)
  then show ?thesis by (simp add: crc_shift_def)
qed

lemma crc_shift_xor: "crc_shift (x XOR y) = crc_shift x XOR crc_shift y"
proof -
  have lin: "drop_bit 1 (x XOR y) XOR (if bit (x XOR y) 0 then p else 0) =
      (drop_bit 1 x XOR (if bit x 0 then p else 0)) XOR (drop_bit 1 y XOR (if bit y 0 then p else 0))"
    for p :: u32
    by (rule bit_eqI) (auto simp: bit_simps)
  show ?thesis unfolding crc_shift_alt by (rule lin)
qed

lemma crc_shift_pow_xor: "(crc_shift ^^ n) (x XOR y) = (crc_shift ^^ n) x XOR (crc_shift ^^ n) y"
  by (induction n) (simp_all add: crc_shift_xor)

lemma crc_shift_pow_high:
  "(\<And>j. j < n \<Longrightarrow> \<not> bit x j) \<Longrightarrow> (crc_shift ^^ n) x = drop_bit n x"
proof (induction n)
  case 0
  then show ?case by simp
next
  case (Suc n)
  then have "(crc_shift ^^ n) x = drop_bit n x" by simp
  moreover have "\<not> bit (drop_bit n x) 0" using Suc.prems [of n] by (simp add: bit_drop_bit_eq)
  ultimately show ?case by (simp add: crc_shift_alt [of "drop_bit n x"])
qed

lemma low_byte: "(0xFF :: u32) = mask 8"
  by (simp add: mask_eq_exp_minus_1)

lemma crc_shift_byte:
  "(crc_shift ^^ 8) x = drop_bit 8 x XOR (crc_shift ^^ 8) (x AND mask 8)"
proof -
  let ?hi = "x AND NOT (mask 8)"
  have split: "x = ?hi XOR (x AND mask 8)"
    by (rule bit_eqI) (auto simp: bit_simps)
  have high: "(crc_shift ^^ 8) ?hi = drop_bit 8 ?hi"
    by (rule crc_shift_pow_high) (auto simp: bit_simps)
  have same: "drop_bit 8 ?hi = drop_bit 8 x"
    by (rule bit_eqI) (auto simp: bit_simps dest: bit_imp_le_length)
  have "(crc_shift ^^ 8) x = (crc_shift ^^ 8) (?hi XOR (x AND mask 8))"
    by (rule arg_cong [OF split])
  also have "\<dots> = (crc_shift ^^ 8) ?hi XOR (crc_shift ^^ 8) (x AND mask 8)"
    by (rule crc_shift_pow_xor)
  finally show ?thesis unfolding high same .
qed

lemma crc32_table_nth: "crc32_table ! unat (y AND mask 8) = (crc_shift ^^ 8) (y AND mask 8)"
proof -
  have "y AND mask 8 = take_bit 8 y" by (simp add: take_bit_eq_mask)
  then have "unat (y AND mask 8) = take_bit 8 (unat y)" by (simp add: unsigned_take_bit_eq)
  then have "unat (y AND mask 8) < 256"
    using take_bit_nat_less_exp [of 8 "unat y"] by simp
  then show ?thesis by (simp add: crc32_table_def)
qed

lemma crc32_update:
  "drop_bit 8 crc XOR crc32_table ! unat ((crc XOR ucast b) AND 0xFF) = (crc_shift ^^ 8) (crc XOR ucast (b :: byte))"
proof -
  have "drop_bit 8 (crc XOR ucast b) = drop_bit 8 crc"
    by (rule bit_eqI) (auto simp: bit_simps dest: bit_byte_bound)
  then show ?thesis
    unfolding low_byte crc32_table_nth by (simp add: crc_shift_byte [of "crc XOR ucast b"])
qed

lemma crc32_eq_bitwise: "crc32 data = crc32_bitwise data"
  unfolding crc32_def crc32_bitwise_def crc32_update ..

section \<open>Fragmentation\<close>

datatype DataplaneError = InvalidIpPacket | TooLarge

definition frag_slot :: "bytes \<Rightarrow> u64 \<Rightarrow> nat \<Rightarrow> u32 \<Rightarrow> nat \<Rightarrow> bytes" where
  "frag_slot ip_packet datagram_id frag_count crc idx =
     (let len = length ip_packet;
          start = idx * FRAG_CAP;
          end = min (start + FRAG_CAP) len;
          slot = replicate PAYLOAD_LEN 0;
          slot = slot[0 := OVERLAY_VERSION, 1 := of_nat idx, 2 := of_nat frag_count, 3 := 0];
          slot = copy_at 4 (to_be 2 (of_nat len :: u16)) slot;
          slot = copy_at 6 (to_be 2 (0 :: u16)) slot;
          slot = copy_at 8 (to_be 8 datagram_id) slot;
          slot = copy_at 16 (to_be 4 crc) slot
      in copy_at 20 (slice start end ip_packet) slot)"

definition div_ceil :: "nat \<Rightarrow> nat \<Rightarrow> nat" where
  "div_ceil a b = (if a mod b = 0 then a div b else a div b + 1)"

definition fragment_ip_packet :: "bytes \<Rightarrow> u64 \<Rightarrow> DataplaneError + bytes list" where
  "fragment_ip_packet ip_packet datagram_id =
     (let len = length ip_packet in
      if \<not> (20 \<le> len \<and> len \<le> MAX_IP_PACKET_LEN) then Inl InvalidIpPacket
      else case validate_ip_packet ip_packet of
        Inl e \<Rightarrow> Inl InvalidIpPacket
      | Inr _ \<Rightarrow>
          let frag_count = div_ceil len FRAG_CAP in
          if frag_count = 0 \<or> frag_count > MAX_FRAG_COUNT then Inl TooLarge
          else let crc = crc32 ip_packet
               in Inr (map (frag_slot ip_packet datagram_id frag_count crc) [0..<frag_count]))"

definition replay_span_ok :: "u64 \<Rightarrow> u64 \<Rightarrow> bool" where
  "replay_span_ok first_counter current_counter = (current_counter - first_counter < of_nat WINDOW_BITS)"

lemma div_ceil_bounds: "0 < b \<Longrightarrow> 0 < a \<Longrightarrow> (div_ceil a b - 1) * b < a \<and> a \<le> div_ceil a b * b"
proof -
  assume h: "0 < b" "0 < a"
  have eq: "a = a div b * b + a mod b" by simp
  show ?thesis
  proof (cases "a mod b = 0")
    case True
    then have "a div b * b = a" by auto
    then have "a div b \<noteq> 0" using h(2) by (metis mult_0 less_irrefl)
    then have "(a div b - 1) * b + b = a" using \<open>a div b * b = a\<close> by (cases "a div b") simp_all
    then show ?thesis using True h \<open>a div b * b = a\<close> by (simp add: div_ceil_def)
  next
    case False
    have "a mod b < b" "0 < a mod b" using h(1) False by simp_all
    then have "a div b * b < a" "a \<le> a div b * b + b" using eq by linarith+
    then show ?thesis using False by (simp add: div_ceil_def)
  qed
qed

section \<open>What the sender puts in a slot\<close>

definition frag_header :: "bytes \<Rightarrow> u64 \<Rightarrow> nat \<Rightarrow> nat \<Rightarrow> OverlayHeader" where
  "frag_header pkt dgid fc i =
     \<lparr>oh_version = OVERLAY_VERSION, oh_frag_index = of_nat i, oh_frag_count = of_nat fc, oh_flags = 0,
      oh_ip_total_len = of_nat (length pkt), oh_reserved = 0, oh_datagram_id = dgid,
      oh_datagram_crc = crc32 pkt\<rparr>"

abbreviation frag_body :: "bytes \<Rightarrow> nat \<Rightarrow> bytes" where
  "frag_body pkt i \<equiv> block 1225 i pkt"

lemma frag_slot_steps:
  "frag_slot pkt dgid fc (crc32 pkt) i =
     copy_at 20 (frag_body pkt i) (overlay_encode_into (frag_header pkt dgid fc i) (replicate 1245 0))"
  by (simp add: frag_slot_def overlay_encode_into_def overlay_values layout_values Let_def
      block_def frag_header_def)

lemma frag_slot_eq:
  "frag_slot pkt dgid fc (crc32 pkt) i =
     overlay_encode (frag_header pkt dgid fc i) @ frag_body pkt i @ replicate (1225 - length (frag_body pkt i)) 0"
proof -
  have "replicate 1245 (0 :: byte) = replicate 20 0 @ replicate 1225 0"
    by (simp add: replicate_add [symmetric])
  then show ?thesis
    unfolding frag_slot_steps
    by (simp only: overlay_encode_into_app copy_at_after length_overlay_encode drop_replicate)
qed

text \<open>The packets the sender accepts: the fragment count is what the receiver expects.\<close>

definition sendable :: "bytes \<Rightarrow> bool" where
  "sendable pkt \<longleftrightarrow> 20 \<le> length pkt \<and> length pkt \<le> 65535 \<and> validate_ip_packet pkt = Inr (length pkt)"

abbreviation "frags pkt \<equiv> div_ceil (length pkt) 1225"

lemma frags_bounds:
  assumes "sendable pkt"
  shows "0 < frags pkt" "frags pkt \<le> 54" "(frags pkt - 1) * 1225 < length pkt" "length pkt \<le> frags pkt * 1225"
proof -
  have len: "0 < length pkt" "length pkt \<le> 65535" using assms by (auto simp: sendable_def)
  have b: "(frags pkt - 1) * 1225 < length pkt \<and> length pkt \<le> frags pkt * 1225"
    using div_ceil_bounds [of 1225 "length pkt"] len(1) by simp
  then show "(frags pkt - 1) * 1225 < length pkt" "length pkt \<le> frags pkt * 1225" by auto
  show "0 < frags pkt" using b len(1) by (cases "frags pkt") simp_all
  have "(frags pkt - 1) * 1225 < 54 * 1225" using b len(2) by linarith
  then show "frags pkt \<le> 54" by linarith
qed

lemma fragment_ok:
  assumes "sendable pkt"
  shows "fragment_ip_packet pkt dgid = Inr (map (frag_slot pkt dgid (frags pkt) (crc32 pkt)) [0..<frags pkt])"
  using assms frags_bounds [OF assms]
  by (simp add: fragment_ip_packet_def sendable_def overlay_values Let_def)

lemma fragment_ok_iff: "is_Ok (fragment_ip_packet pkt dgid) \<longleftrightarrow> sendable pkt"
proof
  show "sendable pkt" if "is_Ok (fragment_ip_packet pkt dgid)"
    using that
    by (auto simp: fragment_ip_packet_def sendable_def validate_ip_packet_def overlay_values Let_def
        split: if_splits sum.splits)
  show "is_Ok (fragment_ip_packet pkt dgid)" if "sendable pkt"
    using fragment_ok [OF that] by simp
qed

lemma frag_header_wf:
  assumes "sendable pkt" "i < frags pkt"
  shows "overlay_wf (frag_header pkt dgid (frags pkt) i)"
    "unat (oh_frag_index (frag_header pkt dgid (frags pkt) i)) = i"
    "unat (oh_frag_count (frag_header pkt dgid (frags pkt) i)) = frags pkt"
    "unat (oh_ip_total_len (frag_header pkt dgid (frags pkt) i)) = length pkt"
proof -
  note b = frags_bounds [OF assms(1)]
  have len: "20 \<le> length pkt" "length pkt \<le> 65535" using assms(1) by (auto simp: sendable_def)
  have u: "unat (of_nat i :: byte) = i" "unat (of_nat (frags pkt) :: byte) = frags pkt"
    "unat (of_nat (length pkt) :: u16) = length pkt"
    using assms(2) b(2) len(2) by (simp_all add: unat_of_nat)
  have "(of_nat (frags pkt) :: byte) \<noteq> 0" using u(2) b(1) by (metis unat_0 less_irrefl)
  then show "overlay_wf (frag_header pkt dgid (frags pkt) i)"
    using assms(2) b len u by (simp add: overlay_wf_def frag_header_def)
  show "unat (oh_frag_index (frag_header pkt dgid (frags pkt) i)) = i"
    "unat (oh_frag_count (frag_header pkt dgid (frags pkt) i)) = frags pkt"
    "unat (oh_ip_total_len (frag_header pkt dgid (frags pkt) i)) = length pkt"
    using u by (simp_all add: frag_header_def)
qed

lemma expected_frag_len_sent:
  assumes "sendable pkt" "i < frags pkt"
  shows "expected_frag_len (frag_header pkt dgid (frags pkt) i) = length (frag_body pkt i)"
proof -
  note b = frags_bounds [OF assms(1)] and h = frag_header_wf [OF assms, of dgid]
  have e: "expected_frag_len (frag_header pkt dgid (frags pkt) i) =
      (if i + 1 < frags pkt then 1225 else length pkt - (frags pkt - 1) * 1225)"
    using h(2-4) by (simp add: expected_frag_len_def overlay_values Let_def)
  show ?thesis
  proof (cases "i + 1 < frags pkt")
    case True
    then have "(i + 1) * 1225 \<le> (frags pkt - 1) * 1225" by (intro mult_le_mono1) simp
    then show ?thesis using True b unfolding e length_block by simp
  next
    case False
    then have i: "frags pkt - 1 = i" using assms(2) by simp
    have "frags pkt * 1225 = i * 1225 + 1225" using i b(1) by (cases "frags pkt") simp_all
    then show ?thesis using False b unfolding e length_block i by simp
  qed
qed

text \<open>Every slot of a fragmented packet has the payload length, decodes to its header, carries its
  body after it and is zero from there on.\<close>

lemma frag_slot_facts:
  fixes dgid :: u64
  assumes "sendable pkt" "i < frags pkt"
  defines "slot \<equiv> frag_slot pkt dgid (frags pkt) (crc32 pkt) i" and "h \<equiv> frag_header pkt dgid (frags pkt) i"
  shows "length slot = PAYLOAD_LEN" "overlay_decode slot = Inr h"
    "slice 20 (20 + expected_frag_len h) slot = frag_body pkt i"
    "slice (20 + expected_frag_len h) PAYLOAD_LEN slot = replicate (1225 - expected_frag_len h) 0"
proof -
  have e: "expected_frag_len h = length (frag_body pkt i)"
    unfolding h_def by (rule expected_frag_len_sent [OF assms(1,2)])
  have slot: "slot = overlay_encode h @ frag_body pkt i @ replicate (1225 - expected_frag_len h) 0"
    unfolding slot_def h_def by (simp add: frag_slot_eq e [unfolded h_def])
  have wf: "overlay_wf h" unfolding h_def by (rule frag_header_wf(1) [OF assms(1,2)])
  have lh: "length (overlay_encode h) = 20" using overlay.enc_length [OF wf] by (simp add: overlay_values)
  have lb: "expected_frag_len h \<le> 1225" using expected_frag_len_bounds [OF wf] by simp
  show len: "length slot = PAYLOAD_LEN" using slot lh lb e by (simp add: layout_values)
  show "slice 20 (20 + expected_frag_len h) slot = frag_body pkt i"
    "slice (20 + expected_frag_len h) PAYLOAD_LEN slot = replicate (1225 - expected_frag_len h) 0"
    using slot lh lb e by (simp_all add: slice_def layout_values)
  show "overlay_decode slot = Inr h"
    using overlay_decode_front [OF wf] slot by simp
qed

section \<open>Properties\<close>

lemma concat_blocks: "concat (map (\<lambda>i. block B i xs) [0..<n]) = take (n * B) xs"
proof (induction n)
  case 0
  then show ?case by simp
next
  case (Suc n)
  have "take (n * B) xs @ block B n xs = take (n * B + B) xs"
    unfolding block_def slice_def take_add by (cases "n * B + B \<le> length xs") (simp_all add: min_def)
  then show ?case using Suc by (simp add: add.commute)
qed

text \<open>An overlay header decodes exactly when it is the 20-byte encoding of a header whose version,
  flags and reserved fields are fixed and whose index, count and total length are consistent.\<close>

lemma overlay_decode_exact:
  "overlay_decode bs = Inr h \<longleftrightarrow> overlay_wf h \<and> (\<exists>rest. bs = overlay_encode h @ rest)"
proof
  assume "overlay_decode bs = Inr h"
  from overlay_decode_sound [OF this] show "overlay_wf h \<and> (\<exists>rest. bs = overlay_encode h @ rest)"
    using append_take_drop_id [of OVERLAY_HEADER_LEN bs] by metis
qed (use overlay_decode_front in blast)

text \<open>The table-driven CRC-32 computes the bit-by-bit CRC of the same polynomial on every input.\<close>

lemma crc32_table_driven: "crc32 data = crc32_bitwise data"
  by (rule crc32_eq_bitwise)

text \<open>C37: fragmentation succeeds exactly on a valid IP packet of 20 to 65535 bytes whose declared length
  is its length, and then gives at most 54 slots of exactly one payload each; slot \<open>i\<close> decodes to a
  header with index \<open>i\<close>, and the fragment bodies concatenate to the packet.\<close>

theorem fragmentation_partitions:
  assumes "fragment_ip_packet pkt dgid = Inr slots"
  shows "sendable pkt \<and> 0 < length slots \<and> length slots \<le> MAX_FRAG_COUNT \<and>
    (\<forall>i < length slots. length (slots ! i) = PAYLOAD_LEN \<and>
       (\<exists>h. overlay_decode (slots ! i) = Inr h \<and> unat (oh_frag_index h) = i \<and>
            unat (oh_frag_count h) = length slots \<and> oh_datagram_id h = dgid)) \<and>
    concat (map (\<lambda>s. case overlay_decode s of Inl _ \<Rightarrow> []
        | Inr h \<Rightarrow> slice OVERLAY_HEADER_LEN (OVERLAY_HEADER_LEN + expected_frag_len h) s) slots) = pkt"
proof -
  have s: "sendable pkt" using assms fragment_ok_iff [of pkt dgid] by simp
  have slots: "slots = map (frag_slot pkt dgid (frags pkt) (crc32 pkt)) [0..<frags pkt]"
    using fragment_ok [OF s, of dgid] assms by simp
  note b = frags_bounds [OF s]
  have body: "(case overlay_decode (frag_slot pkt dgid (frags pkt) (crc32 pkt) i) of Inl _ \<Rightarrow> []
      | Inr h \<Rightarrow> slice OVERLAY_HEADER_LEN (OVERLAY_HEADER_LEN + expected_frag_len h)
          (frag_slot pkt dgid (frags pkt) (crc32 pkt) i)) = frag_body pkt i" if "i < frags pkt" for i
    using frag_slot_facts(2,3) [OF s that, of dgid] by (simp add: overlay_values)
  have "map (\<lambda>s. case overlay_decode s of Inl _ \<Rightarrow> []
        | Inr h \<Rightarrow> slice OVERLAY_HEADER_LEN (OVERLAY_HEADER_LEN + expected_frag_len h) s) slots =
      map (frag_body pkt) [0..<frags pkt]"
    unfolding slots map_map comp_def by (rule map_cong) (use body in auto)
  then have cc: "concat (map (\<lambda>s. case overlay_decode s of Inl _ \<Rightarrow> []
        | Inr h \<Rightarrow> slice OVERLAY_HEADER_LEN (OVERLAY_HEADER_LEN + expected_frag_len h) s) slots) = pkt"
    using concat_blocks [of 1225 pkt "frags pkt"] b(4) by simp
  have each: "length (slots ! i) = PAYLOAD_LEN \<and>
       (\<exists>h. overlay_decode (slots ! i) = Inr h \<and> unat (oh_frag_index h) = i \<and>
            unat (oh_frag_count h) = length slots \<and> oh_datagram_id h = dgid)" if "i < length slots" for i
  proof -
    have i: "i < frags pkt" and e: "slots ! i = frag_slot pkt dgid (frags pkt) (crc32 pkt) i"
      using that slots by simp_all
    show ?thesis
      unfolding e using frag_slot_facts(1,2) [OF s i, of dgid] frag_header_wf(2,3) [OF s i, of dgid] slots
      by (simp add: frag_header_def)
  qed
  have l: "length slots = frags pkt" using slots by simp
  show ?thesis
  proof (intro conjI)
    show "length slots \<le> MAX_FRAG_COUNT" using b(2) unfolding l overlay_values(3) .
    show "0 < length slots" using b(1) unfolding l .
  qed (use s each cc in blast)+
qed

definition demo_packet :: bytes where
  "demo_packet = [0x45, 0, 0, 20, 0, 0, 0, 0, 64, 17, 0, 0, 10, 0, 0, 1, 10, 0, 0, 2]"

lemma demo_packet_sendable: "sendable demo_packet"
proof -
  have "drop_bit 4 (0x45 :: byte) = 4" "unat ((0x45 :: byte) AND 0x0F) * 4 = 20"
    "unat (from_be [0, 20] :: u16) = 20"
    by code_simp+
  then show ?thesis
    by (simp add: sendable_def demo_packet_def validate_ip_packet_def declared_ip_len_def overlay_values Let_def)
qed

theorem fragmentation_partitions_witness:
  "\<exists>slots. fragment_ip_packet demo_packet 9 = Inr slots \<and> 0 < length slots \<and>
    concat (map (\<lambda>s. case overlay_decode s of Inl _ \<Rightarrow> []
        | Inr h \<Rightarrow> slice OVERLAY_HEADER_LEN (OVERLAY_HEADER_LEN + expected_frag_len h) s) slots) = demo_packet"
proof -
  obtain slots where f: "fragment_ip_packet demo_packet 9 = Inr slots"
    using fragment_ok [OF demo_packet_sendable] by blast
  show ?thesis using fragmentation_partitions [OF f] f by blast
qed

end
