(* ===== verification/Reassembly.thy ===== *)
theory Reassembly
  imports Overlay
begin

text \<open>
  The reassembler of \<open>pq-tunnel-core/src/dataplane.rs\<close>. Its invariant bounds entries and bytes and
  keeps every buffer access in range; whatever it completes is a packet the sender's own checks
  accept; and the fragments of one packet, fed in any order with any repetitions, give that packet
  back exactly once.
\<close>

section \<open>State\<close>

definition MAX_ENTRIES_PER_SESSION :: nat where "MAX_ENTRIES_PER_SESSION = 256"
definition MAX_BYTES_PER_SESSION :: nat where "MAX_BYTES_PER_SESSION = 16 * 1024 * 1024"
definition DEFAULT_REASSEMBLY_DEADLINE :: duration where "DEFAULT_REASSEMBLY_DEADLINE = from_secs 2"

datatype FeedOutcome =
    Pending
  | DuplicateIgnored
  | Poisoned
  | DroppedCap
  | InvalidHeader OverlayError
  | Malformed
  | Complete bytes

record Entry =
  en_frag_count :: byte
  en_ip_total_len :: nat
  en_datagram_crc :: u32
  en_received :: "bool list"
  en_buf :: bytes
  en_received_count :: nat
  en_poisoned :: bool
  en_has_fragment0 :: bool
  en_fragment0_valid :: bool
  en_deadline :: instant

record Reassembler =
  ra_entries :: "(u64, Entry) table"
  ra_max_entries :: nat
  ra_max_bytes :: nat
  ra_current_bytes :: nat
  ra_deadline :: duration

definition reassembler_with_caps :: "duration \<Rightarrow> nat \<Rightarrow> nat \<Rightarrow> Reassembler" where
  "reassembler_with_caps deadline max_entries max_bytes =
     \<lparr>ra_entries = [], ra_max_entries = max_entries, ra_max_bytes = max_bytes,
      ra_current_bytes = 0, ra_deadline = deadline\<rparr>"

definition reassembler_new :: "duration \<Rightarrow> Reassembler" where
  "reassembler_new deadline =
     \<lparr>ra_entries = [], ra_max_entries = MAX_ENTRIES_PER_SESSION, ra_max_bytes = MAX_BYTES_PER_SESSION,
      ra_current_bytes = 0, ra_deadline = deadline\<rparr>"

section \<open>Operations\<close>

definition drop_entry_bytes :: "u64 \<Rightarrow> Reassembler \<Rightarrow> Reassembler" where
  "drop_entry_bytes k r =
     (case map_of (ra_entries r) k of
        None \<Rightarrow> r
      | Some e \<Rightarrow> r\<lparr>ra_entries := AList.delete k (ra_entries r),
                   ra_current_bytes := ra_current_bytes r - en_ip_total_len e\<rparr>)"

definition reassembler_expire :: "instant \<Rightarrow> Reassembler \<Rightarrow> Reassembler" where
  "reassembler_expire now r =
     (let to_remove = map fst (filter (\<lambda>(k, e). en_deadline e \<le> now) (ra_entries r))
      in fold drop_entry_bytes to_remove r)"

definition reassembler_clear :: "Reassembler \<Rightarrow> Reassembler" where
  "reassembler_clear r = r\<lparr>ra_entries := [], ra_current_bytes := 0\<rparr>"

text \<open>Creating the entry of a datagram seen for the first time.\<close>

definition feed_create ::
  "OverlayHeader \<Rightarrow> bool \<Rightarrow> instant \<Rightarrow> Reassembler \<Rightarrow> FeedOutcome + Reassembler" where
  "feed_create hdr trailing_bad now r =
     (let k = oh_datagram_id hdr in
      if contains_key k (ra_entries r) then Inr r
      else if trailing_bad then Inl Malformed
      else if length (ra_entries r) \<ge> ra_max_entries r then Inl DroppedCap
      else let ipt = unat (oh_ip_total_len hdr) in
        if ra_current_bytes r + ipt > ra_max_bytes r then Inl DroppedCap
        else let fc = unat (oh_frag_count hdr);
                 entry = \<lparr>en_frag_count = oh_frag_count hdr, en_ip_total_len = ipt,
                   en_datagram_crc = oh_datagram_crc hdr, en_received = replicate fc False,
                   en_buf = replicate ipt 0, en_received_count = 0, en_poisoned = False,
                   en_has_fragment0 = False, en_fragment0_valid = False,
                   en_deadline = now + ra_deadline r\<rparr>
             in Inr (r\<lparr>ra_entries := AList.update k entry (ra_entries r),
                       ra_current_bytes := ra_current_bytes r + ipt\<rparr>))"

text \<open>Writing a fragment that was not there yet; fragment 0 also decides whether the IP header
  matches.\<close>

definition written :: "OverlayHeader \<Rightarrow> bytes \<Rightarrow> Entry \<Rightarrow> Entry" where
  "written hdr slot e =
     (let idx = unat (oh_frag_index hdr);
          newbytes = slice OVERLAY_HEADER_LEN (OVERLAY_HEADER_LEN + expected_frag_len hdr) slot;
          e1 = e\<lparr>en_buf := copy_at (idx * FRAG_CAP) newbytes (en_buf e),
                 en_received := (en_received e)[idx := True],
                 en_received_count := en_received_count e + 1\<rparr>
      in if idx = 0
         then e1\<lparr>en_has_fragment0 := True,
                 en_fragment0_valid := is_Ok (validate_ip_header_at (en_buf e1) (en_ip_total_len e1))\<rparr>
         else e1)"

text \<open>Adding a fragment to its entry: poisoning, duplicates, the write, completion.\<close>

definition feed_entry :: "OverlayHeader \<Rightarrow> bytes \<Rightarrow> bool \<Rightarrow> Entry \<Rightarrow> FeedOutcome \<times> Entry" where
  "feed_entry hdr slot trailing_bad e =
     (if en_poisoned e then (Poisoned, e)
      else if en_frag_count e \<noteq> oh_frag_count hdr \<or> en_ip_total_len e \<noteq> unat (oh_ip_total_len hdr) \<or>
              en_datagram_crc e \<noteq> oh_datagram_crc hdr
      then (Poisoned, e\<lparr>en_poisoned := True\<rparr>)
      else if trailing_bad then (Poisoned, e\<lparr>en_poisoned := True\<rparr>)
      else
        let idx = unat (oh_frag_index hdr);
            frag_len = expected_frag_len hdr;
            offset = idx * FRAG_CAP
        in if en_received e ! idx then
             (if slice offset (offset + frag_len) (en_buf e) =
                 slice OVERLAY_HEADER_LEN (OVERLAY_HEADER_LEN + frag_len) slot
              then (DuplicateIgnored, e)
              else (Poisoned, e\<lparr>en_poisoned := True\<rparr>))
           else
             let e2 = written hdr slot e
             in if idx = 0 \<and> \<not> en_fragment0_valid e2 then (Poisoned, e2\<lparr>en_poisoned := True\<rparr>)
                else if en_received_count e2 = unat (en_frag_count e2) \<and> en_has_fragment0 e2 \<and>
                        en_fragment0_valid e2 then
                  (if crc32 (take (en_ip_total_len e2) (en_buf e2)) \<noteq> en_datagram_crc e2
                   then (Poisoned, e2\<lparr>en_poisoned := True\<rparr>)
                   else (Complete (en_buf e2), e2))
                else (Pending, e2))"

definition feed :: "bytes \<Rightarrow> instant \<Rightarrow> Reassembler \<Rightarrow> FeedOutcome \<times> Reassembler" where
  "feed slot now r0 =
     (let r = reassembler_expire now r0 in
      case overlay_decode slot of
        Inl err \<Rightarrow> (InvalidHeader err, r)
      | Inr hdr \<Rightarrow>
          let expected = expected_frag_len hdr;
              trailing_bad = list_ex (\<lambda>b. b \<noteq> 0) (slice (OVERLAY_HEADER_LEN + expected) PAYLOAD_LEN slot);
              k = oh_datagram_id hdr
          in (case feed_create hdr trailing_bad now r of
                Inl out \<Rightarrow> (out, r)
              | Inr r1 \<Rightarrow>
                  (case map_of (ra_entries r1) k of
                     None \<Rightarrow> (Malformed, r1)
                   | Some e \<Rightarrow>
                       let (out, e1) = feed_entry hdr slot trailing_bad e
                       in (case out of
                             Complete buf \<Rightarrow>
                               (out, r1\<lparr>ra_entries := AList.delete k (ra_entries r1),
                                        ra_current_bytes := ra_current_bytes r1 - en_ip_total_len e1\<rparr>)
                           | _ \<Rightarrow> (out, r1\<lparr>ra_entries := AList.update k e1 (ra_entries r1)\<rparr>)))))"

text \<open>The \<open>None\<close> branch stands for the \<open>expect\<close> after the insertion and is never taken
  (\<open>feed_create_present\<close>).\<close>

lemma feed_create_present:
  "feed_create hdr tb now r = Inr r1 \<Longrightarrow> contains_key (oh_datagram_id hdr) (ra_entries r1)"
  by (auto simp: feed_create_def Let_def table_simps split: if_splits)

section \<open>Invariant\<close>

definition entry_wf :: "Entry \<Rightarrow> bool" where
  "entry_wf e \<longleftrightarrow> 0 < unat (en_frag_count e) \<and> unat (en_frag_count e) \<le> 54 \<and>
     en_ip_total_len e \<le> 65535 \<and> (unat (en_frag_count e) - 1) * 1225 < en_ip_total_len e \<and>
     en_ip_total_len e \<le> unat (en_frag_count e) * 1225 \<and>
     length (en_received e) = unat (en_frag_count e) \<and> length (en_buf e) = en_ip_total_len e \<and>
     en_received_count e = length (filter (\<lambda>b. b) (en_received e)) \<and>
     (\<not> en_poisoned e \<longrightarrow> (en_has_fragment0 e \<longleftrightarrow> en_received e ! 0) \<and>
        (en_has_fragment0 e \<longrightarrow> en_fragment0_valid e \<and>
           validate_ip_header_at (en_buf e) (en_ip_total_len e) = Inr ()))"

definition table_bytes :: "(u64, Entry) table \<Rightarrow> nat" where
  "table_bytes t = sum_list (map (en_ip_total_len \<circ> snd) t)"

definition reasm_inv :: "Reassembler \<Rightarrow> bool" where
  "reasm_inv r \<longleftrightarrow> table_ok (ra_entries r) \<and> length (ra_entries r) \<le> ra_max_entries r \<and>
     ra_current_bytes r = table_bytes (ra_entries r) \<and> ra_current_bytes r \<le> ra_max_bytes r \<and>
     (\<forall>k e. map_of (ra_entries r) k = Some e \<longrightarrow> entry_wf e)"

lemma table_bytes_delete:
  "table_ok t \<Longrightarrow> map_of t k = Some e \<Longrightarrow> table_bytes (AList.delete k t) + en_ip_total_len e = table_bytes t"
proof (induction t)
  case Nil
  then show ?case by simp
next
  case (Cons x t)
  obtain a b where x: "x = (a, b)" by (cases x)
  have ok: "table_ok t" and a: "a \<notin> fst ` set t" using Cons.prems x by (simp_all add: table_ok_def)
  show ?case
  proof (cases "k = a")
    case True
    then have "AList.delete k t = t" using a by (simp add: delete_id)
    then show ?thesis using True Cons.prems x by (simp add: table_bytes_def)
  next
    case False
    then show ?thesis using Cons.IH [OF ok] Cons.prems x by (simp add: table_bytes_def)
  qed
qed

lemma table_bytes_insert:
  "\<not> contains_key k t \<Longrightarrow> table_bytes (AList.update k e t) = table_bytes t + en_ip_total_len e"
  by (induction t) (auto simp: table_bytes_def contains_key_def)

lemma table_bytes_replace:
  "table_ok t \<Longrightarrow> map_of t k = Some e \<Longrightarrow> en_ip_total_len e1 = en_ip_total_len e \<Longrightarrow>
   table_bytes (AList.update k e1 t) = table_bytes t"
  by (induction t) (auto simp: table_bytes_def table_ok_def)

lemma reasm_inv_drop: "reasm_inv r \<Longrightarrow> reasm_inv (drop_entry_bytes k r)"
proof (cases "map_of (ra_entries r) k")
  case None
  then show "reasm_inv r \<Longrightarrow> ?thesis" by (simp add: drop_entry_bytes_def)
next
  case (Some e)
  assume inv: "reasm_inv r"
  have "table_bytes (AList.delete k (ra_entries r)) + en_ip_total_len e = ra_current_bytes r"
    using table_bytes_delete [OF _ Some] inv by (simp add: reasm_inv_def)
  moreover have "length (AList.delete k (ra_entries r)) \<le> length (ra_entries r)"
    by (rule length_delete_le)
  ultimately show ?thesis
    using inv Some by (auto simp: drop_entry_bytes_def reasm_inv_def table_simps split: if_splits)
qed

lemma reasm_inv_fold: "reasm_inv r \<Longrightarrow> reasm_inv (fold drop_entry_bytes ks r)"
  by (induction ks arbitrary: r) (simp_all add: reasm_inv_drop)

lemma reasm_inv_expire: "reasm_inv r \<Longrightarrow> reasm_inv (reassembler_expire now r)"
  by (simp add: reassembler_expire_def reasm_inv_fold)

text \<open>Expiry removes exactly the entries whose deadline has come and leaves the caps alone.\<close>

lemma fold_drop_lookup:
  "map_of (ra_entries (fold drop_entry_bytes ks r)) k =
     (if k \<in> set ks then None else map_of (ra_entries r) k)"
  by (induction ks arbitrary: r)
     (auto simp: drop_entry_bytes_def table_simps split: option.splits)

lemma fold_drop_caps:
  "ra_max_entries (fold drop_entry_bytes ks r) = ra_max_entries r \<and>
   ra_max_bytes (fold drop_entry_bytes ks r) = ra_max_bytes r \<and>
   ra_deadline (fold drop_entry_bytes ks r) = ra_deadline r \<and>
   length (ra_entries (fold drop_entry_bytes ks r)) \<le> length (ra_entries r) \<and>
   ra_current_bytes (fold drop_entry_bytes ks r) \<le> ra_current_bytes r"
proof (induction ks arbitrary: r)
  case Nil
  then show ?case by simp
next
  case (Cons k ks)
  let ?r1 = "drop_entry_bytes k r"
  have "ra_max_entries ?r1 = ra_max_entries r" "ra_max_bytes ?r1 = ra_max_bytes r"
    "ra_deadline ?r1 = ra_deadline r" "length (ra_entries ?r1) \<le> length (ra_entries r)"
    "ra_current_bytes ?r1 \<le> ra_current_bytes r"
    using length_delete_le [of k "ra_entries r"]
    by (simp_all add: drop_entry_bytes_def split: option.splits)
  then show ?case using Cons.IH [of ?r1] by simp
qed

lemma expire_lookup:
  assumes "table_ok (ra_entries r)"
  shows "map_of (ra_entries (reassembler_expire now r)) k =
    (case map_of (ra_entries r) k of
       None \<Rightarrow> None | Some e \<Rightarrow> if en_deadline e \<le> now then None else Some e)"
proof -
  have "k \<in> set (map fst (filter (\<lambda>(k, e). en_deadline e \<le> now) (ra_entries r))) \<longleftrightarrow>
      (\<exists>e. map_of (ra_entries r) k = Some e \<and> en_deadline e \<le> now)"
    using assms by (force simp: table_ok_def)
  then show ?thesis
    by (auto simp: reassembler_expire_def fold_drop_lookup Let_def split: option.splits)
qed

lemma new_entry_wf:
  assumes "overlay_wf hdr"
  shows "entry_wf \<lparr>en_frag_count = oh_frag_count hdr, en_ip_total_len = unat (oh_ip_total_len hdr),
     en_datagram_crc = c, en_received = replicate (unat (oh_frag_count hdr)) False,
     en_buf = replicate (unat (oh_ip_total_len hdr)) 0, en_received_count = 0, en_poisoned = False,
     en_has_fragment0 = False, en_fragment0_valid = False, en_deadline = d\<rparr>"
  using assms u16_bound [of "oh_ip_total_len hdr"] unat_gt_0 [of "oh_frag_count hdr"]
  by (simp add: entry_wf_def overlay_wf_def)

lemma reasm_inv_create:
  assumes "reasm_inv r" "overlay_wf hdr" "feed_create hdr tb now r = Inr r1"
  shows "reasm_inv r1"
proof (cases "contains_key (oh_datagram_id hdr) (ra_entries r)")
  case True
  then show ?thesis using assms by (simp add: feed_create_def)
next
  case False
  then show ?thesis
    using assms new_entry_wf [OF assms(2)]
    by (auto simp: feed_create_def reasm_inv_def Let_def table_bytes_insert length_update table_simps
        split: if_splits)
qed

lemma count_set_true:
  "i < length xs \<Longrightarrow> \<not> xs ! i \<Longrightarrow>
   length (filter (\<lambda>b. b) (xs[i := True])) = Suc (length (filter (\<lambda>b. b) xs))"
  by (induction xs arbitrary: i) (auto simp: nth_Cons split: nat.splits)

lemma count_le: "length (filter (\<lambda>b. b) xs) = length xs \<longleftrightarrow> (\<forall>i < length xs. xs ! i)"
proof (induction xs)
  case Nil
  then show ?case by simp
next
  case (Cons x xs)
  have "length (filter (\<lambda>b. b) xs) \<noteq> Suc (length xs)"
    using length_filter_le [of "\<lambda>b. b" xs] by linarith
  then show ?case using Cons.IH by (cases x) (simp_all add: All_less_Suc2)
qed

text \<open>What a header says about an entry it matches.\<close>

definition header_matches :: "OverlayHeader \<Rightarrow> Entry \<Rightarrow> bool" where
  "header_matches hdr e \<longleftrightarrow> en_frag_count e = oh_frag_count hdr \<and>
     en_ip_total_len e = unat (oh_ip_total_len hdr) \<and> en_datagram_crc e = oh_datagram_crc hdr"

lemma feed_entry_written:
  fixes slot :: bytes
  assumes "\<not> en_poisoned e" "header_matches hdr e" "\<not> tb" "\<not> en_received e ! unat (oh_frag_index hdr)"
  defines "e2 \<equiv> written hdr slot e"
  shows "feed_entry hdr slot tb e =
    (if oh_frag_index hdr = 0 \<and> \<not> en_fragment0_valid e2 then (Poisoned, e2\<lparr>en_poisoned := True\<rparr>)
     else if en_received_count e2 = unat (en_frag_count e2) \<and> en_has_fragment0 e2 \<and> en_fragment0_valid e2
     then (if crc32 (take (en_ip_total_len e2) (en_buf e2)) \<noteq> en_datagram_crc e2
           then (Poisoned, e2\<lparr>en_poisoned := True\<rparr>) else (Complete (en_buf e2), e2))
     else (Pending, e2))"
proof -
  have z: "unat (oh_frag_index hdr) = 0 \<longleftrightarrow> oh_frag_index hdr = 0" by (simp add: unat_eq_0)
  show ?thesis
    using assms(1-4) unfolding e2_def feed_entry_def header_matches_def by (simp add: Let_def z)
qed

lemma feed_entry_other:
  assumes "en_poisoned e \<or> \<not> header_matches hdr e \<or> tb \<or> en_received e ! unat (oh_frag_index hdr)"
  shows "feed_entry hdr slot tb e \<in> {(Poisoned, e), (Poisoned, e\<lparr>en_poisoned := True\<rparr>), (DuplicateIgnored, e)}"
proof -
  consider "en_poisoned e" | "\<not> en_poisoned e" "\<not> header_matches hdr e"
    | "\<not> en_poisoned e" "header_matches hdr e" "tb"
    | "\<not> en_poisoned e" "header_matches hdr e" "\<not> tb" "en_received e ! unat (oh_frag_index hdr)"
    using assms by blast
  then show ?thesis
    by cases (auto simp: feed_entry_def header_matches_def Let_def)
qed

lemma written_wf:
  fixes slot :: bytes
  assumes wf: "entry_wf e" and np: "\<not> en_poisoned e" and hw: "overlay_wf hdr"
    and m: "header_matches hdr e"
    and new: "\<not> en_received e ! unat (oh_frag_index hdr)"
  defines "e2 \<equiv> written hdr slot e"
  shows "en_fragment0_valid e2 \<or> oh_frag_index hdr \<noteq> 0 \<Longrightarrow> entry_wf e2"
    "entry_wf (e2\<lparr>en_poisoned := True\<rparr>)" "en_ip_total_len e2 = en_ip_total_len e" "\<not> en_poisoned e2"
proof -
  let ?i = "unat (oh_frag_index hdr)" and ?n = "expected_frag_len hdr"
  let ?nb = "slice 20 (20 + ?n) slot" and ?buf = "copy_at (?i * 1225) (slice 20 (20 + ?n) slot) (en_buf e)"
  note b = expected_frag_len_bounds [OF hw]
  have idx: "?i < length (en_received e)" using wf m hw by (simp add: entry_wf_def header_matches_def overlay_wf_def)
  have nb: "length ?nb \<le> ?n" by simp
  have fit: "?i * 1225 + length ?nb \<le> length (en_buf e)"
  proof -
    have "length (en_buf e) = unat (oh_ip_total_len hdr)" using wf m by (simp add: entry_wf_def header_matches_def)
    then show ?thesis using b nb by linarith
  qed
  have len: "length ?buf = en_ip_total_len e" using fit wf by (simp add: entry_wf_def)
  have cnt: "length (filter (\<lambda>b. b) ((en_received e)[?i := True])) = Suc (en_received_count e)"
    using count_set_true [OF idx new] wf by (simp add: entry_wf_def)
  have z: "?i = 0 \<longleftrightarrow> oh_frag_index hdr = 0" by (simp add: unat_eq_0)
  have keep: "validate_ip_header_at ?buf (en_ip_total_len e) = validate_ip_header_at (en_buf e) (en_ip_total_len e)"
    if "?i \<noteq> 0"
  proof (rule validate_prefix)
    have "1225 \<le> ?i * 1225" using that by simp
    then show "take 1225 ?buf = take 1225 (en_buf e)"
      using fit by (simp add: copy_at_def min_absorb1)
    show "1 \<le> en_ip_total_len e" using wf by (simp add: entry_wf_def)
  qed (use len wf in \<open>simp_all add: entry_wf_def\<close>)
  have r0: "(en_received e)[?i := True] ! 0 = (?i = 0 \<or> en_received e ! 0)"
    using idx by (cases "?i = 0") simp_all
  show "en_ip_total_len e2 = en_ip_total_len e" "\<not> en_poisoned e2"
    using np by (simp_all add: e2_def written_def overlay_values Let_def)
  show "entry_wf e2" if "en_fragment0_valid e2 \<or> oh_frag_index hdr \<noteq> 0"
  proof (cases "?i = 0")
    case True
    then have "validate_ip_header_at ?buf (en_ip_total_len e) = Inr ()"
      using that z by (auto simp: e2_def written_def overlay_values Let_def is_Ok_iff)
    then show ?thesis
      using wf np len cnt r0 True by (simp add: e2_def written_def overlay_values entry_wf_def Let_def)
  next
    case False
    then show ?thesis
      using wf np len cnt r0 keep by (simp add: e2_def written_def overlay_values entry_wf_def Let_def)
  qed
  show "entry_wf (e2\<lparr>en_poisoned := True\<rparr>)"
  proof (cases "?i = 0")
    case True
    then show ?thesis using wf len cnt by (simp add: e2_def written_def overlay_values entry_wf_def Let_def)
  next
    case False
    then show ?thesis using wf len cnt by (simp add: e2_def written_def overlay_values entry_wf_def Let_def)
  qed
qed

text \<open>One fragment, from a well-formed entry: the entry stays well formed, and a completed buffer
  passes the sender's checks and has the announced checksum.\<close>

lemma feed_entry_sound:
  assumes wf: "entry_wf e" and hw: "overlay_wf hdr"
    and f: "feed_entry hdr slot tb e = (out, e1)"
  shows "entry_wf e1" "en_ip_total_len e1 = en_ip_total_len e"
    "out = Complete buf \<Longrightarrow> validate_ip_packet buf = Inr (length buf) \<and> crc32 buf = oh_datagram_crc hdr \<and>
       length buf = unat (oh_ip_total_len hdr)"
proof -
  let ?new = "\<not> en_poisoned e \<and> header_matches hdr e \<and> \<not> tb \<and> \<not> en_received e ! unat (oh_frag_index hdr)"
  have pois: "entry_wf (e\<lparr>en_poisoned := True\<rparr>)" using wf by (simp add: entry_wf_def)
  have "entry_wf e1 \<and> en_ip_total_len e1 = en_ip_total_len e \<and>
    (\<forall>buf. out = Complete buf \<longrightarrow> validate_ip_packet buf = Inr (length buf) \<and>
       crc32 buf = oh_datagram_crc hdr \<and> length buf = unat (oh_ip_total_len hdr))"
  proof (cases ?new)
    case False
    then show ?thesis using feed_entry_other [of e hdr tb slot] f wf pois by auto
  next
    case True
    let ?e2 = "written hdr slot e"
    have W: "en_fragment0_valid ?e2 \<or> oh_frag_index hdr \<noteq> 0 \<Longrightarrow> entry_wf ?e2"
      "entry_wf (?e2\<lparr>en_poisoned := True\<rparr>)" "en_ip_total_len ?e2 = en_ip_total_len e" "\<not> en_poisoned ?e2"
      using written_wf [OF wf _ hw] True by blast+
    have crc: "en_datagram_crc ?e2 = oh_datagram_crc hdr"
      using True by (simp add: written_def header_matches_def Let_def)
    have complete: "validate_ip_packet (en_buf ?e2) = Inr (length (en_buf ?e2))"
      "length (en_buf ?e2) = unat (oh_ip_total_len hdr)"
      if v: "en_fragment0_valid ?e2" "en_has_fragment0 ?e2"
    proof -
      have wf2: "entry_wf ?e2" using W(1) v(1) by blast
      then have l: "length (en_buf ?e2) = en_ip_total_len ?e2" "en_buf ?e2 \<noteq> []"
        "validate_ip_header_at (en_buf ?e2) (length (en_buf ?e2)) = Inr ()"
        using v(2) W(4) by (auto simp: entry_wf_def)
      then show "validate_ip_packet (en_buf ?e2) = Inr (length (en_buf ?e2))"
        using validate_agree by blast
      show "length (en_buf ?e2) = unat (oh_ip_total_len hdr)"
        using l(1) W(3) True by (simp add: header_matches_def)
    qed
    have crc2: "take (en_ip_total_len ?e2) (en_buf ?e2) = en_buf ?e2"
      if "en_fragment0_valid ?e2" using W(1) that by (simp add: entry_wf_def)
    show ?thesis
      using f feed_entry_written [of e hdr tb slot] True W complete crc crc2
      by (auto split: if_splits)
  qed
  then show "entry_wf e1" "en_ip_total_len e1 = en_ip_total_len e"
    "out = Complete buf \<Longrightarrow> validate_ip_packet buf = Inr (length buf) \<and> crc32 buf = oh_datagram_crc hdr \<and>
       length buf = unat (oh_ip_total_len hdr)" by blast+
qed

lemma feed_cases:
  obtains (invalid) err where "overlay_decode slot = Inl err"
      "feed slot now r = (InvalidHeader err, reassembler_expire now r)"
  | (dropped) hdr out where "overlay_decode slot = Inr hdr" "out = Malformed \<or> out = DroppedCap"
      "feed slot now r = (out, reassembler_expire now r)"
  | (entry) hdr tb r1 e out e1 where "overlay_decode slot = Inr hdr"
      "tb = list_ex (\<lambda>b. b \<noteq> 0) (slice (OVERLAY_HEADER_LEN + expected_frag_len hdr) PAYLOAD_LEN slot)"
      "feed_create hdr tb now (reassembler_expire now r) = Inr r1"
      "map_of (ra_entries r1) (oh_datagram_id hdr) = Some e" "feed_entry hdr slot tb e = (out, e1)"
      "feed slot now r = (out, if \<exists>buf. out = Complete buf
         then r1\<lparr>ra_entries := AList.delete (oh_datagram_id hdr) (ra_entries r1),
                ra_current_bytes := ra_current_bytes r1 - en_ip_total_len e1\<rparr>
         else r1\<lparr>ra_entries := AList.update (oh_datagram_id hdr) e1 (ra_entries r1)\<rparr>)"
proof (cases "overlay_decode slot")
  case (Inl err)
  then show ?thesis using invalid by (simp add: feed_def)
next
  case (Inr hdr)
  define tb where "tb = list_ex (\<lambda>b. b \<noteq> 0) (slice (OVERLAY_HEADER_LEN + expected_frag_len hdr) PAYLOAD_LEN slot)"
  show ?thesis
  proof (cases "feed_create hdr tb now (reassembler_expire now r)")
    case (Inl out)
    then have "out = Malformed \<or> out = DroppedCap" by (auto simp: feed_create_def Let_def split: if_splits)
    then show ?thesis using dropped [OF Inr] Inl Inr by (simp add: feed_def Let_def tb_def)
  next
    case r1: (Inr r1)
    obtain e where e: "map_of (ra_entries r1) (oh_datagram_id hdr) = Some e"
      using feed_create_present [OF r1] by (auto simp: contains_key_def)
    obtain out e1 where f: "feed_entry hdr slot tb e = (out, e1)" by fastforce
    show ?thesis
      by (rule entry [OF Inr tb_def r1 e f])
        (use Inr r1 e f in \<open>simp add: feed_def Let_def tb_def split: FeedOutcome.splits\<close>)
  qed
qed

lemma reasm_inv_lookup: "reasm_inv r \<Longrightarrow> map_of (ra_entries r) k = Some e \<Longrightarrow> entry_wf e"
  by (simp add: reasm_inv_def)

lemma feed_inv: "reasm_inv r \<Longrightarrow> reasm_inv (snd (feed slot now r))"
proof (rule feed_cases [of slot now r])
  fix hdr tb r1 e out e1
  assume inv: "reasm_inv r" and hdr: "overlay_decode slot = Inr hdr"
    and c: "feed_create hdr tb now (reassembler_expire now r) = Inr r1"
    and e: "map_of (ra_entries r1) (oh_datagram_id hdr) = Some e"
    and f: "feed_entry hdr slot tb e = (out, e1)"
    and eq: "feed slot now r = (out, if \<exists>buf. out = Complete buf
         then r1\<lparr>ra_entries := AList.delete (oh_datagram_id hdr) (ra_entries r1),
                ra_current_bytes := ra_current_bytes r1 - en_ip_total_len e1\<rparr>
         else r1\<lparr>ra_entries := AList.update (oh_datagram_id hdr) e1 (ra_entries r1)\<rparr>)"
  have hw: "overlay_wf hdr" using overlay_decode_sound [OF hdr] by blast
  have inv1: "reasm_inv r1" by (rule reasm_inv_create [OF reasm_inv_expire [OF inv] hw c])
  note S = feed_entry_sound [OF reasm_inv_lookup [OF inv1 e] hw f]
  have k: "contains_key (oh_datagram_id hdr) (ra_entries r1)" using e by (simp add: contains_key_def)
  show ?thesis
  proof (cases "\<exists>buf. out = Complete buf")
    case True
    have "drop_entry_bytes (oh_datagram_id hdr) r1 = snd (feed slot now r)"
      using True e S(2) eq by (simp add: drop_entry_bytes_def)
    then show ?thesis using reasm_inv_drop [OF inv1] by metis
  next
    case False
    have "table_bytes (AList.update (oh_datagram_id hdr) e1 (ra_entries r1)) = table_bytes (ra_entries r1)"
      using table_bytes_replace [OF _ e S(2)] inv1 by (simp add: reasm_inv_def)
    then show ?thesis
      using False eq inv1 S(1) k by (auto simp: reasm_inv_def length_update table_simps split: if_splits)
  qed
qed (simp_all add: reasm_inv_expire)

lemma feed_complete_sound:
  assumes "reasm_inv r" "feed slot now r = (Complete buf, r1)"
  shows "validate_ip_packet buf = Inr (length buf)"
    "\<exists>hdr. overlay_decode slot = Inr hdr \<and> crc32 buf = oh_datagram_crc hdr \<and>
       length buf = unat (oh_ip_total_len hdr)"
proof -
  have "validate_ip_packet buf = Inr (length buf) \<and> (\<exists>hdr. overlay_decode slot = Inr hdr \<and>
      crc32 buf = oh_datagram_crc hdr \<and> length buf = unat (oh_ip_total_len hdr))"
  proof (rule feed_cases [of slot now r])
    fix hdr tb r1 e out e1
    assume hdr: "overlay_decode slot = Inr hdr"
      and c: "feed_create hdr tb now (reassembler_expire now r) = Inr r1"
      and e: "map_of (ra_entries r1) (oh_datagram_id hdr) = Some e"
      and f: "feed_entry hdr slot tb e = (out, e1)"
      and eq: "feed slot now r = (out, if \<exists>buf. out = Complete buf
           then r1\<lparr>ra_entries := AList.delete (oh_datagram_id hdr) (ra_entries r1),
                  ra_current_bytes := ra_current_bytes r1 - en_ip_total_len e1\<rparr>
           else r1\<lparr>ra_entries := AList.update (oh_datagram_id hdr) e1 (ra_entries r1)\<rparr>)"
    have hw: "overlay_wf hdr" using overlay_decode_sound [OF hdr] by blast
    have inv1: "reasm_inv r1" by (rule reasm_inv_create [OF reasm_inv_expire [OF assms(1)] hw c])
    have out: "out = Complete buf" using eq assms(2) by simp
    show ?thesis using feed_entry_sound(3) [OF reasm_inv_lookup [OF inv1 e] hw f out] hdr by blast
  qed (use assms(2) in auto)
  then show "validate_ip_packet buf = Inr (length buf)"
    "\<exists>hdr. overlay_decode slot = Inr hdr \<and> crc32 buf = oh_datagram_crc hdr \<and>
       length buf = unat (oh_ip_total_len hdr)" by auto
qed

abbreviation "feed_op op \<equiv> feed (fst op) (snd op)"

interpretation reasm: step_system feed_op reasm_inv
  by unfold_locales (rule feed_inv)

lemma reasm_inv_new: "reasm_inv (reassembler_with_caps d me mb)" "reasm_inv (reassembler_new d)"
  by (simp_all add: reasm_inv_def reassembler_with_caps_def reassembler_new_def table_bytes_def)

section \<open>Fragments of one packet\<close>

text \<open>The entry of a packet of which the fragments in \<open>S\<close> have arrived.\<close>

definition progress :: "bytes \<Rightarrow> nat set \<Rightarrow> instant \<Rightarrow> Entry \<Rightarrow> bool" where
  "progress pkt S d e \<longleftrightarrow> entry_wf e \<and> unat (en_frag_count e) = frags pkt \<and>
     en_ip_total_len e = length pkt \<and> en_datagram_crc e = crc32 pkt \<and> \<not> en_poisoned e \<and>
     en_deadline e = d \<and> (\<forall>i < frags pkt. en_received e ! i \<longleftrightarrow> i \<in> S) \<and>
     agree_on 1225 S pkt (en_buf e)"

lemma progress_header:
  assumes "sendable pkt" "i < frags pkt" "progress pkt S d e"
  shows "header_matches (frag_header pkt dgid (frags pkt) i) e"
proof -
  have "unat (en_frag_count e) = unat (of_nat (frags pkt) :: byte)"
    using frag_header_wf(3) [OF assms(1,2)] assms(3) by (simp add: frag_header_def progress_def)
  then have "en_frag_count e = of_nat (frags pkt)" by (simp add: word_unat_eq_iff)
  then show ?thesis
    using assms(3) frag_header_wf(4) [OF assms(1,2), of dgid]
    by (simp add: header_matches_def progress_def frag_header_def)
qed

lemma progress_duplicate:
  assumes s: "sendable pkt" and i: "i < frags pkt" and p: "progress pkt S d e" and iS: "i \<in> S"
  shows "feed_entry (frag_header pkt dgid (frags pkt) i) (frag_slot pkt dgid (frags pkt) (crc32 pkt) i) False e
    = (DuplicateIgnored, e)"
proof -
  let ?h = "frag_header pkt dgid (frags pkt) i"
  note F = frag_slot_facts [OF s i, of dgid] and H = frag_header_wf [OF s i, of dgid]
  have m: "header_matches ?h e" by (rule progress_header [OF s i p])
  have E: "expected_frag_len ?h = length (frag_body pkt i)" by (rule expected_frag_len_sent [OF s i])
  have "i * 1225 \<le> length pkt"
    using expected_frag_len_bounds [OF H(1)] H(2,4) by simp
  then have body: "slice (i * 1225) (i * 1225 + expected_frag_len ?h) (en_buf e) = frag_body pkt i"
    using agree_on_block [of 1225 S pkt "en_buf e" i] p iS E by (simp add: progress_def)
  show ?thesis
    using p m i iS body F(3) H(2)
    by (simp add: feed_entry_def header_matches_def progress_def overlay_values Let_def)
qed

lemma progress_written:
  fixes dgid :: u64
  assumes s: "sendable pkt" and i: "i < frags pkt" and p: "progress pkt S d e" and iS: "i \<notin> S"
  defines "e2 \<equiv> written (frag_header pkt dgid (frags pkt) i) (frag_slot pkt dgid (frags pkt) (crc32 pkt) i) e"
  shows "progress pkt (insert i S) d e2" "oh_frag_index (frag_header pkt dgid (frags pkt) i) = 0 \<Longrightarrow> en_fragment0_valid e2"
proof -
  let ?h = "frag_header pkt dgid (frags pkt) i" and ?s = "frag_slot pkt dgid (frags pkt) (crc32 pkt) i"
  note F = frag_slot_facts [OF s i, of dgid] and H = frag_header_wf [OF s i, of dgid]
  have m: "header_matches ?h e" by (rule progress_header [OF s i p])
  have E: "expected_frag_len ?h = length (frag_body pkt i)" by (rule expected_frag_len_sent [OF s i])
  note P = p [unfolded progress_def]
  have wf: "entry_wf e" and np: "\<not> en_poisoned e" using P by auto
  have new: "\<not> en_received e ! unat (oh_frag_index ?h)" using P i iS H(2) by simp
  note W = written_wf [OF wf np H(1) m new, of ?s, folded e2_def]
  let ?buf = "copy_at (i * 1225) (frag_body pkt i) (en_buf e)"
  have buf: "en_buf e2 = ?buf"
    using F(3) H(2) by (simp add: e2_def written_def overlay_values Let_def)
  have bl: "length (en_buf e) = length pkt" using P by (simp add: entry_wf_def)
  have "i * 1225 \<le> length pkt" using expected_frag_len_bounds [OF H(1)] H(2,4) by simp
  then have agree: "agree_on 1225 (insert i S) pkt ?buf"
    using P by (intro agree_on_write) simp_all
  show valid: "en_fragment0_valid e2" if "oh_frag_index ?h = 0"
  proof -
    have i0: "i = 0" using that H(2) by simp
    have "take 1225 ?buf = take 1225 pkt"
      using agree i0 by (intro nth_equalityI) (auto simp: agree_on_def div_eq_0_iff)
    then have "validate_ip_header_at ?buf (length pkt) = validate_ip_header_at pkt (length pkt)"
      using agree s by (intro validate_prefix) (auto simp: sendable_def agree_on_def)
    moreover have "validate_ip_header_at pkt (length pkt) = Inr ()"
      using s validate_agree [of pkt] by (cases pkt) (auto simp: sendable_def)
    ultimately have "is_Ok (validate_ip_header_at (en_buf e2) (en_ip_total_len e2))"
      using buf W(3) P by simp
    then show ?thesis using H(2) i0 by (simp add: e2_def written_def Let_def)
  qed
  have "entry_wf e2" using W(1) valid by blast
  moreover have "en_received e2 = (en_received e)[i := True]"
    using H(2) by (simp add: e2_def written_def Let_def)
  moreover have "length (en_received e) = frags pkt" using P by (simp add: entry_wf_def)
  moreover have "en_frag_count e2 = en_frag_count e" "en_datagram_crc e2 = en_datagram_crc e"
    "en_deadline e2 = en_deadline e"
    by (simp_all add: e2_def written_def Let_def)
  ultimately show "progress pkt (insert i S) d e2"
    using P W(3,4) agree buf i by (auto simp: progress_def nth_list_update)
qed

lemma progress_complete:
  assumes s: "sendable pkt" and p: "progress pkt S d e"
  shows "en_received_count e = unat (en_frag_count e) \<longleftrightarrow> {..<frags pkt} \<subseteq> S"
    "{..<frags pkt} \<subseteq> S \<Longrightarrow> en_buf e = pkt \<and> en_has_fragment0 e \<and> en_fragment0_valid e"
proof -
  note P = p [unfolded progress_def entry_wf_def] and b = frags_bounds [OF s]
  show "en_received_count e = unat (en_frag_count e) \<longleftrightarrow> {..<frags pkt} \<subseteq> S"
    using P count_le [of "en_received e"] by auto
  show "en_buf e = pkt \<and> en_has_fragment0 e \<and> en_fragment0_valid e" if all: "{..<frags pkt} \<subseteq> S"
  proof -
    have "agree_on 1225 S pkt (en_buf e)" using P by blast
    then have "en_buf e = pkt" using agree_on_all [of 1225 S pkt "en_buf e" "frags pkt"] b(4) all by simp
    moreover have "en_received e ! 0" using P all b(1) by blast
    moreover have "en_has_fragment0 e = en_received e ! 0" "en_has_fragment0 e \<longrightarrow> en_fragment0_valid e"
      using P by blast+
    ultimately show ?thesis by simp
  qed
qed

lemma feed_entry_progress:
  assumes s: "sendable pkt" and i: "i < frags pkt" and p: "progress pkt S d e"
  obtains e2 where "progress pkt (insert i S) d e2"
    "feed_entry (frag_header pkt dgid (frags pkt) i) (frag_slot pkt dgid (frags pkt) (crc32 pkt) i) False e =
       (if i \<in> S then DuplicateIgnored
        else if {..<frags pkt} \<subseteq> insert i S then Complete pkt else Pending, e2)"
proof (cases "i \<in> S")
  case True
  then show ?thesis
    using that [of e] progress_duplicate [OF s i p True] p by (simp add: insert_absorb)
next
  case False
  let ?h = "frag_header pkt dgid (frags pkt) i" and ?s = "frag_slot pkt dgid (frags pkt) (crc32 pkt) i"
  let ?e2 = "written ?h ?s e"
  note W = progress_written [OF s i p False, of dgid]
  have C: "en_received_count ?e2 = unat (en_frag_count ?e2) \<longleftrightarrow> {..<frags pkt} \<subseteq> insert i S"
    "{..<frags pkt} \<subseteq> insert i S \<Longrightarrow> en_buf ?e2 = pkt \<and> en_has_fragment0 ?e2 \<and> en_fragment0_valid ?e2"
    using progress_complete [OF s W(1)] by blast+
  have "feed_entry ?h ?s False e =
      (if {..<frags pkt} \<subseteq> insert i S then Complete pkt else Pending, ?e2)"
    using feed_entry_written [of e ?h False ?s] progress_header [OF s i p, of dgid] p False i
      frag_header_wf(2) [OF s i, of dgid] W C
    by (auto simp: progress_def)
  then show ?thesis using that [OF W(1)] False by simp
qed

text \<open>A slot of the packet, fed while its entry is alive or about to be created.\<close>

definition awaiting :: "bytes \<Rightarrow> u64 \<Rightarrow> nat set \<Rightarrow> instant \<Rightarrow> Reassembler \<Rightarrow> bool" where
  "awaiting pkt dgid S d r \<longleftrightarrow> reasm_inv r \<and>
     (\<exists>e. map_of (ra_entries r) dgid = Some e \<and> progress pkt S d e)"

lemma progress_new:
  assumes "sendable pkt" "i < frags pkt"
  shows "progress pkt {} d \<lparr>en_frag_count = oh_frag_count (frag_header pkt dgid (frags pkt) i),
     en_ip_total_len = length pkt, en_datagram_crc = crc32 pkt, en_received = replicate (frags pkt) False,
     en_buf = replicate (length pkt) 0, en_received_count = 0, en_poisoned = False,
     en_has_fragment0 = False, en_fragment0_valid = False, en_deadline = d\<rparr>"
  using new_entry_wf [OF frag_header_wf(1) [OF assms, of dgid], of "crc32 pkt" d]
    frag_header_wf(3,4) [OF assms, of dgid] by (simp add: progress_def agree_on_def)

lemma feed_core:
  fixes dgid :: u64
  assumes s: "sendable pkt" and i: "i < frags pkt"
    and c: "feed_create (frag_header pkt dgid (frags pkt) i) False now (reassembler_expire now r) = Inr r1"
    and a: "awaiting pkt dgid S d r1"
  defines "slot \<equiv> frag_slot pkt dgid (frags pkt) (crc32 pkt) i"
  shows "fst (feed slot now r) = (if i \<in> S then DuplicateIgnored
      else if {..<frags pkt} \<subseteq> insert i S then Complete pkt else Pending)"
    "i \<in> S \<or> \<not> {..<frags pkt} \<subseteq> insert i S \<Longrightarrow> awaiting pkt dgid (insert i S) d (snd (feed slot now r))"
proof -
  let ?h = "frag_header pkt dgid (frags pkt) i"
  note F = frag_slot_facts [OF s i, of dgid, folded slot_def]
  obtain e where inv: "reasm_inv r1" and e: "map_of (ra_entries r1) dgid = Some e" and p: "progress pkt S d e"
    using a by (auto simp: awaiting_def)
  obtain e2 where p2: "progress pkt (insert i S) d e2"
    and f: "feed_entry ?h slot False e = (if i \<in> S then DuplicateIgnored
        else if {..<frags pkt} \<subseteq> insert i S then Complete pkt else Pending, e2)"
    using feed_entry_progress [OF s i p, of dgid] unfolding slot_def by metis
  have tb: "\<not> list_ex (\<lambda>b. b \<noteq> 0) (slice (OVERLAY_HEADER_LEN + expected_frag_len ?h) PAYLOAD_LEN slot)"
    using F(4) by (simp add: overlay_values list_ex_iff)
  have k: "oh_datagram_id ?h = dgid" by (simp add: frag_header_def)
  let ?out = "if i \<in> S then DuplicateIgnored
      else if {..<frags pkt} \<subseteq> insert i S then Complete pkt else Pending"
  have eq: "feed slot now r = (?out, if \<exists>buf. ?out = Complete buf
       then r1\<lparr>ra_entries := AList.delete dgid (ra_entries r1),
              ra_current_bytes := ra_current_bytes r1 - en_ip_total_len e2\<rparr>
       else r1\<lparr>ra_entries := AList.update dgid e2 (ra_entries r1)\<rparr>)"
    using F(2) tb k c e f by (simp add: feed_def Let_def)
  show "fst (feed slot now r) = ?out" using eq by simp
  have wf2: "entry_wf e2" "en_ip_total_len e2 = en_ip_total_len e"
    using feed_entry_sound(1,2) [OF reasm_inv_lookup [OF inv e] frag_header_wf(1) [OF s i] f] by blast+
  have "reasm_inv (r1\<lparr>ra_entries := AList.update dgid e2 (ra_entries r1)\<rparr>)"
    using inv e wf2 table_bytes_replace [OF _ e wf2(2)]
    by (auto simp: reasm_inv_def length_update contains_key_def table_simps split: if_splits)
  then show "awaiting pkt dgid (insert i S) d (snd (feed slot now r))"
    if "i \<in> S \<or> \<not> {..<frags pkt} \<subseteq> insert i S"
    using that p2 eq by (auto simp: awaiting_def table_simps)
qed

lemma feed_next_create:
  assumes "awaiting pkt dgid S d r" "now < d"
  shows "feed_create (frag_header pkt dgid fc i) False now (reassembler_expire now r) = Inr (reassembler_expire now r)"
    "awaiting pkt dgid S d (reassembler_expire now r)"
proof -
  obtain e where inv: "reasm_inv r" and e: "map_of (ra_entries r) dgid = Some e" and p: "progress pkt S d e"
    using assms(1) by (auto simp: awaiting_def)
  have "map_of (ra_entries (reassembler_expire now r)) dgid = Some e"
    using expire_lookup [of r now dgid] inv e p assms(2) by (auto simp: reasm_inv_def progress_def)
  then show "feed_create (frag_header pkt dgid fc i) False now (reassembler_expire now r) = Inr (reassembler_expire now r)"
    "awaiting pkt dgid S d (reassembler_expire now r)"
    using reasm_inv_expire [OF inv] p
    by (auto simp: feed_create_def frag_header_def contains_key_def awaiting_def)
qed

definition room_for :: "bytes \<Rightarrow> u64 \<Rightarrow> Reassembler \<Rightarrow> bool" where
  "room_for pkt dgid r \<longleftrightarrow> reasm_inv r \<and> map_of (ra_entries r) dgid = None \<and>
     length (ra_entries r) < ra_max_entries r \<and> ra_current_bytes r + length pkt \<le> ra_max_bytes r"

lemma feed_first_create:
  assumes s: "sendable pkt" and i: "i < frags pkt" and room: "room_for pkt dgid r"
  obtains r1 where
    "feed_create (frag_header pkt dgid (frags pkt) i) False now (reassembler_expire now r) = Inr r1"
    "awaiting pkt dgid {} (now + ra_deadline r) r1"
proof -
  let ?r = "reassembler_expire now r" and ?h = "frag_header pkt dgid (frags pkt) i"
  have inv: "reasm_inv ?r" using room reasm_inv_expire by (simp add: room_for_def)
  have none: "\<not> contains_key dgid (ra_entries ?r)"
    using expire_lookup [of r now dgid] room by (simp add: room_for_def reasm_inv_def contains_key_def)
  have caps: "ra_max_entries ?r = ra_max_entries r" "ra_max_bytes ?r = ra_max_bytes r"
    "ra_deadline ?r = ra_deadline r" "length (ra_entries ?r) \<le> length (ra_entries r)"
    "ra_current_bytes ?r \<le> ra_current_bytes r"
    using fold_drop_caps [of "map fst (filter (\<lambda>(k, e). en_deadline e \<le> now) (ra_entries r))" r]
    by (simp_all add: reassembler_expire_def Let_def)
  note H = frag_header_wf [OF s i, of dgid]
  have k: "oh_datagram_id ?h = dgid" "oh_datagram_crc ?h = crc32 pkt" by (simp_all add: frag_header_def)
  define e where "e = \<lparr>en_frag_count = oh_frag_count ?h, en_ip_total_len = length pkt,
     en_datagram_crc = crc32 pkt, en_received = replicate (frags pkt) False,
     en_buf = replicate (length pkt) 0, en_received_count = 0, en_poisoned = False,
     en_has_fragment0 = False, en_fragment0_valid = False, en_deadline = now + ra_deadline r\<rparr>"
  let ?r1 = "?r\<lparr>ra_entries := AList.update dgid e (ra_entries ?r), ra_current_bytes := ra_current_bytes ?r + length pkt\<rparr>"
  have c: "feed_create ?h False now ?r = Inr ?r1"
    using none caps room H k by (simp add: feed_create_def room_for_def e_def Let_def)
  moreover have "awaiting pkt dgid {} (now + ra_deadline r) ?r1"
    using reasm_inv_create [OF inv H(1) c] progress_new [OF s i, of "now + ra_deadline r" dgid]
    by (simp add: awaiting_def table_simps e_def)
  ultimately show thesis using that by blast
qed

text \<open>The outcomes of feeding fragments \<open>js\<close> when those in \<open>S\<close> are already there and the last of
  \<open>js\<close> is the one still missing at the end.\<close>

abbreviation "slot_of pkt dgid i \<equiv> frag_slot pkt dgid (frags pkt) (crc32 pkt) i"

lemma feed_rest:
  assumes s: "sendable pkt" and a: "awaiting pkt dgid S d r" and "\<forall>t \<in> set ts. t < d" and t: "t < d"
    and "length ts = length js" and "set js \<subseteq> {..<frags pkt}"
    and l: "l < frags pkt" "l \<notin> S \<union> set js" and all: "insert l (S \<union> set js) = {..<frags pkt}"
  shows "\<exists>outs. fst (run feed_op (zip (map (slot_of pkt dgid) (js @ [l])) (ts @ [t])) r) = outs @ [Complete pkt] \<and>
    set outs \<subseteq> {Pending, DuplicateIgnored}"
  using assms(2-)
proof (induction js arbitrary: S r ts)
  case Nil
  note C = feed_core [OF s l(1) feed_next_create(1,2) [OF Nil.prems(1) t]]
  show ?case using C(1) Nil.prems by simp
next
  case (Cons j js)
  obtain u us where ts: "ts = u # us" using Cons.prems(4) by (cases ts) auto
  have j: "j < frags pkt" and u: "u < d" using Cons.prems ts by auto
  note C = feed_core [OF s j feed_next_create(1,2) [OF Cons.prems(1) u]]
  have nl: "\<not> {..<frags pkt} \<subseteq> insert j S" using Cons.prems(6,7) by auto
  let ?r1 = "snd (feed (slot_of pkt dgid j) u r)"
  have "\<exists>outs. fst (run feed_op (zip (map (slot_of pkt dgid) (js @ [l])) (us @ [t])) ?r1) = outs @ [Complete pkt] \<and>
      set outs \<subseteq> {Pending, DuplicateIgnored}"
    using Cons.prems ts C(2) nl by (intro Cons.IH [of "insert j S"]) auto
  then obtain outs where outs: "fst (run feed_op (zip (map (slot_of pkt dgid) (js @ [l])) (us @ [t])) ?r1) =
      outs @ [Complete pkt]" "set outs \<subseteq> {Pending, DuplicateIgnored}" by blast
  have "fst (feed (slot_of pkt dgid j) u r) \<in> {Pending, DuplicateIgnored}" using C(1) nl by auto
  then show ?case
    using outs ts by (intro exI [of _ "fst (feed (slot_of pkt dgid j) u r) # outs"]) simp
qed

lemma feed_all:
  assumes s: "sendable pkt" and room: "room_for pkt dgid r"
    and times: "length ts = length js" "\<forall>u \<in> set ts. u < hd (ts @ [t]) + ra_deadline r" "t < hd (ts @ [t]) + ra_deadline r"
    and js: "set js \<subseteq> {..<frags pkt}" "l < frags pkt" "l \<notin> set js" "insert l (set js) = {..<frags pkt}"
  shows "\<exists>outs. fst (run feed_op (zip (map (slot_of pkt dgid) (js @ [l])) (ts @ [t])) r) = outs @ [Complete pkt] \<and>
    set outs \<subseteq> {Pending, DuplicateIgnored}"
proof (cases js)
  case Nil
  obtain r1 where c: "feed_create (frag_header pkt dgid (frags pkt) l) False t (reassembler_expire t r) = Inr r1"
    "awaiting pkt dgid {} (t + ra_deadline r) r1"
    using feed_first_create [OF s js(2) room] by blast
  show ?thesis using feed_core(1) [OF s js(2) c] Nil times(1) js(4) by simp
next
  case (Cons j ks)
  obtain u us where ts: "ts = u # us" using times(1) Cons by (cases ts) auto
  have j: "j < frags pkt" using js(1) Cons by auto
  obtain r1 where c: "feed_create (frag_header pkt dgid (frags pkt) j) False u (reassembler_expire u r) = Inr r1"
    "awaiting pkt dgid {} (u + ra_deadline r) r1"
    using feed_first_create [OF s j room] by blast
  note C = feed_core [OF s j c]
  have nl: "\<not> {..<frags pkt} \<subseteq> insert j {}" using js Cons by auto
  have a: "awaiting pkt dgid {j} (u + ra_deadline r) (snd (feed (slot_of pkt dgid j) u r))"
    using C(2) nl by simp
  have "\<exists>outs. fst (run feed_op (zip (map (slot_of pkt dgid) (ks @ [l])) (us @ [t]))
      (snd (feed (slot_of pkt dgid j) u r))) = outs @ [Complete pkt] \<and> set outs \<subseteq> {Pending, DuplicateIgnored}"
    by (rule feed_rest [OF s a]) (use times js Cons ts in auto)
  then obtain outs where outs: "fst (run feed_op (zip (map (slot_of pkt dgid) (ks @ [l])) (us @ [t]))
      (snd (feed (slot_of pkt dgid j) u r))) = outs @ [Complete pkt]" "set outs \<subseteq> {Pending, DuplicateIgnored}" by blast
  have "fst (feed (slot_of pkt dgid j) u r) = Pending" using C(1) nl by simp
  then show ?thesis
    using outs ts Cons by (intro exI [of _ "Pending # outs"]) simp
qed

section \<open>Properties\<close>

lemma feed_create_caps:
  "feed_create hdr tb now r = Inr r1 \<Longrightarrow> ra_max_entries r1 = ra_max_entries r \<and> ra_max_bytes r1 = ra_max_bytes r"
  by (auto simp: feed_create_def Let_def split: if_splits)

lemma expire_caps:
  "ra_max_entries (reassembler_expire now r) = ra_max_entries r"
  "ra_max_bytes (reassembler_expire now r) = ra_max_bytes r"
  using fold_drop_caps by (simp_all add: reassembler_expire_def Let_def)

lemma feed_caps:
  "ra_max_entries (snd (feed slot now r)) = ra_max_entries r \<and> ra_max_bytes (snd (feed slot now r)) = ra_max_bytes r"
proof (cases rule: feed_cases [of slot now r])
  case (entry hdr tb r1 e out e1)
  then show ?thesis using feed_create_caps [OF entry(3)] expire_caps [of now r] by simp
qed (simp_all add: expire_caps)

lemma run_feed_caps:
  "ra_max_entries (snd (run feed_op ops r)) = ra_max_entries r \<and> ra_max_bytes (snd (run feed_op ops r)) = ra_max_bytes r"
  by (induction ops arbitrary: r) (simp_all add: feed_caps)

text \<open>C15: the fragments of one IP packet, delivered in any order and with any duplicates before the
  deadline, reassemble to exactly that packet: every earlier fragment is pending or ignored as a
  duplicate, and the one that fills the last gap completes it, whatever other datagrams the
  reassembler holds.\<close>

theorem reassembly_any_order:
  assumes "fragment_ip_packet pkt dgid = Inr slots" "room_for pkt dgid r"
    and "length ts = length js" "\<forall>t' \<in> set (ts @ [t]). t' < hd (ts @ [t]) + ra_deadline r"
    and "l \<notin> set js" "insert l (set js) = {..<length slots}"
  shows "\<exists>outs. fst (run feed_op (zip (map (\<lambda>i. slots ! i) (js @ [l])) (ts @ [t])) r) = outs @ [Complete pkt] \<and>
    set outs \<subseteq> {Pending, DuplicateIgnored}"
proof -
  have s: "sendable pkt" using assms(1) fragment_ok_iff [of pkt dgid] by simp
  have slots: "slots = map (slot_of pkt dgid) [0..<frags pkt]"
    using fragment_ok [OF s, of dgid] assms(1) by simp
  have js: "set js \<subseteq> {..<frags pkt}" "l < frags pkt" "insert l (set js) = {..<frags pkt}"
    using assms(6) slots by auto
  have m: "map (\<lambda>i. slots ! i) (js @ [l]) = map (slot_of pkt dgid) (js @ [l])"
    using js(1,2) slots by auto
  have t: "\<forall>t' \<in> set ts. t' < hd (ts @ [t]) + ra_deadline r" "t < hd (ts @ [t]) + ra_deadline r"
    using assms(4) by simp_all
  show ?thesis unfolding m by (rule feed_all [OF s assms(2,3) t js(1,2) assms(5) js(3)])
qed

theorem reassembly_any_order_witness:
  "\<exists>slots outs. fragment_ip_packet demo_packet 9 = Inr slots \<and>
    room_for demo_packet 9 (reassembler_new DEFAULT_REASSEMBLY_DEADLINE) \<and>
    fst (run feed_op (zip (map (\<lambda>i. slots ! i) ([] @ [0])) ([] @ [5]))
      (reassembler_new DEFAULT_REASSEMBLY_DEADLINE)) = outs @ [Complete demo_packet]"
proof -
  have f1: "frags demo_packet = 1" by (simp add: demo_packet_def div_ceil_def)
  obtain slots where f: "fragment_ip_packet demo_packet 9 = Inr slots" and l: "length slots = 1"
    using fragment_ok [OF demo_packet_sendable, of 9] f1 by simp
  have room: "room_for demo_packet 9 (reassembler_new DEFAULT_REASSEMBLY_DEADLINE)"
    using reasm_inv_new(2) by (simp add: room_for_def reassembler_new_def MAX_ENTRIES_PER_SESSION_def
        MAX_BYTES_PER_SESSION_def demo_packet_def)
  have d: "5 < 5 + ra_deadline (reassembler_new DEFAULT_REASSEMBLY_DEADLINE)"
    by (simp add: reassembler_new_def DEFAULT_REASSEMBLY_DEADLINE_def from_secs_def)
  show ?thesis
    using reassembly_any_order [OF f room, of "[]" "[]" 5 0] d l f room by (auto simp: lessThan_Suc)
qed

text \<open>C20: over any sequence of received slots, honest or not, the reassembler holds at most its cap of
  entries and of bytes, and its byte counter is exactly the sum of the lengths of the datagrams it
  holds.\<close>

theorem reassembly_memory_bounded:
  "length (ra_entries (snd (run feed_op ops (reassembler_with_caps d me mb)))) \<le> me \<and>
   ra_current_bytes (snd (run feed_op ops (reassembler_with_caps d me mb))) \<le> mb \<and>
   ra_current_bytes (snd (run feed_op ops (reassembler_with_caps d me mb))) =
     table_bytes (ra_entries (snd (run feed_op ops (reassembler_with_caps d me mb))))"
proof -
  let ?r = "snd (run feed_op ops (reassembler_with_caps d me mb))"
  have "reasm_inv ?r" by (rule reasm.run_inv [OF reasm_inv_new(1)])
  moreover have "ra_max_entries ?r = me" "ra_max_bytes ?r = mb"
    using run_feed_caps [of ops "reassembler_with_caps d me mb"] by (simp_all add: reassembler_with_caps_def)
  ultimately show ?thesis by (simp add: reasm_inv_def)
qed

text \<open>C21: whatever was received before, a completed datagram is a well-formed IP packet: its declared
  length is its length, it has the length and the CRC-32 that the completing fragment announces.\<close>

theorem reassembly_complete_sound:
  assumes "feed slot now (snd (run feed_op ops (reassembler_with_caps d me mb))) = (Complete buf, r1)"
  shows "validate_ip_packet buf = Inr (length buf) \<and>
    (\<exists>h. overlay_decode slot = Inr h \<and> crc32 buf = oh_datagram_crc h \<and> length buf = unat (oh_ip_total_len h))"
  using feed_complete_sound [OF reasm.run_inv [OF reasm_inv_new(1)] assms] by blast

theorem reassembly_complete_sound_witness:
  "\<exists>slot r1. feed slot 5 (snd (run feed_op [] (reassembler_with_caps 10 4 4096))) = (Complete demo_packet, r1) \<and>
    validate_ip_packet demo_packet = Inr (length demo_packet) \<and>
    (\<exists>h. overlay_decode slot = Inr h \<and> crc32 demo_packet = oh_datagram_crc h)"
proof -
  let ?r = "reassembler_with_caps 10 4 4096"
  have f1: "frags demo_packet = 1" by (simp add: demo_packet_def div_ceil_def)
  have room: "room_for demo_packet 9 ?r"
    using reasm_inv_new(1) by (simp add: room_for_def reassembler_with_caps_def demo_packet_def)
  obtain outs where "fst (run feed_op (zip (map (slot_of demo_packet 9) ([] @ [0])) ([] @ [5])) ?r) = outs @ [Complete demo_packet]"
    using feed_all [OF demo_packet_sendable room, of "[]" "[]" 5 0] f1
    by (auto simp: reassembler_with_caps_def lessThan_Suc)
  then have "fst (feed (slot_of demo_packet 9 0) 5 ?r) = Complete demo_packet"
    by (cases outs) (auto split: prod.splits)
  then obtain r1 where f: "feed (slot_of demo_packet 9 0) 5 (snd (run feed_op [] ?r)) = (Complete demo_packet, r1)"
    by (metis prod.collapse run.simps(1) snd_conv)
  show ?thesis using reassembly_complete_sound [OF f] f by blast
qed

end
