(* ===== verification/Handshake_Framing.thy ===== *)
theory Handshake_Framing
  imports Codec
begin

text \<open>
  Fragmentation of handshake messages (\<open>pq-tunnel-core/src/handshake_v2.rs\<close>): the pinned sizes
  and counts, the 12-byte fragment header, the strict parser and the order-independent assembler.
  The datagrams of a message parse back to its fragments, and feeding them in any order with any
  repetitions completes the message exactly when the last missing one arrives.
\<close>

section \<open>Wire constants\<close>

definition HS_TYPE_CLIENT_HELLO :: byte where "HS_TYPE_CLIENT_HELLO = 0x10"
definition HS_TYPE_SERVER_HELLO :: byte where "HS_TYPE_SERVER_HELLO = 0x20"
definition HS_TYPE_CLIENT_CONFIRM :: byte where "HS_TYPE_CLIENT_CONFIRM = 0x30"

lemmas hs_types = HS_TYPE_CLIENT_HELLO_def HS_TYPE_SERVER_HELLO_def HS_TYPE_CLIENT_CONFIRM_def

definition HS_FRAG_HEADER_LEN :: nat where [layout_simps]: "HS_FRAG_HEADER_LEN = VERSION_LEN + SESSION_ID_LEN + 3"
definition HS_FRAG_BODY_MAX :: nat where [layout_simps]: "HS_FRAG_BODY_MAX = PACKET_SIZE - HS_FRAG_HEADER_LEN"
definition X25519_PUBLIC_KEY_BYTES :: nat where [layout_simps]: "X25519_PUBLIC_KEY_BYTES = 32"
definition FINISHED_MAC_LEN :: nat where [layout_simps]: "FINISHED_MAC_LEN = 16"

definition M1_BODY_LEN :: nat where
  [layout_simps]: "M1_BODY_LEN = VERSION_LEN + SESSION_ID_LEN + ML_KEM_768_PUBLIC_KEY_BYTES +
     X25519_PUBLIC_KEY_BYTES + ML_DSA_65_SIGNATURE_BYTES"
definition M2_BODY_LEN :: nat where
  [layout_simps]: "M2_BODY_LEN = VERSION_LEN + SESSION_ID_LEN + ML_KEM_768_PUBLIC_KEY_BYTES +
     X25519_PUBLIC_KEY_BYTES + ML_KEM_768_CIPHERTEXT_BYTES + ML_DSA_65_SIGNATURE_BYTES"
definition M3_BODY_LEN :: nat where
  [layout_simps]: "M3_BODY_LEN = VERSION_LEN + SESSION_ID_LEN + ML_KEM_768_CIPHERTEXT_BYTES + FINISHED_MAC_LEN"

definition M1_FRAG_COUNT :: byte where "M1_FRAG_COUNT = 4"
definition M2_FRAG_COUNT :: byte where "M2_FRAG_COUNT = 5"
definition M3_FRAG_COUNT :: byte where "M3_FRAG_COUNT = 1"

lemma hs_values:
  "HS_FRAG_HEADER_LEN = 12" "HS_FRAG_BODY_MAX = 1268"
  "M1_BODY_LEN = 4534" "M2_BODY_LEN = 5622" "M3_BODY_LEN = 1113"
  by (simp_all add: layout_simps)

lemma hs_partition_asserts:
  "M1_BODY_LEN > (unat M1_FRAG_COUNT - 1) * HS_FRAG_BODY_MAX \<and> M1_BODY_LEN \<le> unat M1_FRAG_COUNT * HS_FRAG_BODY_MAX"
  "M2_BODY_LEN > (unat M2_FRAG_COUNT - 1) * HS_FRAG_BODY_MAX \<and> M2_BODY_LEN \<le> unat M2_FRAG_COUNT * HS_FRAG_BODY_MAX"
  "M3_BODY_LEN \<le> unat M3_FRAG_COUNT * HS_FRAG_BODY_MAX"
  by (simp_all add: hs_values M1_FRAG_COUNT_def M2_FRAG_COUNT_def M3_FRAG_COUNT_def)

definition expected_frag_count :: "byte \<Rightarrow> byte option" where
  "expected_frag_count hs_type =
     (if hs_type = HS_TYPE_CLIENT_HELLO then Some M1_FRAG_COUNT
      else if hs_type = HS_TYPE_SERVER_HELLO then Some M2_FRAG_COUNT
      else if hs_type = HS_TYPE_CLIENT_CONFIRM then Some M3_FRAG_COUNT
      else None)"

definition message_body_len :: "byte \<Rightarrow> nat option" where
  "message_body_len hs_type =
     (if hs_type = HS_TYPE_CLIENT_HELLO then Some M1_BODY_LEN
      else if hs_type = HS_TYPE_SERVER_HELLO then Some M2_BODY_LEN
      else if hs_type = HS_TYPE_CLIENT_CONFIRM then Some M3_BODY_LEN
      else None)"

definition is_handshake_fragment :: "WirePacket \<Rightarrow> bool" where
  "is_handshake_fragment pkt =
     (as_bytes pkt ! (VERSION_LEN + SESSION_ID_LEN)
        \<in> {HS_TYPE_CLIENT_HELLO, HS_TYPE_SERVER_HELLO, HS_TYPE_CLIENT_CONFIRM})"

section \<open>Fragments\<close>

record HandshakeFragment =
  hf_version :: byte
  hf_sid :: bytes
  hf_hs_type :: byte
  hf_frag_idx :: byte
  hf_frag_total :: byte
  hf_body :: bytes

definition from_datagram :: "WirePacket \<Rightarrow> CodecError + HandshakeFragment" where
  "from_datagram pkt =
     (let bs = as_bytes pkt; version = bs ! 0 in
      if version \<noteq> PROTOCOL_VERSION then Inl (InvalidVersion PROTOCOL_VERSION version)
      else
        let sid = slice VERSION_LEN (VERSION_LEN + SESSION_ID_LEN) bs;
            hs_type = bs ! (VERSION_LEN + SESSION_ID_LEN);
            frag_idx = bs ! (VERSION_LEN + SESSION_ID_LEN + 1);
            frag_total = bs ! (VERSION_LEN + SESSION_ID_LEN + 2)
        in (case expected_frag_count hs_type of
              None \<Rightarrow> Inl (InvalidMessageType hs_type)
            | Some expected \<Rightarrow>
                if frag_total \<noteq> expected
                then Inl (Truncated ''frag_total'' (unat expected) (unat frag_total))
                else if frag_idx \<ge> frag_total
                then Inl (Truncated ''frag_idx'' (unat frag_total) (unat frag_idx))
                else (case message_body_len hs_type of
                    None \<Rightarrow> Inl (InvalidMessageType hs_type)
                  | Some msg_len \<Rightarrow>
                      let start = unat frag_idx * HS_FRAG_BODY_MAX;
                          body_len = min (msg_len - start) HS_FRAG_BODY_MAX;
                          body = slice HS_FRAG_HEADER_LEN (HS_FRAG_HEADER_LEN + body_len) bs
                      in Inr \<lparr>hf_version = version, hf_sid = sid, hf_hs_type = hs_type,
                              hf_frag_idx = frag_idx, hf_frag_total = frag_total, hf_body = body\<rparr>)))"

text \<open>The inner \<open>None\<close> branch stands for the \<open>expect\<close> on a type already validated; it is not
  reachable (\<open>frag_tables\<close>).\<close>

lemma frag_tables: "expected_frag_count t = None \<longleftrightarrow> message_body_len t = None"
  by (simp add: expected_frag_count_def message_body_len_def)

definition hs_datagram :: "byte \<Rightarrow> byte \<Rightarrow> bytes \<Rightarrow> bytes \<Rightarrow> byte \<Rightarrow> nat \<Rightarrow> bytes" where
  "hs_datagram hs_type version sid message ftotal idx =
     (let dg = replicate PACKET_SIZE 0;
          dg = dg[0 := version];
          dg = copy_at VERSION_LEN sid dg;
          dg = dg[VERSION_LEN + SESSION_ID_LEN := hs_type,
                  VERSION_LEN + SESSION_ID_LEN + 1 := of_nat idx,
                  VERSION_LEN + SESSION_ID_LEN + 2 := ftotal];
          start = idx * HS_FRAG_BODY_MAX;
          end = min (start + HS_FRAG_BODY_MAX) (length message)
      in copy_at HS_FRAG_HEADER_LEN (slice start end message) dg)"

definition fragment_message :: "byte \<Rightarrow> byte \<Rightarrow> bytes \<Rightarrow> bytes \<Rightarrow> CodecError + WirePacket list" where
  "fragment_message hs_type version sid message =
     (case expected_frag_count hs_type of
        None \<Rightarrow> Inl (InvalidMessageType hs_type)
      | Some ftotal \<Rightarrow>
          (case message_body_len hs_type of
             None \<Rightarrow> Inl (InvalidMessageType hs_type)
           | Some msg_len \<Rightarrow>
               if length message \<noteq> msg_len
               then Inl (WrongLength ''handshake message'' msg_len (length message))
               else Inr (map (\<lambda>idx. WirePacket (hs_datagram hs_type version sid message ftotal idx))
                          [0..<unat ftotal])))"

section \<open>Assembly\<close>

datatype FragmentResult = Ignored | Advanced | Completed

record FragmentAssembler =
  fa_hs_type :: byte
  fa_total :: byte
  fa_received :: "bool list"
  fa_buffer :: bytes
  fa_complete :: bool

definition assembler_new :: "byte \<Rightarrow> FragmentAssembler option" where
  "assembler_new hs_type =
     (case expected_frag_count hs_type of
        None \<Rightarrow> None
      | Some ftotal \<Rightarrow>
          (case message_body_len hs_type of
             None \<Rightarrow> None
           | Some msg_len \<Rightarrow>
               Some \<lparr>fa_hs_type = hs_type, fa_total = ftotal,
                     fa_received = replicate (unat M2_FRAG_COUNT) False,
                     fa_buffer = replicate msg_len 0, fa_complete = False\<rparr>))"

definition add_fragment :: "HandshakeFragment \<Rightarrow> FragmentAssembler \<Rightarrow> FragmentResult \<times> FragmentAssembler" where
  "add_fragment frag a =
     (if fa_complete a \<or> hf_hs_type frag \<noteq> fa_hs_type a \<or> hf_frag_total frag \<noteq> fa_total a then (Ignored, a)
      else
        let idx = unat (hf_frag_idx frag) in
        if idx \<ge> unat (fa_total a) \<or> fa_received a ! idx then (Ignored, a)
        else
          let start = idx * HS_FRAG_BODY_MAX; end = start + length (hf_body frag) in
          if end > length (fa_buffer a) then (Ignored, a)
          else
            let a1 = a\<lparr>fa_received := (fa_received a)[idx := True],
                       fa_buffer := copy_at start (hf_body frag) (fa_buffer a)\<rparr>
            in if list_all (\<lambda>r. r) (take (unat (fa_total a1)) (fa_received a1))
               then (Completed, a1\<lparr>fa_complete := True\<rparr>)
               else (Advanced, a1))"

definition assembled_message :: "FragmentAssembler \<Rightarrow> bytes option" where
  "assembled_message a = (if fa_complete a then Some (fa_buffer a) else None)"

section \<open>Datagrams parse back\<close>

lemma zeros_1280: "replicate 1280 (0 :: byte) = 0 # replicate 8 0 @ [0, 0, 0] @ replicate 1268 0"
proof -
  have "replicate 1280 (0 :: byte) = replicate (1 + 8 + 3 + 1268) 0" by simp
  then show ?thesis unfolding replicate_add by (simp add: numeral_3_eq_3)
qed

text \<open>Writing at the index where a prefix ends.\<close>

lemma update_after: "n = length xs \<Longrightarrow> (xs @ y # ys)[n := z] = xs @ z # ys"
  by simp

lemma hs_datagram_eq:
  assumes "length sid = 8"
  shows "hs_datagram t v sid msg n i =
    v # sid @ [t, of_nat i, n] @ block 1268 i msg @ replicate (1268 - length (block 1268 i msg)) 0"
proof -
  let ?z = "replicate 1268 (0 :: byte)"
  have a: "copy_at 1 sid (v # replicate 8 0 @ [0, 0, 0] @ ?z) = v # sid @ [0, 0, 0] @ ?z"
    using assms by (simp add: copy_at_def)
  have b: "(v # sid @ [0, 0, 0] @ ?z)[9 := t] = v # sid @ [t, 0, 0] @ ?z"
    using update_after [of 9 "v # sid" 0 "[0, 0] @ ?z" t] assms by simp
  have c: "(v # sid @ [t, 0, 0] @ ?z)[10 := x] = v # sid @ [t, x, 0] @ ?z" for x
    using update_after [of 10 "v # sid @ [t]" 0 "[0] @ ?z" x] assms by simp
  have d: "(v # sid @ [t, x, 0] @ ?z)[11 := n] = v # sid @ [t, x, n] @ ?z" for x
    using update_after [of 11 "v # sid @ [t, x]" 0 "?z" n] assms by simp
  have e: "copy_at 12 xs (v # sid @ [t, x, n] @ ?z) = v # sid @ [t, x, n] @ xs @ drop (length xs) ?z" for x xs
    using copy_at_after [of 12 "v # sid @ [t, x, n]" xs ?z] assms by simp
  have "hs_datagram t v sid msg n i = copy_at 12 (block 1268 i msg)
      ((copy_at 1 sid ((replicate 1280 0)[0 := v]))[9 := t, 10 := of_nat i, 11 := n])"
    by (simp add: hs_datagram_def hs_values layout_values VERSION_LEN_def SESSION_ID_LEN_def
        block_def Let_def)
  also have "(replicate 1280 0)[0 := v] = v # replicate 8 0 @ [0, 0, 0] @ ?z"
    by (simp only: zeros_1280 list_update.simps nat.case)
  finally show ?thesis by (simp only: a b c d e drop_replicate)
qed

text \<open>The messages the protocol fragments: a type with its pinned length and count.\<close>

definition hs_shape :: "byte \<Rightarrow> byte \<Rightarrow> bytes \<Rightarrow> bool" where
  "hs_shape t n msg \<longleftrightarrow> expected_frag_count t = Some n \<and> message_body_len t = Some (length msg)"

lemma hs_shape_bounds:
  assumes "hs_shape t n msg"
  shows "0 < unat n" "unat n \<le> 5" "(unat n - 1) * 1268 < length msg" "length msg \<le> unat n * 1268"
  using assms
  by (auto simp: hs_shape_def expected_frag_count_def message_body_len_def hs_values
      M1_FRAG_COUNT_def M2_FRAG_COUNT_def M3_FRAG_COUNT_def split: if_splits)

definition hs_fragment :: "byte \<Rightarrow> bytes \<Rightarrow> bytes \<Rightarrow> byte \<Rightarrow> nat \<Rightarrow> HandshakeFragment" where
  "hs_fragment t sid msg n i =
     \<lparr>hf_version = PROTOCOL_VERSION, hf_sid = sid, hf_hs_type = t, hf_frag_idx = of_nat i,
      hf_frag_total = n, hf_body = block 1268 i msg\<rparr>"

lemma fragment_message_ok:
  "hs_shape t n msg \<Longrightarrow> fragment_message t v sid msg =
     Inr (map (\<lambda>i. WirePacket (hs_datagram t v sid msg n i)) [0..<unat n])"
  by (simp add: fragment_message_def hs_shape_def)

lemma hs_datagram_length:
  "length sid = 8 \<Longrightarrow> length (hs_datagram t v sid msg n i) = PACKET_SIZE"
  by (simp add: hs_datagram_eq layout_values length_block)

lemma from_datagram_fragment:
  assumes sh: "hs_shape t n msg" and sid: "length sid = 8" and i: "i < unat n"
  shows "from_datagram (WirePacket (hs_datagram t PROTOCOL_VERSION sid msg n i)) = Inr (hs_fragment t sid msg n i)"
proof -
  note b = hs_shape_bounds [OF sh]
  let ?b = "hs_datagram t PROTOCOL_VERSION sid msg n i"
  have ui: "unat (of_nat i :: byte) = i" using i b(2) by (simp add: unat_of_nat)
  have lt: "\<not> n \<le> (of_nat i :: byte)" using ui i by (simp add: word_le_nat_alt)
  have eq: "?b = PROTOCOL_VERSION # sid @ [t, of_nat i, n] @ block 1268 i msg @
      replicate (1268 - length (block 1268 i msg)) 0" by (rule hs_datagram_eq [OF sid])
  have f: "?b ! 0 = PROTOCOL_VERSION" "?b ! 9 = t" "?b ! 10 = of_nat i" "?b ! 11 = n" "slice 1 9 ?b = sid"
    using sid by (simp_all add: eq nth_append slice_def)
  have len: "min (length msg - i * 1268) 1268 = length (block 1268 i msg)"
    by (simp add: length_block min.commute)
  have body: "slice 12 (12 + length (block 1268 i msg)) ?b = block 1268 i msg"
    using sid by (simp add: eq slice_def)
  show ?thesis
    using sh f lt ui len body
    by (simp add: from_datagram_def hs_shape_def hs_fragment_def hs_values VERSION_LEN_def
        SESSION_ID_LEN_def Let_def)
qed

section \<open>The assembler\<close>

text \<open>What holds of an assembler whatever fragments it is given: its buffer keeps the pinned length of
  its type (so every write is in range), and it is complete exactly when every slot is filled.\<close>

definition assembler_inv :: "FragmentAssembler \<Rightarrow> bool" where
  "assembler_inv a \<longleftrightarrow> length (fa_received a) = 5 \<and> expected_frag_count (fa_hs_type a) = Some (fa_total a) \<and>
     message_body_len (fa_hs_type a) = Some (length (fa_buffer a)) \<and>
     fa_complete a = (\<forall>i < unat (fa_total a). fa_received a ! i)"

lemma assembler_inv_shape: "assembler_inv a \<Longrightarrow> hs_shape (fa_hs_type a) (fa_total a) (fa_buffer a)"
  by (simp add: assembler_inv_def hs_shape_def)

lemma assembler_new_inv: "assembler_new t = Some a \<Longrightarrow> assembler_inv a \<and> fa_hs_type a = t"
proof -
  assume "assembler_new t = Some a"
  then obtain n m where t: "expected_frag_count t = Some n" "message_body_len t = Some m"
    and a: "a = \<lparr>fa_hs_type = t, fa_total = n, fa_received = replicate (unat M2_FRAG_COUNT) False,
      fa_buffer = replicate m 0, fa_complete = False\<rparr>"
    by (auto simp: assembler_new_def split: option.splits)
  have "hs_shape t n (replicate m 0)" using t by (simp add: hs_shape_def)
  then have "0 < unat n" by (rule hs_shape_bounds)
  then have "\<not> (\<forall>i < unat n. replicate 5 False ! i)" by (intro notI) (drule spec [of _ 0], simp)
  then show ?thesis using t a by (simp add: assembler_inv_def M2_FRAG_COUNT_def)
qed

text \<open>The branches of \<open>add_fragment\<close> as one case distinction.\<close>

definition fits :: "HandshakeFragment \<Rightarrow> FragmentAssembler \<Rightarrow> bool" where
  "fits frag a \<longleftrightarrow> \<not> fa_complete a \<and> hf_hs_type frag = fa_hs_type a \<and> hf_frag_total frag = fa_total a \<and>
     unat (hf_frag_idx frag) < unat (fa_total a) \<and> \<not> fa_received a ! unat (hf_frag_idx frag) \<and>
     unat (hf_frag_idx frag) * 1268 + length (hf_body frag) \<le> length (fa_buffer a)"

definition filled :: "HandshakeFragment \<Rightarrow> FragmentAssembler \<Rightarrow> FragmentAssembler" where
  "filled frag a = a\<lparr>fa_received := (fa_received a)[unat (hf_frag_idx frag) := True],
     fa_buffer := copy_at (unat (hf_frag_idx frag) * 1268) (hf_body frag) (fa_buffer a)\<rparr>"

lemma add_fragment_cases:
  assumes "length (fa_received a) = 5" "unat (fa_total a) \<le> 5"
  shows "add_fragment frag a =
    (if \<not> fits frag a then (Ignored, a)
     else if \<forall>i < unat (fa_total a). fa_received (filled frag a) ! i
     then (Completed, filled frag a\<lparr>fa_complete := True\<rparr>)
     else (Advanced, filled frag a))"
proof -
  have all: "list_all (\<lambda>r. r) (take n xs) \<longleftrightarrow> (\<forall>i < n. xs ! i)" if "n \<le> length xs" for n xs
    using that by (simp add: list_all_length)
  show ?thesis
  proof (cases "fits frag a")
    case True
    then show ?thesis
      using assms all [of "unat (fa_total a)" "fa_received (filled frag a)"]
      by (simp add: add_fragment_def fits_def filled_def hs_values Let_def)
  next
    case False
    then show ?thesis by (auto simp: add_fragment_def fits_def hs_values Let_def)
  qed
qed

lemma add_fragment_inv: "assembler_inv a \<Longrightarrow> assembler_inv (snd (add_fragment frag a))"
proof -
  assume inv: "assembler_inv a"
  have l: "length (fa_received a) = 5" "unat (fa_total a) \<le> 5"
    using inv hs_shape_bounds(2) [OF assembler_inv_shape] by (auto simp: assembler_inv_def)
  show ?thesis
  proof (cases "fits frag a")
    case True
    then show ?thesis
      using inv unfolding add_fragment_cases [OF l]
      by (auto simp: assembler_inv_def filled_def fits_def)
  next
    case False
    then show ?thesis using inv unfolding add_fragment_cases [OF l] by simp
  qed
qed

interpretation assembler: step_system add_fragment assembler_inv
  by unfold_locales (rule add_fragment_inv)

text \<open>The fragments of one message.\<close>

definition assembling :: "byte \<Rightarrow> byte \<Rightarrow> bytes \<Rightarrow> nat set \<Rightarrow> FragmentAssembler \<Rightarrow> bool" where
  "assembling t n msg S a \<longleftrightarrow> assembler_inv a \<and> fa_hs_type a = t \<and> fa_total a = n \<and>
     (\<forall>i < unat n. fa_received a ! i \<longleftrightarrow> i \<in> S) \<and> agree_on 1268 S msg (fa_buffer a)"

lemma assembling_new:
  assumes "hs_shape t n msg"
  obtains a where "assembler_new t = Some a" "assembling t n msg {} a"
proof -
  let ?a = "\<lparr>fa_hs_type = t, fa_total = n, fa_received = replicate (unat M2_FRAG_COUNT) False,
    fa_buffer = replicate (length msg) 0, fa_complete = False\<rparr>"
  have new: "assembler_new t = Some ?a" using assms by (simp add: assembler_new_def hs_shape_def)
  have "unat n \<le> 5" by (rule hs_shape_bounds(2) [OF assms])
  then have "assembling t n msg {} ?a"
    using assembler_new_inv [OF new] by (simp add: assembling_def agree_on_def M2_FRAG_COUNT_def)
  then show thesis using that new by blast
qed

lemma lessThan_subset: "{..<(n :: nat)} \<subseteq> S \<longleftrightarrow> (\<forall>i < n. i \<in> S)"
  by auto

lemma assembling_step:
  assumes sh: "hs_shape t n msg" and a: "assembling t n msg S a" and i: "i < unat n"
  shows "assembling t n msg (insert i S) (snd (add_fragment (hs_fragment t sid msg n i) a))"
    "fst (add_fragment (hs_fragment t sid msg n i) a) =
       (if i \<in> S \<or> {..<unat n} \<subseteq> S then Ignored else if {..<unat n} \<subseteq> insert i S then Completed else Advanced)"
proof -
  note b = hs_shape_bounds [OF sh]
  have inv: "assembler_inv a" and ty: "fa_hs_type a = t" "fa_total a = n"
    and rc: "\<And>i. i < unat n \<Longrightarrow> fa_received a ! i \<longleftrightarrow> i \<in> S"
    and ag: "agree_on 1268 S msg (fa_buffer a)"
    using a unfolding assembling_def by blast+
  let ?f = "hs_fragment t sid msg n i"
  have l: "length (fa_received a) = 5" "unat (fa_total a) \<le> 5"
    using inv b(2) ty by (simp_all add: assembler_inv_def)
  have ui: "unat (hf_frag_idx ?f) = i" using i b(2) by (simp add: hs_fragment_def unat_of_nat)
  have f: "hf_hs_type ?f = t" "hf_frag_total ?f = n" "hf_body ?f = block 1268 i msg"
    by (simp_all add: hs_fragment_def)
  have comp: "fa_complete a \<longleftrightarrow> {..<unat n} \<subseteq> S"
    using inv rc ty unfolding assembler_inv_def lessThan_subset by simp
  have "i * 1268 \<le> (unat n - 1) * 1268" using i by (intro mult_le_mono1) simp
  then have start: "i * 1268 \<le> length msg" using b(3) by linarith
  then have room: "i * 1268 + length (block 1268 i msg) \<le> length (fa_buffer a)"
    using ag by (simp add: agree_on_def length_block)
  have fits: "fits ?f a \<longleftrightarrow> \<not> ({..<unat n} \<subseteq> S) \<and> i \<notin> S"
    using ty ui i room comp rc [OF i] unfolding fits_def f by simp
  have rc2: "fa_received (filled ?f a) ! j \<longleftrightarrow> j \<in> insert i S" if "j < unat n" for j
    using that rc [OF that] ui i l ty by (auto simp: filled_def nth_list_update)
  show "assembling t n msg (insert i S) (snd (add_fragment ?f a))"
  proof (cases "fits ?f a")
    case False
    then have iS: "i \<in> S" using fits i by (auto simp: subset_eq)
    have "snd (add_fragment ?f a) = a" using False unfolding add_fragment_cases [OF l] by simp
    then show ?thesis using a iS by (simp add: insert_absorb)
  next
    case True
    have "agree_on 1268 (insert i S) msg (fa_buffer (filled ?f a))"
      using agree_on_write [of 1268 S msg "fa_buffer a" i] ag start ui f by (simp add: filled_def)
    moreover have "assembler_inv (snd (add_fragment ?f a))" by (rule add_fragment_inv [OF inv])
    ultimately show ?thesis
      using ty True rc2 unfolding add_fragment_cases [OF l] assembling_def
      by (simp add: filled_def split: if_splits)
  qed
  have "(\<forall>j < unat (fa_total a). fa_received (filled ?f a) ! j) \<longleftrightarrow> {..<unat n} \<subseteq> insert i S"
    unfolding ty lessThan_subset using rc2 by simp
  then show "fst (add_fragment ?f a) =
      (if i \<in> S \<or> {..<unat n} \<subseteq> S then Ignored else if {..<unat n} \<subseteq> insert i S then Completed else Advanced)"
    using fits unfolding add_fragment_cases [OF l] by simp
qed

lemma assembling_run:
  assumes "hs_shape t n msg" "assembling t n msg S a" "set js \<subseteq> {..<unat n}"
  shows "assembling t n msg (S \<union> set js) (snd (run add_fragment (map (hs_fragment t sid msg n) js) a))"
  using assms(2,3)
proof (induction js arbitrary: S a)
  case Nil
  then show ?case by simp
next
  case (Cons j js)
  have "assembling t n msg (insert j S) (snd (add_fragment (hs_fragment t sid msg n j) a))"
    using assembling_step(1) [OF assms(1) Cons.prems(1)] Cons.prems(2) by simp
  from Cons.IH [OF this] Cons.prems(2) show ?case by simp
qed

lemma assembling_message:
  assumes "hs_shape t n msg" "assembling t n msg S a"
  shows "assembled_message a = (if {..<unat n} \<subseteq> S then Some msg else None)"
proof -
  note A = assms(2) [unfolded assembling_def]
  have "fa_complete a \<longleftrightarrow> {..<unat n} \<subseteq> S"
    using A unfolding assembler_inv_def lessThan_subset by simp
  moreover have "fa_buffer a = msg" if "{..<unat n} \<subseteq> S"
    using agree_on_all [of 1268 S msg "fa_buffer a" "unat n"] A that hs_shape_bounds(4) [OF assms(1)] by simp
  ultimately show ?thesis by (simp add: assembled_message_def)
qed

section \<open>Properties\<close>

text \<open>The receiving side of a handshake message: parse each datagram and add the fragment.\<close>

definition receive_fragment :: "WirePacket \<Rightarrow> FragmentAssembler \<Rightarrow> FragmentResult \<times> FragmentAssembler" where
  "receive_fragment pkt a =
     (case from_datagram pkt of Inl _ \<Rightarrow> (Ignored, a) | Inr frag \<Rightarrow> add_fragment frag a)"

lemma receive_fragments:
  assumes sh: "hs_shape t n msg" and sid: "length sid = 8" and js: "set js \<subseteq> {..<unat n}"
  shows "run receive_fragment (map (\<lambda>i. WirePacket (hs_datagram t PROTOCOL_VERSION sid msg n i)) js) a =
    run add_fragment (map (hs_fragment t sid msg n) js) a"
  using js
proof (induction js arbitrary: a)
  case (Cons i js)
  then show ?case
    using from_datagram_fragment [OF sh sid, of i] by (simp add: receive_fragment_def)
qed simp

text \<open>C17: the datagrams of a handshake message rebuild it whatever their order, repetition and loss:
  after any selection of them the assembler holds the message exactly when every fragment has
  arrived, and no message before.\<close>

theorem handshake_message_any_order:
  assumes "fragment_message t PROTOCOL_VERSION sid msg = Inr pkts" "length sid = 8" "assembler_new t = Some a"
    and "set js \<subseteq> {..<length pkts}"
  shows "assembled_message (snd (run receive_fragment (map (\<lambda>i. pkts ! i) js) a)) =
    (if {..<length pkts} \<subseteq> set js then Some msg else None)"
proof -
  obtain n where sh: "hs_shape t n msg"
    using assms(1) by (auto simp: fragment_message_def hs_shape_def split: option.splits if_splits)
  have pkts: "pkts = map (\<lambda>i. WirePacket (hs_datagram t PROTOCOL_VERSION sid msg n i)) [0..<unat n]"
    using fragment_message_ok [OF sh, of PROTOCOL_VERSION sid] assms(1) by simp
  have js: "set js \<subseteq> {..<unat n}" using assms(4) pkts by simp
  have m: "map (\<lambda>i. pkts ! i) js = map (\<lambda>i. WirePacket (hs_datagram t PROTOCOL_VERSION sid msg n i)) js"
    using js pkts by auto
  have a0: "assembling t n msg {} a" using assembling_new [OF sh] assms(3) by force
  have "assembling t n msg (set js) (snd (run receive_fragment (map (\<lambda>i. pkts ! i) js) a))"
    using assembling_run [OF sh a0 js, of sid] unfolding m receive_fragments [OF sh assms(2) js] by simp
  from assembling_message [OF sh this] show ?thesis using pkts by simp
qed

theorem handshake_message_any_order_witness:
  "\<exists>pkts a. fragment_message HS_TYPE_CLIENT_HELLO PROTOCOL_VERSION (replicate 8 1) (replicate M1_BODY_LEN 7) = Inr pkts \<and>
    assembler_new HS_TYPE_CLIENT_HELLO = Some a \<and>
    assembled_message (snd (run receive_fragment (map (\<lambda>i. pkts ! i) [3, 1, 1, 0, 2]) a)) = Some (replicate M1_BODY_LEN 7)"
proof -
  have sh: "hs_shape HS_TYPE_CLIENT_HELLO 4 (replicate M1_BODY_LEN 7)"
    by (simp add: hs_shape_def expected_frag_count_def message_body_len_def M1_FRAG_COUNT_def)
  obtain a where a: "assembler_new HS_TYPE_CLIENT_HELLO = Some a" using assembling_new [OF sh] by blast
  obtain pkts where p: "fragment_message HS_TYPE_CLIENT_HELLO PROTOCOL_VERSION (replicate 8 1) (replicate M1_BODY_LEN 7) = Inr pkts"
    and l: "length pkts = 4"
    using fragment_message_ok [OF sh, of PROTOCOL_VERSION "replicate 8 1"] by simp
  have four: "{..<4 :: nat} = set [3, 1, 1, 0, 2]" by auto
  have "assembled_message (snd (run receive_fragment (map (\<lambda>i. pkts ! i) [3, 1, 1, 0, 2]) a)) =
      (if {..<length pkts} \<subseteq> set [3, 1, 1, 0, 2] then Some (replicate M1_BODY_LEN 7) else None)"
    by (rule handshake_message_any_order [OF p _ a]) (simp_all add: l four)
  then show ?thesis using p a unfolding l four by auto
qed

end
