(* ===== verification/Handshake_Messages.thy ===== *)
theory Handshake_Messages
  imports Handshake_Framing
begin

text \<open>
  The three handshake messages of \<open>pq-tunnel-core/src/handshake_v2.rs\<close>, their canonical form, the
  transcript digests TH1 to TH3, the master derivation and the retransmission delays. Each message
  is an interpretation of \<open>fixed_codec\<close>; the zero-filled form of a signed message is its pre-sign
  encoding, so both ends hash the same bytes.
\<close>

section \<open>Errors\<close>

datatype HandshakeV2Error =
    HE_Transport string
  | HE_TransportReset
  | HE_DatagramRejected
  | HE_Codec CodecError
  | HE_Crypto CryptoError
  | HE_Timeout
  | HE_InvalidConfig string

section \<open>M1 ClientHello\<close>

definition encode_m1 :: "byte \<Rightarrow> bytes \<Rightarrow> bytes \<Rightarrow> bytes \<Rightarrow> bytes option \<Rightarrow> bytes" where
  "encode_m1 version sid eph_pk_c x_c sig =
     (let out = replicate M1_BODY_LEN 0;
          out = out[0 := version];
          out = copy_at VERSION_LEN sid out;
          out = copy_at 9 eph_pk_c out;
          out = copy_at (9 + ML_KEM_768_PUBLIC_KEY_BYTES) x_c out
      in case sig of
           None \<Rightarrow> out
         | Some s \<Rightarrow> copy_at (M1_BODY_LEN - ML_DSA_65_SIGNATURE_BYTES) s out)"

record ClientHello =
  ch_version :: byte
  ch_sid :: bytes
  ch_eph_pk_c :: bytes
  ch_x_c :: bytes
  ch_client_sig :: bytes

definition client_hello_encode :: "ClientHello \<Rightarrow> bytes" where
  "client_hello_encode m = encode_m1 (ch_version m) (ch_sid m) (ch_eph_pk_c m) (ch_x_c m) (Some (ch_client_sig m))"

definition client_hello_decode :: "primitives \<Rightarrow> bytes \<Rightarrow> CodecError + ClientHello" where
  "client_hello_decode P data =
     (if length data \<noteq> M1_BODY_LEN then Inl (Truncated ''ClientHello'' M1_BODY_LEN (length data))
      else
        let version = data ! 0 in
        if version \<noteq> PROTOCOL_VERSION then Inl (InvalidVersion PROTOCOL_VERSION version)
        else
          (case kem_public_from_bytes P (slice 9 (9 + ML_KEM_768_PUBLIC_KEY_BYTES) data) of
             Inl e \<Rightarrow> Inl (CodecCrypto e)
           | Inr eph_pk_c \<Rightarrow>
               let x_c = slice (9 + ML_KEM_768_PUBLIC_KEY_BYTES) (M1_BODY_LEN - ML_DSA_65_SIGNATURE_BYTES) data
               in (case dsa_signature_from_bytes P (drop (M1_BODY_LEN - ML_DSA_65_SIGNATURE_BYTES) data) of
                     Inl e \<Rightarrow> Inl (CodecCrypto e)
                   | Inr client_sig \<Rightarrow>
                       Inr \<lparr>ch_version = version, ch_sid = slice 1 9 data, ch_eph_pk_c = eph_pk_c,
                            ch_x_c = x_c, ch_client_sig = client_sig\<rparr>)))"

section \<open>M2 ServerHello\<close>

definition encode_m2 :: "byte \<Rightarrow> bytes \<Rightarrow> bytes \<Rightarrow> bytes \<Rightarrow> bytes \<Rightarrow> bytes option \<Rightarrow> bytes" where
  "encode_m2 version sid eph_pk_s x_s ct2 sig =
     (let out = replicate M2_BODY_LEN 0;
          out = out[0 := version];
          out = copy_at VERSION_LEN sid out;
          out = copy_at 9 eph_pk_s out;
          out = copy_at (9 + ML_KEM_768_PUBLIC_KEY_BYTES) x_s out;
          out = copy_at (9 + ML_KEM_768_PUBLIC_KEY_BYTES + 32) ct2 out
      in case sig of
           None \<Rightarrow> out
         | Some s \<Rightarrow> copy_at (M2_BODY_LEN - ML_DSA_65_SIGNATURE_BYTES) s out)"

record ServerHello =
  sh_version :: byte
  sh_sid :: bytes
  sh_eph_pk_s :: bytes
  sh_x_s :: bytes
  sh_ct2 :: bytes
  sh_server_sig :: bytes

definition server_hello_encode :: "ServerHello \<Rightarrow> bytes" where
  "server_hello_encode m =
     encode_m2 (sh_version m) (sh_sid m) (sh_eph_pk_s m) (sh_x_s m) (sh_ct2 m) (Some (sh_server_sig m))"

definition server_hello_decode :: "primitives \<Rightarrow> bytes \<Rightarrow> CodecError + ServerHello" where
  "server_hello_decode P data =
     (if length data \<noteq> M2_BODY_LEN then Inl (Truncated ''ServerHello'' M2_BODY_LEN (length data))
      else
        let version = data ! 0 in
        if version \<noteq> PROTOCOL_VERSION then Inl (InvalidVersion PROTOCOL_VERSION version)
        else
          (case kem_public_from_bytes P (slice 9 (9 + ML_KEM_768_PUBLIC_KEY_BYTES) data) of
             Inl e \<Rightarrow> Inl (CodecCrypto e)
           | Inr eph_pk_s \<Rightarrow>
               let x_s = slice (9 + ML_KEM_768_PUBLIC_KEY_BYTES) (9 + ML_KEM_768_PUBLIC_KEY_BYTES + 32) data
               in (case kem_ciphertext_from_bytes
                          (slice (9 + ML_KEM_768_PUBLIC_KEY_BYTES + 32)
                             (9 + ML_KEM_768_PUBLIC_KEY_BYTES + 32 + ML_KEM_768_CIPHERTEXT_BYTES) data) of
                     Inl e \<Rightarrow> Inl (CodecCrypto e)
                   | Inr ct2 \<Rightarrow>
                       (case dsa_signature_from_bytes P (drop (M2_BODY_LEN - ML_DSA_65_SIGNATURE_BYTES) data) of
                          Inl e \<Rightarrow> Inl (CodecCrypto e)
                        | Inr server_sig \<Rightarrow>
                            Inr \<lparr>sh_version = version, sh_sid = slice 1 9 data, sh_eph_pk_s = eph_pk_s,
                                 sh_x_s = x_s, sh_ct2 = ct2, sh_server_sig = server_sig\<rparr>))))"

section \<open>M3 ClientConfirm\<close>

definition encode_m3 :: "byte \<Rightarrow> bytes \<Rightarrow> bytes \<Rightarrow> bytes option \<Rightarrow> bytes" where
  "encode_m3 version sid ct3 finished =
     (let out = replicate M3_BODY_LEN 0;
          out = out[0 := version];
          out = copy_at VERSION_LEN sid out;
          out = copy_at 9 ct3 out
      in case finished of
           None \<Rightarrow> out
         | Some m \<Rightarrow> copy_at (M3_BODY_LEN - FINISHED_MAC_LEN) m out)"

record ClientConfirm =
  cc_version :: byte
  cc_sid :: bytes
  cc_ct3 :: bytes
  cc_client_finished :: bytes

definition client_confirm_encode :: "ClientConfirm \<Rightarrow> bytes" where
  "client_confirm_encode m = encode_m3 (cc_version m) (cc_sid m) (cc_ct3 m) (Some (cc_client_finished m))"

definition client_confirm_decode :: "bytes \<Rightarrow> CodecError + ClientConfirm" where
  "client_confirm_decode data =
     (if length data \<noteq> M3_BODY_LEN then Inl (Truncated ''ClientConfirm'' M3_BODY_LEN (length data))
      else
        let version = data ! 0 in
        if version \<noteq> PROTOCOL_VERSION then Inl (InvalidVersion PROTOCOL_VERSION version)
        else
          (case kem_ciphertext_from_bytes (slice 9 (9 + ML_KEM_768_CIPHERTEXT_BYTES) data) of
             Inl e \<Rightarrow> Inl (CodecCrypto e)
           | Inr ct3 \<Rightarrow>
               Inr \<lparr>cc_version = version, cc_sid = slice 1 9 data, cc_ct3 = ct3,
                    cc_client_finished = drop (M3_BODY_LEN - FINISHED_MAC_LEN) data\<rparr>))"

section \<open>Transcript\<close>

definition HANDSHAKE_DOMAIN :: bytes where
  "HANDSHAKE_DOMAIN = ascii ''pq-tunnel-v1''"

definition signature_slot :: "byte \<Rightarrow> nat option" where
  "signature_slot hs_type =
     (if hs_type = HS_TYPE_CLIENT_HELLO \<or> hs_type = HS_TYPE_SERVER_HELLO then Some ML_DSA_65_SIGNATURE_BYTES
      else if hs_type = HS_TYPE_CLIENT_CONFIRM then Some FINISHED_MAC_LEN
      else None)"

definition canonical_zerofill :: "byte \<Rightarrow> bytes \<Rightarrow> bytes option" where
  "canonical_zerofill hs_type message =
     (case signature_slot hs_type of
        None \<Rightarrow> None
      | Some slot \<Rightarrow>
          (case message_body_len hs_type of
             None \<Rightarrow> None
           | Some len \<Rightarrow>
               if length message \<noteq> len then None
               else Some (take (len - slot) message @ map (\<lambda>_. 0) (drop (len - slot) message))))"

definition hash_with_domain :: "primitives \<Rightarrow> bytes list \<Rightarrow> bytes" where
  "hash_with_domain P parts =
     transcript_into_bytes P (fold transcript_update parts (transcript_new_with_initial HANDSHAKE_DOMAIN))"

definition th1_from_m1 :: "primitives \<Rightarrow> bytes \<Rightarrow> bytes option" where
  "th1_from_m1 P m1 =
     (case canonical_zerofill HS_TYPE_CLIENT_HELLO m1 of
        None \<Rightarrow> None | Some canon \<Rightarrow> Some (hash_with_domain P [canon]))"

definition th2_from_m1_m2 :: "primitives \<Rightarrow> bytes \<Rightarrow> bytes \<Rightarrow> bytes option" where
  "th2_from_m1_m2 P m1_s m2 =
     (if length m1_s \<noteq> M1_BODY_LEN then None
      else (case canonical_zerofill HS_TYPE_SERVER_HELLO m2 of
              None \<Rightarrow> None | Some m2_z \<Rightarrow> Some (hash_with_domain P [m1_s, m2_z])))"

definition th3_from_m1_m2_m3 :: "primitives \<Rightarrow> bytes \<Rightarrow> bytes \<Rightarrow> bytes \<Rightarrow> bytes option" where
  "th3_from_m1_m2_m3 P m1 m2 m3 =
     (case canonical_zerofill HS_TYPE_CLIENT_HELLO m1 of None \<Rightarrow> None | Some m1_z \<Rightarrow>
      (case canonical_zerofill HS_TYPE_SERVER_HELLO m2 of None \<Rightarrow> None | Some m2_z \<Rightarrow>
      (case canonical_zerofill HS_TYPE_CLIENT_CONFIRM m3 of None \<Rightarrow> None | Some m3_z \<Rightarrow>
        Some (hash_with_domain P [m1_z, m2_z, m3_z]))))"

definition derive_master ::
  "primitives \<Rightarrow> bytes \<Rightarrow> bytes \<Rightarrow> bytes \<Rightarrow> byte \<Rightarrow> bytes \<Rightarrow> bytes \<Rightarrow> HandshakeV2Error + bytes" where
  "derive_master P ss_a ss_b dh_cs version sid th3 =
     (case derive_master_secret_v2 P ss_a ss_b dh_cs version sid th3 of
        Inl e \<Rightarrow> Inl (HE_Crypto e) | Inr m \<Rightarrow> Inr m)"

section \<open>Delays and shared helpers\<close>

text \<open>\<open>getrandom::u64()\<close> is the argument \<open>rnd\<close>; the code replaces a failure by zero. The
  conversion back to a duration is capped at \<open>u64::MAX\<close> nanoseconds.\<close>

definition jittered :: "u64 option \<Rightarrow> duration \<Rightarrow> duration" where
  "jittered rnd base =
     (let r = (case rnd of None \<Rightarrow> 0 | Some v \<Rightarrow> unat v);
          factor = 80 + r mod 40
      in min (base * factor div 100) (2 ^ 64 - 1))"

definition DURATION_MAX :: duration where
  "DURATION_MAX = (2 ^ 64 - 1) * 1000000000 + 999999999"

definition backoff_delay :: "u64 option \<Rightarrow> duration \<Rightarrow> u32 \<Rightarrow> duration" where
  "backoff_delay rnd base attempt =
     (let shift = min (unat attempt) 5 in jittered rnd (min (base * 2 ^ shift) DURATION_MAX))"

text \<open>The outcome of \<open>getrandom::fill\<close> is the argument of \<open>random_sid\<close>: the error as displayed, or
  the eight bytes.\<close>

definition random_sid :: "string + bytes \<Rightarrow> HandshakeV2Error + bytes" where
  "random_sid rnd =
     (case rnd of
        Inl e \<Rightarrow> Inl (HE_Crypto (InvalidInput (''getrandom: '' @ e)))
      | Inr sid \<Rightarrow> Inr sid)"

definition validate_version :: "byte \<Rightarrow> HandshakeV2Error + unit" where
  "validate_version version =
     (if version = PROTOCOL_VERSION then Inr ()
      else Inl (HE_InvalidConfig
             (''version '' @ decimal (unat version) @ '' unsupported (expected '' @
              decimal (unat PROTOCOL_VERSION) @ '')'')))"

section \<open>Layouts and round trips\<close>

definition client_hello_wf :: "primitives \<Rightarrow> ClientHello \<Rightarrow> bool" where
  "client_hello_wf P m =
     (ch_version m = PROTOCOL_VERSION \<and> length (ch_sid m) = SESSION_ID_LEN \<and>
      length (ch_eph_pk_c m) = ML_KEM_768_PUBLIC_KEY_BYTES \<and> mlkem_ek_ok P (ch_eph_pk_c m) \<and>
      length (ch_x_c m) = X25519_PUBLIC_KEY_BYTES \<and>
      length (ch_client_sig m) = ML_DSA_65_SIGNATURE_BYTES \<and> mldsa_sig_ok P (ch_client_sig m))"

definition server_hello_wf :: "primitives \<Rightarrow> ServerHello \<Rightarrow> bool" where
  "server_hello_wf P m =
     (sh_version m = PROTOCOL_VERSION \<and> length (sh_sid m) = SESSION_ID_LEN \<and>
      length (sh_eph_pk_s m) = ML_KEM_768_PUBLIC_KEY_BYTES \<and> mlkem_ek_ok P (sh_eph_pk_s m) \<and>
      length (sh_x_s m) = X25519_PUBLIC_KEY_BYTES \<and> length (sh_ct2 m) = ML_KEM_768_CIPHERTEXT_BYTES \<and>
      length (sh_server_sig m) = ML_DSA_65_SIGNATURE_BYTES \<and> mldsa_sig_ok P (sh_server_sig m))"

definition client_confirm_wf :: "ClientConfirm \<Rightarrow> bool" where
  "client_confirm_wf m =
     (cc_version m = PROTOCOL_VERSION \<and> length (cc_sid m) = SESSION_ID_LEN \<and>
      length (cc_ct3 m) = ML_KEM_768_CIPHERTEXT_BYTES \<and> length (cc_client_finished m) = FINISHED_MAC_LEN)"

lemma zeros_m1: "replicate M1_BODY_LEN (0 :: byte) =
    0 # replicate 8 0 @ replicate 1184 0 @ replicate 32 0 @ replicate 3309 0"
proof -
  have e: "M1_BODY_LEN = Suc (8 + (1184 + (32 + 3309)))" by (simp add: layout_simps)
  show ?thesis unfolding e replicate_Suc replicate_add ..
qed

lemma zeros_m2: "replicate M2_BODY_LEN (0 :: byte) =
    0 # replicate 8 0 @ replicate 1184 0 @ replicate 32 0 @ replicate 1088 0 @ replicate 3309 0"
proof -
  have e: "M2_BODY_LEN = Suc (8 + (1184 + (32 + (1088 + 3309))))" by (simp add: layout_simps)
  show ?thesis unfolding e replicate_Suc replicate_add ..
qed

lemma zeros_m3: "replicate M3_BODY_LEN (0 :: byte) = 0 # replicate 8 0 @ replicate 1088 0 @ replicate 16 0"
proof -
  have e: "M3_BODY_LEN = Suc (8 + (1088 + 16))" by (simp add: layout_simps)
  show ?thesis unfolding e replicate_Suc replicate_add ..
qed

text \<open>Writing a field over a region of the same length replaces that region.\<close>

lemma copy_at_field:
  "off = length ys \<Longrightarrow> length xs = length zs \<Longrightarrow> copy_at off xs (ys @ zs @ ws) = ys @ xs @ ws"
  by (simp add: copy_at_def)

lemma write_sid: "length sid = 8 \<Longrightarrow> copy_at VERSION_LEN sid (v # replicate 8 0 @ r) = v # sid @ r"
  using copy_at_field [of VERSION_LEN "[v]" sid "replicate 8 0" r] by (simp add: layout_simps)

lemma write_after_sid:
  "length sid = 8 \<Longrightarrow> length f = n \<Longrightarrow> copy_at 9 f (v # sid @ replicate n 0 @ r) = v # sid @ f @ r"
  using copy_at_field [of 9 "v # sid" f "replicate n 0" r] by simp

lemma write_share:
  "length sid = 8 \<Longrightarrow> length pk = 1184 \<Longrightarrow> length x = 32 \<Longrightarrow>
   copy_at (9 + ML_KEM_768_PUBLIC_KEY_BYTES) x (v # sid @ pk @ replicate 32 0 @ r) = v # sid @ pk @ x @ r"
  using copy_at_field [of "9 + ML_KEM_768_PUBLIC_KEY_BYTES" "v # sid @ pk" x "replicate 32 0" r]
  by (simp add: layout_simps)

lemma encode_m1_eq:
  assumes "length sid = 8" "length pk = 1184" "length x = 32" "\<forall>s. sig = Some s \<longrightarrow> length s = 3309"
  shows "encode_m1 v sid pk x sig =
    v # sid @ pk @ x @ (case sig of None \<Rightarrow> replicate 3309 0 | Some s \<Rightarrow> s)"
proof -
  note fields = write_sid [OF assms(1)] write_after_sid [OF assms(1,2)] write_share [OF assms(1-3)]
  have 4: "copy_at (M1_BODY_LEN - ML_DSA_65_SIGNATURE_BYTES) s (v # sid @ pk @ x @ replicate 3309 0)
      = v # sid @ pk @ x @ s" if "sig = Some s" for s
    using copy_at_field [of "M1_BODY_LEN - ML_DSA_65_SIGNATURE_BYTES" "v # sid @ pk @ x" s "replicate 3309 0" "[]"]
      assms that by (simp add: layout_simps)
  show ?thesis
    unfolding encode_m1_def Let_def zeros_m1 list_update_code(2) fields
    by (cases sig) (simp_all only: option.case 4)
qed

lemma encode_m2_eq:
  assumes "length sid = 8" "length pk = 1184" "length x = 32" "length ct = 1088"
    "\<forall>s. sig = Some s \<longrightarrow> length s = 3309"
  shows "encode_m2 v sid pk x ct sig =
    v # sid @ pk @ x @ ct @ (case sig of None \<Rightarrow> replicate 3309 0 | Some s \<Rightarrow> s)"
proof -
  note fields = write_sid [OF assms(1)] write_after_sid [OF assms(1,2)] write_share [OF assms(1-3)]
  have 4: "copy_at (9 + ML_KEM_768_PUBLIC_KEY_BYTES + 32) ct (v # sid @ pk @ x @ replicate 1088 0 @ r)
      = v # sid @ pk @ x @ ct @ r" for r
    using copy_at_field [of "9 + ML_KEM_768_PUBLIC_KEY_BYTES + 32" "v # sid @ pk @ x" ct "replicate 1088 0" r] assms
    by (simp add: layout_simps)
  have 5: "copy_at (M2_BODY_LEN - ML_DSA_65_SIGNATURE_BYTES) s (v # sid @ pk @ x @ ct @ replicate 3309 0)
      = v # sid @ pk @ x @ ct @ s" if "sig = Some s" for s
    using copy_at_field [of "M2_BODY_LEN - ML_DSA_65_SIGNATURE_BYTES" "v # sid @ pk @ x @ ct" s "replicate 3309 0" "[]"]
      assms that by (simp add: layout_simps)
  show ?thesis
    unfolding encode_m2_def Let_def zeros_m2 list_update_code(2) fields 4
    by (cases sig) (simp_all only: option.case 5)
qed

lemma encode_m3_eq:
  assumes "length sid = 8" "length ct = 1088" "\<forall>m. fin = Some m \<longrightarrow> length m = 16"
  shows "encode_m3 v sid ct fin = v # sid @ ct @ (case fin of None \<Rightarrow> replicate 16 0 | Some m \<Rightarrow> m)"
proof -
  note fields = write_sid [OF assms(1)] write_after_sid [OF assms(1,2)]
  have 2: "copy_at 9 ct (v # sid @ replicate 1088 0 @ r) = v # sid @ ct @ r" for r
    using copy_at_field [of 9 "v # sid" ct "replicate 1088 0" r] assms by simp
  have 3: "copy_at (M3_BODY_LEN - FINISHED_MAC_LEN) m (v # sid @ ct @ replicate 16 0) = v # sid @ ct @ m"
    if "fin = Some m" for m
    using copy_at_field [of "M3_BODY_LEN - FINISHED_MAC_LEN" "v # sid @ ct" m "replicate 16 0" "[]"]
      assms that by (simp add: layout_simps)
  show ?thesis
    unfolding encode_m3_def Let_def zeros_m3 list_update_code(2) fields
    by (cases fin) (simp_all only: option.case 3)
qed

text \<open>A body is its first byte followed by its consecutive slices.\<close>

lemma bytes_split_head: "0 < length bs \<Longrightarrow> bs = bs ! 0 # drop 1 bs"
  by (cases bs) auto

lemma drop_slice: "a \<le> b \<Longrightarrow> drop a bs = slice a b bs @ drop b bs"
  by (metis append_take_drop_id drop_drop le_add_diff_inverse2 slice_def)

lemma client_hello_decode_encode:
  assumes "client_hello_wf P m"
  shows "client_hello_decode P (client_hello_encode m) = Inr m"
proof -
  have e: "client_hello_encode m = ch_version m # ch_sid m @ ch_eph_pk_c m @ ch_x_c m @ ch_client_sig m"
    using assms by (simp add: client_hello_encode_def client_hello_wf_def encode_m1_eq layout_simps)
  show ?thesis
    using assms unfolding e
    by (simp add: client_hello_decode_def client_hello_wf_def slice_def kem_public_from_bytes_def
        dsa_signature_from_bytes_def layout_simps)
qed

lemma client_hello_decode_sound:
  assumes "client_hello_decode P bs = Inr m"
  shows "client_hello_wf P m \<and> M1_BODY_LEN \<le> length bs \<and> client_hello_encode m = take M1_BODY_LEN bs"
proof -
  have len: "length bs = 4534" and v: "bs ! 0 = PROTOCOL_VERSION"
    and m: "m = \<lparr>ch_version = bs ! 0, ch_sid = slice 1 9 bs, ch_eph_pk_c = slice 9 1193 bs,
        ch_x_c = slice 1193 1225 bs, ch_client_sig = drop 1225 bs\<rparr>"
    and ok: "mlkem_ek_ok P (slice 9 1193 bs)" "mldsa_sig_ok P (drop 1225 bs)"
    using assms
    by (auto simp: client_hello_decode_def kem_public_from_bytes_def dsa_signature_from_bytes_def layout_simps Let_def
        split: if_splits sum.splits)
  have "bs = bs ! 0 # slice 1 9 bs @ slice 9 1193 bs @ slice 1193 1225 bs @ drop 1225 bs"
    using bytes_split_head [of bs] drop_slice [of 1 9 bs] drop_slice [of 9 1193 bs] drop_slice [of 1193 1225 bs] len
    by simp
  then show ?thesis
    using len v ok by (simp add: m client_hello_wf_def client_hello_encode_def encode_m1_eq layout_simps)
qed

lemma server_hello_decode_encode:
  assumes "server_hello_wf P m"
  shows "server_hello_decode P (server_hello_encode m) = Inr m"
proof -
  have e: "server_hello_encode m =
      sh_version m # sh_sid m @ sh_eph_pk_s m @ sh_x_s m @ sh_ct2 m @ sh_server_sig m"
    using assms by (simp add: server_hello_encode_def server_hello_wf_def encode_m2_eq layout_simps)
  show ?thesis
    using assms unfolding e
    by (simp add: server_hello_decode_def server_hello_wf_def slice_def kem_public_from_bytes_def
        kem_ciphertext_from_bytes_def dsa_signature_from_bytes_def layout_simps)
qed

lemma server_hello_decode_sound:
  assumes "server_hello_decode P bs = Inr m"
  shows "server_hello_wf P m \<and> M2_BODY_LEN \<le> length bs \<and> server_hello_encode m = take M2_BODY_LEN bs"
proof -
  have len: "length bs = 5622" and v: "bs ! 0 = PROTOCOL_VERSION"
    and m: "m = \<lparr>sh_version = bs ! 0, sh_sid = slice 1 9 bs, sh_eph_pk_s = slice 9 1193 bs,
        sh_x_s = slice 1193 1225 bs, sh_ct2 = slice 1225 2313 bs, sh_server_sig = drop 2313 bs\<rparr>"
    and ok: "mlkem_ek_ok P (slice 9 1193 bs)" "mldsa_sig_ok P (drop 2313 bs)"
    using assms
    by (auto simp: server_hello_decode_def kem_public_from_bytes_def kem_ciphertext_from_bytes_def
        dsa_signature_from_bytes_def layout_simps Let_def split: if_splits sum.splits)
  have "bs = bs ! 0 # slice 1 9 bs @ slice 9 1193 bs @ slice 1193 1225 bs @ slice 1225 2313 bs @ drop 2313 bs"
    using bytes_split_head [of bs] drop_slice [of 1 9 bs] drop_slice [of 9 1193 bs] drop_slice [of 1193 1225 bs]
      drop_slice [of 1225 2313 bs] len
    by simp
  then show ?thesis
    using len v ok by (simp add: m server_hello_wf_def server_hello_encode_def encode_m2_eq layout_simps)
qed

lemma client_confirm_decode_encode:
  assumes "client_confirm_wf m"
  shows "client_confirm_decode (client_confirm_encode m) = Inr m"
proof -
  have e: "client_confirm_encode m = cc_version m # cc_sid m @ cc_ct3 m @ cc_client_finished m"
    using assms by (simp add: client_confirm_encode_def client_confirm_wf_def encode_m3_eq layout_simps)
  show ?thesis
    using assms unfolding e
    by (simp add: client_confirm_decode_def client_confirm_wf_def slice_def kem_ciphertext_from_bytes_def
        layout_simps)
qed

lemma client_confirm_decode_sound:
  assumes "client_confirm_decode bs = Inr m"
  shows "client_confirm_wf m \<and> M3_BODY_LEN \<le> length bs \<and> client_confirm_encode m = take M3_BODY_LEN bs"
proof -
  have len: "length bs = 1113" and v: "bs ! 0 = PROTOCOL_VERSION"
    and m: "m = \<lparr>cc_version = bs ! 0, cc_sid = slice 1 9 bs, cc_ct3 = slice 9 1097 bs,
        cc_client_finished = drop 1097 bs\<rparr>"
    using assms
    by (auto simp: client_confirm_decode_def kem_ciphertext_from_bytes_def layout_simps Let_def
        split: if_splits sum.splits)
  have "bs = bs ! 0 # slice 1 9 bs @ slice 9 1097 bs @ drop 1097 bs"
    using bytes_split_head [of bs] drop_slice [of 1 9 bs] drop_slice [of 9 1097 bs] len by simp
  then show ?thesis
    using len v by (simp add: m client_confirm_wf_def client_confirm_encode_def encode_m3_eq layout_simps)
qed

lemma client_hello_length: "client_hello_wf P m \<Longrightarrow> length (client_hello_encode m) = M1_BODY_LEN"
  by (simp add: client_hello_encode_def client_hello_wf_def encode_m1_eq layout_simps)

lemma server_hello_length: "server_hello_wf P m \<Longrightarrow> length (server_hello_encode m) = M2_BODY_LEN"
  by (simp add: server_hello_encode_def server_hello_wf_def encode_m2_eq layout_simps)

lemma client_confirm_length: "client_confirm_wf m \<Longrightarrow> length (client_confirm_encode m) = M3_BODY_LEN"
  by (simp add: client_confirm_encode_def client_confirm_wf_def encode_m3_eq layout_simps)

interpretation m1: fixed_codec client_hello_encode "client_hello_decode P" "client_hello_wf P" M1_BODY_LEN for P
  by unfold_locales (blast intro: client_hello_length client_hello_decode_encode dest: client_hello_decode_sound)+

interpretation m2: fixed_codec server_hello_encode "server_hello_decode P" "server_hello_wf P" M2_BODY_LEN for P
  by unfold_locales (blast intro: server_hello_length server_hello_decode_encode dest: server_hello_decode_sound)+

interpretation m3: fixed_codec client_confirm_encode client_confirm_decode client_confirm_wf M3_BODY_LEN
  by unfold_locales
    (blast intro: client_confirm_length client_confirm_decode_encode dest: client_confirm_decode_sound)+

section \<open>Canonical forms and delays\<close>

text \<open>Zero-filling a signed message gives its pre-sign encoding.\<close>

lemma map_zero_replicate: "map (\<lambda>_. 0) xs = replicate (length xs) 0"
  by (rule map_replicate_const)

lemma zerofill_append:
  assumes "signature_slot t = Some (length s)" "message_body_len t = Some (length a + length s)"
  shows "canonical_zerofill t (a @ s) = Some (a @ replicate (length s) 0)"
  using assms by (simp add: canonical_zerofill_def map_zero_replicate)

lemma zerofill_m1:
  assumes "length sid = 8" "length pk = 1184" "length x = 32" "\<forall>s. sig = Some s \<longrightarrow> length s = 3309"
  shows "canonical_zerofill HS_TYPE_CLIENT_HELLO (encode_m1 v sid pk x sig) = Some (encode_m1 v sid pk x None)"
  using zerofill_append [of HS_TYPE_CLIENT_HELLO "case sig of None \<Rightarrow> replicate 3309 0 | Some s \<Rightarrow> s" "v # sid @ pk @ x"] assms
  by (cases sig) (simp_all add: encode_m1_eq signature_slot_def message_body_len_def layout_simps)

lemma zerofill_m2:
  assumes "length sid = 8" "length pk = 1184" "length x = 32" "length ct = 1088"
    "\<forall>s. sig = Some s \<longrightarrow> length s = 3309"
  shows "canonical_zerofill HS_TYPE_SERVER_HELLO (encode_m2 v sid pk x ct sig) =
    Some (encode_m2 v sid pk x ct None)"
  using zerofill_append [of HS_TYPE_SERVER_HELLO "case sig of None \<Rightarrow> replicate 3309 0 | Some s \<Rightarrow> s" "v # sid @ pk @ x @ ct"] assms
  by (cases sig) (simp_all add: encode_m2_eq signature_slot_def message_body_len_def layout_simps HS_TYPE_CLIENT_HELLO_def HS_TYPE_SERVER_HELLO_def)

lemma zerofill_m3:
  assumes "length sid = 8" "length ct = 1088" "\<forall>m. fin = Some m \<longrightarrow> length m = 16"
  shows "canonical_zerofill HS_TYPE_CLIENT_CONFIRM (encode_m3 v sid ct fin) = Some (encode_m3 v sid ct None)"
  using zerofill_append [of HS_TYPE_CLIENT_CONFIRM "case fin of None \<Rightarrow> replicate 16 0 | Some m \<Rightarrow> m" "v # sid @ ct"] assms
  by (cases fin) (simp_all add: encode_m3_eq signature_slot_def message_body_len_def layout_simps HS_TYPE_CLIENT_HELLO_def HS_TYPE_SERVER_HELLO_def HS_TYPE_CLIENT_CONFIRM_def)

lemma zerofill_length: "canonical_zerofill t m = Some z \<Longrightarrow> length z = length m"
  by (auto simp: canonical_zerofill_def split: option.splits if_splits)

lemma hash_with_domain_eq: "hash_with_domain P parts = sha256 P (HANDSHAKE_DOMAIN @ concat parts)"
  using transcript_pieces [of P "HANDSHAKE_DOMAIN # parts"]
  by (simp add: hash_with_domain_def transcript_new_with_initial_def transcript_into_bytes_def
      transcript_challenge_def)

text \<open>The pre-sign encodings, and the digests of messages with the slots filled or empty.\<close>

definition pre_m1 :: "ClientHello \<Rightarrow> bytes" where
  "pre_m1 m = encode_m1 (ch_version m) (ch_sid m) (ch_eph_pk_c m) (ch_x_c m) None"

definition pre_m2 :: "ServerHello \<Rightarrow> bytes" where
  "pre_m2 m = encode_m2 (sh_version m) (sh_sid m) (sh_eph_pk_s m) (sh_x_s m) (sh_ct2 m) None"

definition pre_m3 :: "ClientConfirm \<Rightarrow> bytes" where
  "pre_m3 m = encode_m3 (cc_version m) (cc_sid m) (cc_ct3 m) None"

lemma zerofill_hello:
  assumes "client_hello_wf P m"
  shows "canonical_zerofill HS_TYPE_CLIENT_HELLO (client_hello_encode m) = Some (pre_m1 m)"
    "canonical_zerofill HS_TYPE_CLIENT_HELLO (pre_m1 m) = Some (pre_m1 m)"
  using assms unfolding pre_m1_def client_hello_encode_def
  by (simp_all add: zerofill_m1 client_hello_wf_def layout_simps)

lemma zerofill_server_hello:
  assumes "server_hello_wf P m"
  shows "canonical_zerofill HS_TYPE_SERVER_HELLO (server_hello_encode m) = Some (pre_m2 m)"
    "canonical_zerofill HS_TYPE_SERVER_HELLO (pre_m2 m) = Some (pre_m2 m)"
  using assms unfolding pre_m2_def server_hello_encode_def
  by (simp_all add: zerofill_m2 server_hello_wf_def layout_simps)

lemma zerofill_confirm:
  assumes "client_confirm_wf m"
  shows "canonical_zerofill HS_TYPE_CLIENT_CONFIRM (client_confirm_encode m) = Some (pre_m3 m)"
    "canonical_zerofill HS_TYPE_CLIENT_CONFIRM (pre_m3 m) = Some (pre_m3 m)"
  using assms unfolding pre_m3_def client_confirm_encode_def
  by (simp_all add: zerofill_m3 client_confirm_wf_def layout_simps)

lemma th1_eq:
  assumes "client_hello_wf P m1"
  shows "th1_from_m1 P (client_hello_encode m1) = Some (sha256 P (HANDSHAKE_DOMAIN @ pre_m1 m1))"
    "th1_from_m1 P (pre_m1 m1) = Some (sha256 P (HANDSHAKE_DOMAIN @ pre_m1 m1))"
  by (simp_all add: th1_from_m1_def zerofill_hello [OF assms] hash_with_domain_eq)

lemma th2_eq:
  assumes "client_hello_wf P m1" "server_hello_wf P m2"
  shows "th2_from_m1_m2 P (client_hello_encode m1) (server_hello_encode m2) =
      Some (sha256 P (HANDSHAKE_DOMAIN @ client_hello_encode m1 @ pre_m2 m2))"
    "th2_from_m1_m2 P (client_hello_encode m1) (pre_m2 m2) =
      Some (sha256 P (HANDSHAKE_DOMAIN @ client_hello_encode m1 @ pre_m2 m2))"
  by (simp_all add: th2_from_m1_m2_def zerofill_server_hello [OF assms(2)] hash_with_domain_eq
      client_hello_length [OF assms(1)])

lemma th3_eq:
  assumes "client_hello_wf P m1" "server_hello_wf P m2" "client_confirm_wf m3"
    "a \<in> {client_hello_encode m1, pre_m1 m1}" "b \<in> {server_hello_encode m2, pre_m2 m2}"
    "c \<in> {client_confirm_encode m3, pre_m3 m3}"
  shows "th3_from_m1_m2_m3 P a b c = Some (sha256 P (HANDSHAKE_DOMAIN @ pre_m1 m1 @ pre_m2 m2 @ pre_m3 m3))"
proof -
  have "canonical_zerofill HS_TYPE_CLIENT_HELLO a = Some (pre_m1 m1)"
    "canonical_zerofill HS_TYPE_SERVER_HELLO b = Some (pre_m2 m2)"
    "canonical_zerofill HS_TYPE_CLIENT_CONFIRM c = Some (pre_m3 m3)"
    using assms(4-6) zerofill_hello [OF assms(1)] zerofill_server_hello [OF assms(2)] zerofill_confirm [OF assms(3)]
    by auto
  then show ?thesis by (simp add: th3_from_m1_m2_m3_def hash_with_domain_eq)
qed

lemma derive_master_ok:
  assumes "hkdf_correct P"
  obtains master where "derive_master P ss_a ss_b dh v sid th3 = Inr master" "length master = 32"
proof -
  obtain k where "derive_master_secret_v2 P ss_a ss_b dh v sid th3 = Inr k" "length k = 32"
    using kdf_derive_to_bytes_ok [OF assms, of 32 "ss_a @ ss_b @ dh" zero_salt "ascii ''pq-tunnel-master-v2'' @ [v] @ sid @ th3"]
    by (simp add: derive_master_secret_v2_def Let_def) blast
  then show thesis using that by (simp add: derive_master_def)
qed

lemma jittered_bounds:
  assumes "base * 119 div 100 < 2 ^ 64"
  shows "base * 80 div 100 \<le> jittered rnd base \<and> jittered rnd base \<le> base * 119 div 100"
proof -
  define r where "r = (case rnd of None \<Rightarrow> 0 | Some v \<Rightarrow> unat v)"
  have "r mod 40 < 40" by simp
  then have f: "80 \<le> 80 + r mod 40" "80 + r mod 40 \<le> 119" by linarith+
  have hi: "base * (80 + r mod 40) div 100 \<le> base * 119 div 100"
    using f(2) by (intro div_le_mono mult_le_mono2)
  have lo: "base * 80 div 100 \<le> base * (80 + r mod 40) div 100"
    using f(1) by (intro div_le_mono mult_le_mono2)
  have "jittered rnd base = base * (80 + r mod 40) div 100"
    using hi assms by (simp add: jittered_def r_def Let_def)
  then show ?thesis using hi lo by simp
qed

section \<open>Properties\<close>

text \<open>C40: each of the three handshake messages decodes exactly when it is the canonical encoding, of the
  pinned length, of well-formed fields: decoding inverts encoding and no other byte string is
  accepted for the same message.\<close>

theorem handshake_messages_exact:
  "(client_hello_decode P bs = Inr m1 \<longleftrightarrow> client_hello_wf P m1 \<and> bs = client_hello_encode m1) \<and>
   (server_hello_decode P bs = Inr m2 \<longleftrightarrow> server_hello_wf P m2 \<and> bs = server_hello_encode m2) \<and>
   (client_confirm_decode bs = Inr m3 \<longleftrightarrow> client_confirm_wf m3 \<and> bs = client_confirm_encode m3)"
proof (intro conjI)
  have "length bs = M1_BODY_LEN" if "client_hello_decode P bs = Inr m1"
    using that by (auto simp: client_hello_decode_def split: if_splits)
  then show "client_hello_decode P bs = Inr m1 \<longleftrightarrow> client_hello_wf P m1 \<and> bs = client_hello_encode m1"
    using m1.dec_sound [of P bs m1] m1.dec_exact [of P bs m1] client_hello_decode_encode [of P m1] by blast
  have "length bs = M2_BODY_LEN" if "server_hello_decode P bs = Inr m2"
    using that by (auto simp: server_hello_decode_def split: if_splits)
  then show "server_hello_decode P bs = Inr m2 \<longleftrightarrow> server_hello_wf P m2 \<and> bs = server_hello_encode m2"
    using m2.dec_sound [of P bs m2] m2.dec_exact [of P bs m2] server_hello_decode_encode [of P m2] by blast
  have "length bs = M3_BODY_LEN" if "client_confirm_decode bs = Inr m3"
    using that by (auto simp: client_confirm_decode_def split: if_splits)
  then show "client_confirm_decode bs = Inr m3 \<longleftrightarrow> client_confirm_wf m3 \<and> bs = client_confirm_encode m3"
    using m3.dec_sound [of bs m3] m3.dec_exact [of bs m3] client_confirm_decode_encode [of m3] by blast
qed

text \<open>C18: signer and verifier hash the same bytes. For well-formed messages, the digests computed from
  the full messages (signatures and Finished MAC in place) equal those computed from the pre-sign
  encodings with the slots zero-filled; TH2 keeps the client's signature in its first part.\<close>

theorem transcripts_agree:
  assumes "client_hello_wf P m1" "server_hello_wf P m2" "client_confirm_wf m3"
  defines "z1 \<equiv> encode_m1 (ch_version m1) (ch_sid m1) (ch_eph_pk_c m1) (ch_x_c m1) None"
    and "z2 \<equiv> encode_m2 (sh_version m2) (sh_sid m2) (sh_eph_pk_s m2) (sh_x_s m2) (sh_ct2 m2) None"
    and "z3 \<equiv> encode_m3 (cc_version m3) (cc_sid m3) (cc_ct3 m3) None"
  shows "th1_from_m1 P (client_hello_encode m1) = th1_from_m1 P z1 \<and>
    th1_from_m1 P z1 = Some (sha256 P (HANDSHAKE_DOMAIN @ z1)) \<and>
    th2_from_m1_m2 P (client_hello_encode m1) (server_hello_encode m2) =
      th2_from_m1_m2 P (client_hello_encode m1) z2 \<and>
    th2_from_m1_m2 P (client_hello_encode m1) z2 = Some (sha256 P (HANDSHAKE_DOMAIN @ client_hello_encode m1 @ z2)) \<and>
    th3_from_m1_m2_m3 P (client_hello_encode m1) (server_hello_encode m2) (client_confirm_encode m3) =
      th3_from_m1_m2_m3 P z1 z2 z3 \<and>
    th3_from_m1_m2_m3 P z1 z2 z3 = Some (sha256 P (HANDSHAKE_DOMAIN @ z1 @ z2 @ z3))"
proof -
  have z: "z1 = pre_m1 m1" "z2 = pre_m2 m2" "z3 = pre_m3 m3"
    by (simp_all add: z1_def z2_def z3_def pre_m1_def pre_m2_def pre_m3_def)
  show ?thesis
    unfolding z using th1_eq [OF assms(1)] th2_eq [OF assms(1,2)] th3_eq [OF assms(1-3)] by simp
qed

theorem transcripts_agree_witness:
  "th1_from_m1 demo (client_hello_encode \<lparr>ch_version = 2, ch_sid = replicate 8 1, ch_eph_pk_c = replicate 1184 2,
       ch_x_c = replicate 32 3, ch_client_sig = replicate 3309 4\<rparr>) =
   th1_from_m1 demo (encode_m1 2 (replicate 8 1) (replicate 1184 2) (replicate 32 3) None)"
proof -
  have w1: "client_hello_wf demo \<lparr>ch_version = 2, ch_sid = replicate 8 1, ch_eph_pk_c = replicate 1184 2,
       ch_x_c = replicate 32 3, ch_client_sig = replicate 3309 4\<rparr>"
    by (simp add: client_hello_wf_def PROTOCOL_VERSION_def layout_simps demo_def)
  have w2: "server_hello_wf demo \<lparr>sh_version = 2, sh_sid = replicate 8 1, sh_eph_pk_s = replicate 1184 2,
       sh_x_s = replicate 32 3, sh_ct2 = replicate 1088 5, sh_server_sig = replicate 3309 4\<rparr>"
    by (simp add: server_hello_wf_def PROTOCOL_VERSION_def layout_simps demo_def)
  have w3: "client_confirm_wf \<lparr>cc_version = 2, cc_sid = replicate 8 1, cc_ct3 = replicate 1088 6,
       cc_client_finished = replicate 16 7\<rparr>"
    by (simp add: client_confirm_wf_def PROTOCOL_VERSION_def layout_simps)
  show ?thesis using transcripts_agree [OF w1 w2 w3] by simp
qed

text \<open>Retransmission delays grow exponentially up to 32 times the base with a jitter factor between
  0.80 and 1.19, for every attempt number and random draw, as long as the result fits 64-bit
  nanoseconds.\<close>

lemma backoff_bounds:
  assumes "base * 32 * 119 div 100 < 2 ^ 64"
  shows "base * 2 ^ min (unat attempt) 5 * 80 div 100 \<le> backoff_delay rnd base attempt \<and>
    backoff_delay rnd base attempt \<le> base * 2 ^ min (unat attempt) 5 * 119 div 100 \<and>
    backoff_delay rnd base attempt \<le> base * 32 * 119 div 100"
proof -
  let ?b = "base * 2 ^ min (unat attempt) 5"
  have p: "(2 :: nat) ^ min (unat attempt) 5 \<le> 2 ^ 5" by (rule power_increasing) simp_all
  then have b: "?b \<le> base * 32" by simp
  then have le: "?b * 119 div 100 \<le> base * 32 * 119 div 100" by (intro div_le_mono mult_le_mono1)
  have "?b \<le> DURATION_MAX"
  proof -
    have "base * 32 \<le> base * 32 * 119 div 100" by simp
    also have "\<dots> < 2 ^ 64" by (rule assms)
    finally have "base * 32 < 2 ^ 64" .
    then have "?b < 2 ^ 64" using b by linarith
    then show ?thesis by (simp add: DURATION_MAX_def)
  qed
  then have "backoff_delay rnd base attempt = jittered rnd ?b"
    by (simp add: backoff_delay_def Let_def)
  moreover have "?b * 119 div 100 < 2 ^ 64" using le assms by linarith
  ultimately show ?thesis using jittered_bounds [of ?b rnd] le by simp
qed

end
