(* ===== verification/Nonce.thy ===== *)
theory Nonce
  imports Codec
begin

text \<open>
  The send counter of \<open>pq-tunnel-core/src/nonce.rs\<close>: each call hands out the nonce built from
  the secret prefix and the counter and advances, until the rekey threshold \<open>2 ^ 32\<close> below the
  top of the counter space, from which it refuses for good.
\<close>

record SendCounter =
  sc_counter :: u64

definition send_counter_new :: SendCounter where
  "send_counter_new = \<lparr>sc_counter = 0\<rparr>"

definition max_packet_nonce :: u64 where
  "max_packet_nonce = MAX_PACKET_NONCE"

definition next_nonce :: "bytes \<Rightarrow> SendCounter \<Rightarrow> (CodecError + bytes) \<times> SendCounter" where
  "next_nonce prefix s =
     (if is_counter_exhausted (sc_counter s) then (Inl (NonceExhausted (sc_counter s)), s)
      else let nonce = build_session_nonce prefix (sc_counter s) in
        case checked_add (sc_counter s) 1 of
          None \<Rightarrow> (Inl (NonceExhausted (sc_counter s)), s)
        | Some c \<Rightarrow> (Inr nonce, s\<lparr>sc_counter := c\<rparr>))"

lemma not_exhausted_bound: "\<not> is_counter_exhausted c \<longleftrightarrow> unat c < 2 ^ 64 - 1 - 2 ^ 32"
  by (simp add: is_counter_exhausted_def word_le_nat_alt unat_MAX_PACKET_NONCE not_le)

lemma not_exhausted_succ:
  assumes "\<not> is_counter_exhausted c"
  shows "checked_add c 1 = Some (c + 1)" "unat (c + 1) = Suc (unat c)"
proof -
  have b: "unat c + 1 < 2 ^ 64" using assms by (simp add: not_exhausted_bound)
  then show "checked_add c 1 = Some (c + 1)" by (simp add: checked_add_def)
  then show "unat (c + 1) = Suc (unat c)" using checked_add_Some by fastforce
qed

lemma next_nonce_cases:
  "next_nonce prefix s =
     (if is_counter_exhausted (sc_counter s) then (Inl (NonceExhausted (sc_counter s)), s)
      else (Inr (build_session_nonce prefix (sc_counter s)), s\<lparr>sc_counter := sc_counter s + 1\<rparr>))"
  by (simp add: next_nonce_def not_exhausted_succ Let_def)

text \<open>The \<open>n\<close>-th call from a fresh counter hands out the nonce of counter \<open>n\<close>; the counter counts
  the successes.\<close>

lemma next_nonce_run:
  assumes "unat (sc_counter s) + n \<le> 2 ^ 64 - 1 - 2 ^ 32"
  shows "run (\<lambda>_ :: unit. next_nonce prefix) (replicate n ()) s =
    (map (\<lambda>i. Inr (build_session_nonce prefix (sc_counter s + of_nat i))) [0..<n],
     s\<lparr>sc_counter := sc_counter s + of_nat n\<rparr>)"
  using assms
proof (induction n arbitrary: s)
  case 0
  then show ?case by simp
next
  case (Suc n)
  have ne: "\<not> is_counter_exhausted (sc_counter s)" using Suc.prems by (simp add: not_exhausted_bound)
  let ?s1 = "s\<lparr>sc_counter := sc_counter s + 1\<rparr>"
  have "unat (sc_counter ?s1) + n \<le> 2 ^ 64 - 1 - 2 ^ 32"
    using Suc.prems not_exhausted_succ(2) [OF ne] by simp
  note IH = Suc.IH [OF this]
  have "map f [0..<Suc n] = f 0 # map (\<lambda>i. f (Suc i)) [0..<n]" for f :: "nat \<Rightarrow> CodecError + bytes"
    by (simp only: upt_rec [of 0 "Suc n"] map_Suc_upt [symmetric]) (simp add: map_Suc_upt [symmetric] del: upt_Suc)
  then show ?case
    using IH ne by (simp add: next_nonce_cases add.assoc del: upt_Suc)
qed

lemma next_nonce_counters:
  "\<exists>n. oks (fst (run (\<lambda>_ :: unit. next_nonce prefix) us s)) =
     map (\<lambda>i. build_session_nonce prefix (of_nat i)) [unat (sc_counter s)..<n] \<and> n \<le> 2 ^ 64 - 1"
proof (induction us arbitrary: s)
  case Nil
  have "unat (sc_counter s) < 2 ^ 64"
    by (rule order_less_le_trans [OF unsigned_less]) simp
  then show ?case by (intro exI [of _ "unat (sc_counter s)"]) simp
next
  case (Cons u us)
  show ?case
  proof (cases "is_counter_exhausted (sc_counter s)")
    case True
    then show ?thesis using Cons.IH [of s] by (simp add: next_nonce_cases)
  next
    case False
    let ?s1 = "s\<lparr>sc_counter := sc_counter s + 1\<rparr>"
    obtain n where n: "oks (fst (run (\<lambda>_ :: unit. next_nonce prefix) us ?s1)) =
        map (\<lambda>i. build_session_nonce prefix (of_nat i)) [Suc (unat (sc_counter s))..<n]" "n \<le> 2 ^ 64 - 1"
      using Cons.IH [of ?s1] not_exhausted_succ(2) [OF False] by auto
    have b: "unat (sc_counter s) < 2 ^ 64 - 1 - 2 ^ 32" using False by (simp add: not_exhausted_bound)
    have head: "oks (fst (run (\<lambda>_ :: unit. next_nonce prefix) (u # us) s)) =
        build_session_nonce prefix (of_nat (unat (sc_counter s))) #
        map (\<lambda>i. build_session_nonce prefix (of_nat i)) [Suc (unat (sc_counter s))..<n]"
      using False n(1) by (simp add: next_nonce_cases)
    show ?thesis
    proof (cases "unat (sc_counter s) < n")
      case True
      then show ?thesis using head n(2) by (intro exI [of _ n]) (simp add: upt_conv_Cons)
    next
      case False
      then show ?thesis using head b by (intro exI [of _ "Suc (unat (sc_counter s))"]) simp
    qed
  qed
qed

section \<open>Properties\<close>

text \<open>Whatever the number of calls, the nonces one counter hands out under a four-byte prefix are
  pairwise distinct: the counter stops with an error before it can wrap.\<close>

lemma next_nonce_unique:
  assumes "length prefix = 4"
  shows "distinct (oks (fst (run (\<lambda>_ :: unit. next_nonce prefix) us s)))"
proof -
  obtain n where n: "oks (fst (run (\<lambda>_ :: unit. next_nonce prefix) us s)) =
      map (\<lambda>i. build_session_nonce prefix (of_nat i)) [unat (sc_counter s)..<n]" "n \<le> 2 ^ 64 - 1"
    using next_nonce_counters by blast
  have "i = j" if "i < n" "j < n" "(of_nat i :: u64) = of_nat j" for i j
  proof -
    have "unat (of_nat i :: u64) = i" "unat (of_nat j :: u64) = j"
      using that(1,2) n(2) by (simp_all add: unat_of_nat)
    then show ?thesis using that(3) by metis
  qed
  then show ?thesis
    unfolding n(1) distinct_map
    by (auto simp: inj_on_def build_session_nonce_inj [OF assms assms])
qed

end
