(* ===== verification/Envelope.thy ===== *)
theory Envelope
  imports Nonce Replay
begin

text \<open>
  The authenticated envelope of \<open>pq-tunnel-core/src/envelope.rs\<close>: key schedule, sealing and
  opening of packets, with the checks in the order the code makes them. The lemmas give every
  branch of both operations, the round trip between the two ends of a session, the converse
  (only sealed packets open), nonce freshness on the sending side and the \<open>antireplay\<close>
  interface on the receiving side.
\<close>

section \<open>Roles and session state\<close>

datatype Role = Client | Server

fun send_direction :: "Role \<Rightarrow> Direction" where
  "send_direction Client = ClientToServer"
| "send_direction Server = ServerToClient"

fun recv_direction :: "Role \<Rightarrow> Direction" where
  "recv_direction Client = ServerToClient"
| "recv_direction Server = ClientToServer"

record CipherSession =
  cs_role :: Role
  cs_session_id :: bytes
  cs_key_c2s :: bytes
  cs_key_s2c :: bytes
  cs_prefix_c2s :: bytes
  cs_prefix_s2c :: bytes
  cs_send_counter :: u64
  cs_replay :: ReplayWindow

definition cipher_new :: "primitives \<Rightarrow> Role \<Rightarrow> bytes \<Rightarrow> bytes \<Rightarrow> CodecError + CipherSession" where
  "cipher_new P role master sid =
     (case derive_client_to_server_key P master sid of Inl e \<Rightarrow> Inl (CodecCrypto e)
      | Inr key_c2s \<Rightarrow> (case derive_server_to_client_key P master sid of Inl e \<Rightarrow> Inl (CodecCrypto e)
      | Inr key_s2c \<Rightarrow> (case derive_nonce_prefix_c2s P master sid of Inl e \<Rightarrow> Inl (CodecCrypto e)
      | Inr prefix_c2s \<Rightarrow> (case derive_nonce_prefix_s2c P master sid of Inl e \<Rightarrow> Inl (CodecCrypto e)
      | Inr prefix_s2c \<Rightarrow>
          Inr \<lparr>cs_role = role, cs_session_id = sid, cs_key_c2s = key_c2s, cs_key_s2c = key_s2c,
               cs_prefix_c2s = prefix_c2s, cs_prefix_s2c = prefix_s2c,
               cs_send_counter = 0, cs_replay = replay_new\<rparr>))))"

definition recv_highest :: "CipherSession \<Rightarrow> u64 option" where
  "recv_highest s = rw_highest (cs_replay s)"

definition send_key :: "CipherSession \<Rightarrow> bytes" where
  "send_key s = (case cs_role s of Client \<Rightarrow> cs_key_c2s s | Server \<Rightarrow> cs_key_s2c s)"

definition send_prefix :: "CipherSession \<Rightarrow> bytes" where
  "send_prefix s = (case cs_role s of Client \<Rightarrow> cs_prefix_c2s s | Server \<Rightarrow> cs_prefix_s2c s)"

definition recv_key :: "CipherSession \<Rightarrow> bytes" where
  "recv_key s = (case cs_role s of Client \<Rightarrow> cs_key_s2c s | Server \<Rightarrow> cs_key_c2s s)"

definition recv_prefix :: "CipherSession \<Rightarrow> bytes" where
  "recv_prefix s = (case cs_role s of Client \<Rightarrow> cs_prefix_s2c s | Server \<Rightarrow> cs_prefix_c2s s)"

section \<open>Sealing\<close>

definition cipher_encrypt ::
  "primitives \<Rightarrow> MessageType \<Rightarrow> bytes \<Rightarrow> CipherSession \<Rightarrow> (CodecError + WirePacket) \<times> CipherSession" where
  "cipher_encrypt P msg_type payload s =
     (if length payload \<noteq> PAYLOAD_LEN
      then (Inl (WrongLength ''payload'' PAYLOAD_LEN (length payload)), s)
      else if is_counter_exhausted (cs_send_counter s)
      then (Inl (NonceExhausted (cs_send_counter s)), s)
      else case inner_new msg_type (send_direction (cs_role s)) payload of
        Inl e \<Rightarrow> (Inl e, s)
      | Inr inner \<Rightarrow>
          let header = header_new (cs_session_id s) (cs_send_counter s);
              aad = header_encode header;
              nonce = build_session_nonce (send_prefix s) (cs_send_counter s)
          in (case aead_encrypt P (send_key s) nonce (inner_encode inner) aad of
            Inl e \<Rightarrow> (Inl (CodecCrypto e), s)
          | Inr ciphertext \<Rightarrow> (case from_parts aad ciphertext of
              Inl e \<Rightarrow> (Inl e, s)
            | Inr packet \<Rightarrow> (case checked_add (cs_send_counter s) 1 of
                None \<Rightarrow> (Inl (NonceExhausted (cs_send_counter s)), s)
              | Some c \<Rightarrow> (Inr packet, s\<lparr>cs_send_counter := c\<rparr>)))))"

section \<open>Opening\<close>

definition cipher_decrypt ::
  "primitives \<Rightarrow> WirePacket \<Rightarrow> CipherSession \<Rightarrow> (CodecError + InnerPlaintext) \<times> CipherSession" where
  "cipher_decrypt P packet s =
     (case parse_header packet of
        Inl e \<Rightarrow> (Inl Rejected, s)
      | Inr header \<Rightarrow>
          let counter = ph_packet_nonce header;
              nonce = build_session_nonce (recv_prefix s) counter;
              aad = header_bytes packet
          in (case aead_decrypt P (recv_key s) nonce (aead_region packet) aad of
            Inl e \<Rightarrow> (Inl DecryptionFailed, s)
          | Inr plaintext \<Rightarrow>
              if is_counter_exhausted counter then (Inl (NonceExhausted counter), s)
              else (case replay_accept counter (cs_replay s) of
                (Inl e, rw) \<Rightarrow> (Inl Rejected, s\<lparr>cs_replay := rw\<rparr>)
              | (Inr _, rw) \<Rightarrow>
                  let s1 = s\<lparr>cs_replay := rw\<rparr> in
                  if length plaintext \<noteq> INNER_PLAINTEXT_LEN then (Inl Rejected, s1)
                  else (case inner_decode plaintext of
                    Inl e \<Rightarrow> (Inl Rejected, s1)
                  | Inr inner \<Rightarrow>
                      if ip_direction inner \<noteq> recv_direction (cs_role s) then (Inl Rejected, s1)
                      else (Inr inner, s1)))))"

section \<open>Well-formed sessions\<close>

definition cipher_wf :: "CipherSession \<Rightarrow> bool" where
  "cipher_wf s \<longleftrightarrow> length (cs_session_id s) = 8 \<and> length (cs_key_c2s s) = 32 \<and>
     length (cs_key_s2c s) = 32 \<and> length (cs_prefix_c2s s) = 4 \<and> length (cs_prefix_s2c s) = 4"

lemma cipher_wf_keys:
  "cipher_wf s \<Longrightarrow> length (send_key s) = 32" "cipher_wf s \<Longrightarrow> length (recv_key s) = 32"
  "cipher_wf s \<Longrightarrow> length (send_prefix s) = 4" "cipher_wf s \<Longrightarrow> length (recv_prefix s) = 4"
  by (simp_all add: cipher_wf_def send_key_def recv_key_def send_prefix_def recv_prefix_def
      split: Role.splits)

lemma cipher_new_ok:
  assumes "hkdf_correct P" "length sid = 8"
  obtains s where "cipher_new P role master sid = Inr s" "cipher_wf s" "cs_role s = role"
    "cs_session_id s = sid" "cs_send_counter s = 0" "cs_replay s = replay_new"
proof -
  note d = kdf_derive_to_bytes_ok [OF assms(1), where input = master and salt = zero_salt]
  obtain a where a: "derive_client_to_server_key P master sid = Inr a" "length a = 32"
    unfolding derive_client_to_server_key_def by (rule d [of 32]) auto
  obtain b where b: "derive_server_to_client_key P master sid = Inr b" "length b = 32"
    unfolding derive_server_to_client_key_def by (rule d [of 32]) auto
  obtain c where c: "derive_nonce_prefix_c2s P master sid = Inr c" "length c = 4"
    unfolding derive_nonce_prefix_c2s_def by (rule d [of 4]) auto
  obtain e where e: "derive_nonce_prefix_s2c P master sid = Inr e" "length e = 4"
    unfolding derive_nonce_prefix_s2c_def by (rule d [of 4]) auto
  show thesis
    using that a b c e assms(2) by (simp add: cipher_new_def cipher_wf_def)
qed

lemma cipher_new_wf:
  assumes "cipher_new P role master sid = Inr s" "length sid = 8"
  shows "cipher_wf s" "cs_role s = role" "cs_session_id s = sid"
    "cs_send_counter s = 0" "cs_replay s = replay_new"
  using assms
  by (auto simp: cipher_new_def cipher_wf_def derive_client_to_server_key_def
      derive_server_to_client_key_def derive_nonce_prefix_c2s_def derive_nonce_prefix_s2c_def
      split: sum.splits dest!: kdf_derive_to_bytes_length)

section \<open>Branches of sealing\<close>

lemma encrypt_wrong_length:
  "length payload \<noteq> PAYLOAD_LEN \<Longrightarrow>
   cipher_encrypt P mt payload s = (Inl (WrongLength ''payload'' PAYLOAD_LEN (length payload)), s)"
  by (simp add: cipher_encrypt_def)

lemma encrypt_exhausted:
  "length payload = PAYLOAD_LEN \<Longrightarrow> is_counter_exhausted (cs_send_counter s) \<Longrightarrow>
   cipher_encrypt P mt payload s = (Inl (NonceExhausted (cs_send_counter s)), s)"
  by (simp add: cipher_encrypt_def)

text \<open>The plaintext, header and nonce a session in state \<open>s\<close> seals a payload with.\<close>

definition sealed_inner :: "MessageType \<Rightarrow> bytes \<Rightarrow> CipherSession \<Rightarrow> InnerPlaintext" where
  "sealed_inner mt payload s =
     \<lparr>ip_msg_type = mt, ip_direction = send_direction (cs_role s), ip_payload = payload\<rparr>"

abbreviation "sealed_header s \<equiv> header_new (cs_session_id s) (cs_send_counter s)"
abbreviation "sealed_nonce s \<equiv> build_session_nonce (send_prefix s) (cs_send_counter s)"

lemma header_new_wf: "length sid = 8 \<Longrightarrow> header_wf (header_new sid c)"
  by (simp add: header_wf_def header_new_def layout_simps)

text \<open>Every successful call emits one packet under the current counter and advances it by one,
  whatever the AEAD does.\<close>

lemma encrypt_okD:
  assumes wf: "cipher_wf s" and e: "cipher_encrypt P mt payload s = (Inr pkt, s1)"
  shows "s1 = s\<lparr>cs_send_counter := cs_send_counter s + 1\<rparr>"
    "\<not> is_counter_exhausted (cs_send_counter s)" "length payload = PAYLOAD_LEN"
    "\<exists>c. aead_encrypt P (send_key s) (sealed_nonce s) (inner_encode (sealed_inner mt payload s))
           (header_encode (sealed_header s)) = Inr c \<and>
         pkt = WirePacket (header_encode (sealed_header s) @ c)"
    "packet_wf pkt" "parse_header pkt = Inr (sealed_header s)"
proof -
  have h: "header_wf (sealed_header s)" using wf by (simp add: cipher_wf_def header_new_wf)
  have ne: "\<not> is_counter_exhausted (cs_send_counter s)" and len: "length payload = PAYLOAD_LEN"
    using e by (auto simp: cipher_encrypt_def split: if_splits)
  obtain c where c: "aead_encrypt P (send_key s) (sealed_nonce s)
       (inner_encode (sealed_inner mt payload s)) (header_encode (sealed_header s)) = Inr c"
    and p: "from_parts (header_encode (sealed_header s)) c = Inr pkt"
    and s1: "s1 = s\<lparr>cs_send_counter := cs_send_counter s + 1\<rparr>"
    using e ne len
    by (auto simp: cipher_encrypt_def inner_new_def sealed_inner_def Let_def not_exhausted_succ
        split: sum.splits)
  have parts: "as_bytes pkt = header_encode (sealed_header s) @ c" "packet_wf pkt"
    using from_parts_ok [OF header.enc_length [OF h] p] by auto
  then have pkt: "pkt = WirePacket (header_encode (sealed_header s) @ c)"
    by (metis WirePacket.collapse)
  show "s1 = s\<lparr>cs_send_counter := cs_send_counter s + 1\<rparr>" "\<not> is_counter_exhausted (cs_send_counter s)"
    "length payload = PAYLOAD_LEN" "packet_wf pkt" by fact+
  show "parse_header pkt = Inr (sealed_header s)" unfolding pkt by (rule parse_header_parts(1) [OF h])
  show "\<exists>c. aead_encrypt P (send_key s) (sealed_nonce s) (inner_encode (sealed_inner mt payload s))
           (header_encode (sealed_header s)) = Inr c \<and>
         pkt = WirePacket (header_encode (sealed_header s) @ c)"
    using c pkt by blast
qed

lemma encrypt_succeeds:
  assumes wf: "cipher_wf s" and P: "aead_correct P" and len: "length payload = PAYLOAD_LEN"
    and ne: "\<not> is_counter_exhausted (cs_send_counter s)"
  obtains pkt where
    "cipher_encrypt P mt payload s = (Inr pkt, s\<lparr>cs_send_counter := cs_send_counter s + 1\<rparr>)"
proof -
  let ?inner = "sealed_inner mt payload s"
  have h: "header_wf (sealed_header s)" using wf by (simp add: cipher_wf_def header_new_wf)
  have "inner_wf ?inner" using len by (simp add: sealed_inner_def inner_wf_def)
  then have il: "length (inner_encode ?inner) = 1247"
    by (simp add: inner.enc_length layout_values)
  obtain c where c: "aead_encrypt P (send_key s) (sealed_nonce s) (inner_encode ?inner)
      (header_encode (sealed_header s)) = Inr c" "length c = length (inner_encode ?inner) + 16"
    by (rule aead_encrypt_ok [OF P cipher_wf_keys(1) [OF wf]
          build_session_nonce_length [OF cipher_wf_keys(3) [OF wf]], of "inner_encode ?inner"])
      (use il in auto)
  have "from_parts (header_encode (sealed_header s)) c =
      Inr (WirePacket (header_encode (sealed_header s) @ c))"
    by (rule from_parts_header [OF h]) (simp add: c(2) il layout_values)
  with c(1) len ne that show thesis
    by (simp add: cipher_encrypt_def inner_new_def sealed_inner_def Let_def not_exhausted_succ)
qed

section \<open>Branches of opening\<close>

lemma decrypt_okD:
  assumes "cipher_decrypt P pkt r = (Inr inner, r1)"
  obtains h rw where "parse_header pkt = Inr h" "\<not> is_counter_exhausted (ph_packet_nonce h)"
    "aead_decrypt P (recv_key r) (build_session_nonce (recv_prefix r) (ph_packet_nonce h))
       (aead_region pkt) (header_bytes pkt) = Inr (inner_encode inner)"
    "replay_accept (ph_packet_nonce h) (cs_replay r) = (Inr (), rw)" "r1 = r\<lparr>cs_replay := rw\<rparr>"
    "inner_wf inner" "ip_direction inner = recv_direction (cs_role r)"
  using assms
  by (auto simp: cipher_decrypt_def Let_def split: sum.splits if_splits prod.splits
      dest!: inner_decode_sound)

text \<open>A failed tag check, a bad header and an exhausted counter leave the receiver as it was; every
  other outcome changes nothing but the replay window.\<close>

lemma decrypt_state:
  "snd (cipher_decrypt P pkt r) = r \<or>
   (\<exists>h pt rw res. parse_header pkt = Inr h \<and>
      aead_decrypt P (recv_key r) (build_session_nonce (recv_prefix r) (ph_packet_nonce h))
        (aead_region pkt) (header_bytes pkt) = Inr pt \<and>
      replay_accept (ph_packet_nonce h) (cs_replay r) = (res, rw) \<and>
      snd (cipher_decrypt P pkt r) = r\<lparr>cs_replay := rw\<rparr>)"
  by (auto simp: cipher_decrypt_def Let_def split: sum.splits if_splits prod.splits)

lemma decrypt_unauthentic:
  assumes "parse_header pkt = Inr h"
    "aead_decrypt P (recv_key r) (build_session_nonce (recv_prefix r) (ph_packet_nonce h))
       (aead_region pkt) (header_bytes pkt) = Inl e"
  shows "cipher_decrypt P pkt r = (Inl DecryptionFailed, r)"
  using assms by (simp add: cipher_decrypt_def Let_def)

lemma decrypt_bad_header: "parse_header pkt = Inl e \<Longrightarrow> cipher_decrypt P pkt r = (Inl Rejected, r)"
  by (simp add: cipher_decrypt_def)

text \<open>\<open>DecryptionFailed\<close> is returned for a failed tag check and for nothing else.\<close>

lemma decrypt_failed_iff:
  "fst (cipher_decrypt P pkt r) = Inl DecryptionFailed \<longleftrightarrow>
   (\<exists>h e. parse_header pkt = Inr h \<and>
      aead_decrypt P (recv_key r) (build_session_nonce (recv_prefix r) (ph_packet_nonce h))
        (aead_region pkt) (header_bytes pkt) = Inl e)"
  by (auto simp: cipher_decrypt_def Let_def split: sum.splits if_splits prod.splits)

lemma decrypt_keeps_session:
  "cs_role (snd (cipher_decrypt P pkt r)) = cs_role r"
  "cs_session_id (snd (cipher_decrypt P pkt r)) = cs_session_id r"
  "cs_send_counter (snd (cipher_decrypt P pkt r)) = cs_send_counter r"
  "cipher_wf (snd (cipher_decrypt P pkt r)) = cipher_wf r"
  "recv_key (snd (cipher_decrypt P pkt r)) = recv_key r"
  "recv_prefix (snd (cipher_decrypt P pkt r)) = recv_prefix r"
proof -
  obtain rw where "snd (cipher_decrypt P pkt r) = r\<lparr>cs_replay := rw\<rparr>"
    using decrypt_state [of P pkt r] by (metis CipherSession.surjective CipherSession.update_convs(8))
  then show "cs_role (snd (cipher_decrypt P pkt r)) = cs_role r"
    "cs_session_id (snd (cipher_decrypt P pkt r)) = cs_session_id r"
    "cs_send_counter (snd (cipher_decrypt P pkt r)) = cs_send_counter r"
    "cipher_wf (snd (cipher_decrypt P pkt r)) = cipher_wf r"
    "recv_key (snd (cipher_decrypt P pkt r)) = recv_key r"
    "recv_prefix (snd (cipher_decrypt P pkt r)) = recv_prefix r"
    by (simp_all add: cipher_wf_def recv_key_def recv_prefix_def split: Role.splits)
qed

section \<open>Two ends of one session\<close>

definition peers :: "CipherSession \<Rightarrow> CipherSession \<Rightarrow> bool" where
  "peers s r \<longleftrightarrow> cs_role s \<noteq> cs_role r \<and> cs_key_c2s s = cs_key_c2s r \<and> cs_key_s2c s = cs_key_s2c r \<and>
     cs_prefix_c2s s = cs_prefix_c2s r \<and> cs_prefix_s2c s = cs_prefix_s2c r"

lemma peers_keys:
  assumes "peers s r"
  shows "recv_key r = send_key s" "recv_prefix r = send_prefix s"
    "recv_direction (cs_role r) = send_direction (cs_role s)"
  using assms
  by (cases "cs_role s"; cases "cs_role r";
      simp add: peers_def recv_key_def send_key_def recv_prefix_def send_prefix_def)+

lemma cipher_new_peers:
  assumes "cipher_new P Client master sid = Inr c" "cipher_new P Server master sid = Inr v"
  shows "peers c v" "peers v c"
  using assms by (auto simp: cipher_new_def peers_def split: sum.splits)

lemma decrypt_encrypt:
  assumes wf: "cipher_wf s" and P: "aead_correct P" and pr: "peers s r"
    and e: "cipher_encrypt P mt payload s = (Inr pkt, s1)" and R: "window_rel (cs_replay r) A"
  shows "if accept_spec A (cs_send_counter s)
    then \<exists>rw. cipher_decrypt P pkt r = (Inr (sealed_inner mt payload s), r\<lparr>cs_replay := rw\<rparr>) \<and>
              window_rel rw (insert (cs_send_counter s) A)
    else cipher_decrypt P pkt r = (Inl Rejected, r)"
proof -
  let ?inner = "sealed_inner mt payload s" and ?h = "sealed_header s"
  note D = encrypt_okD [OF wf e]
  obtain c where c: "aead_encrypt P (send_key s) (sealed_nonce s) (inner_encode ?inner)
      (header_encode ?h) = Inr c" and pkt: "pkt = WirePacket (header_encode ?h @ c)"
    using D(4) by blast
  have h: "header_wf ?h" using wf by (simp add: cipher_wf_def header_new_wf)
  have iw: "inner_wf ?inner" using D(3) by (simp add: sealed_inner_def inner_wf_def)
  have il: "length (inner_encode ?inner) \<le> 65536"
    by (simp add: inner.enc_length [OF iw] layout_values)
  have dec: "aead_decrypt P (send_key s) (sealed_nonce s) c (header_encode ?h) = Inr (inner_encode ?inner)"
    using aead_encrypt_ok [OF P cipher_wf_keys(1) [OF wf]
        build_session_nonce_length [OF cipher_wf_keys(3) [OF wf]] il] c by (metis sum.inject(2))
  have nonce: "ph_packet_nonce ?h = cs_send_counter s" by (simp add: header_new_def)
  have region: "aead_region pkt = c" "header_bytes pkt = header_encode ?h"
    using parse_header_parts(2,3) [OF h] by (simp_all add: pkt packet_aad_def)
  have eq: "cipher_decrypt P pkt r =
    (case replay_accept (cs_send_counter s) (cs_replay r) of
       (Inl e, rw) \<Rightarrow> (Inl Rejected, r\<lparr>cs_replay := rw\<rparr>)
     | (Inr _, rw) \<Rightarrow> (Inr ?inner, r\<lparr>cs_replay := rw\<rparr>))"
    using D(2,6) dec region nonce peers_keys [OF pr] inner.enc_length [OF iw]
      inner_decode_encode [OF iw]
    by (simp add: cipher_decrypt_def Let_def sealed_inner_def split: prod.splits sum.splits)
  show ?thesis
    using replay_accept_refines [OF R, of "cs_send_counter s"] unfolding eq
    by (auto split: if_splits)
qed

text \<open>Conversely, whatever opens was sealed by the other end: the packet is the output of
  \<open>cipher_encrypt\<close> in a peer state whose counter and session id are those of its header.\<close>

definition sender_of :: "PacketHeader \<Rightarrow> CipherSession \<Rightarrow> CipherSession" where
  "sender_of h r = r\<lparr>cs_role := (case cs_role r of Client \<Rightarrow> Server | Server \<Rightarrow> Client),
     cs_session_id := ph_session_id h, cs_send_counter := ph_packet_nonce h\<rparr>"

lemma sender_of_peers: "peers (sender_of h r) r"
  by (cases "cs_role r") (simp_all add: peers_def sender_of_def)

lemma decrypt_only_sealed:
  assumes wf: "cipher_wf r" and P: "aead_correct P" and pw: "packet_wf pkt"
    and d: "cipher_decrypt P pkt r = (Inr inner, r1)"
  obtains h where "parse_header pkt = Inr h"
    "fst (cipher_encrypt P (ip_msg_type inner) (ip_payload inner) (sender_of h r)) = Inr pkt"
proof -
  obtain h rw where D: "parse_header pkt = Inr h" "\<not> is_counter_exhausted (ph_packet_nonce h)"
    "aead_decrypt P (recv_key r) (build_session_nonce (recv_prefix r) (ph_packet_nonce h))
       (aead_region pkt) (header_bytes pkt) = Inr (inner_encode inner)"
    "inner_wf inner" "ip_direction inner = recv_direction (cs_role r)"
    using decrypt_okD [OF d] by metis
  let ?s = "sender_of h r"
  note pk = peers_keys [OF sender_of_peers [of h r]]
  have h: "header_wf h" "header_encode h = header_bytes pkt"
    using header_decode_sound [of "slice 0 HEADER_LEN (as_bytes pkt)" h] D(1) pw
    by (auto simp: parse_header_def header_bytes_def packet_wf_def slice_zero layout_values)
  then have hd: "sealed_header ?s = h"
    by (simp add: sender_of_def header_new_def header_wf_def)
  have ctr: "cs_send_counter ?s = ph_packet_nonce h" by (simp add: sender_of_def)
  have inner: "sealed_inner (ip_msg_type inner) (ip_payload inner) ?s = inner"
    using D(5) pk(3) by (simp add: sealed_inner_def)
  have enc: "aead_encrypt P (send_key ?s) (sealed_nonce ?s) (inner_encode inner)
      (header_encode h) = Inr (aead_region pkt)"
    using aead_decrypt_sound [OF P D(3)] pk h(2) ctr by simp
  have "from_parts (header_encode h) (aead_region pkt) = Inr (WirePacket (header_bytes pkt @ aead_region pkt))"
    using from_parts_header [OF h(1), of "aead_region pkt"] pw h(2)
    by (simp add: aead_region_def packet_wf_def)
  moreover have "header_bytes pkt @ aead_region pkt = as_bytes pkt"
    by (simp add: header_bytes_def aead_region_def slice_zero)
  ultimately have "fst (cipher_encrypt P (ip_msg_type inner) (ip_payload inner) ?s) = Inr pkt"
    using enc D(2,4) inner hd ctr
    by (simp add: cipher_encrypt_def inner_new_def sealed_inner_def inner_wf_def Let_def
        not_exhausted_succ)
  with D(1) that show thesis by blast
qed

section \<open>Replay protection of the receiver\<close>

definition packet_counter :: "WirePacket \<Rightarrow> u64" where
  "packet_counter pkt = (case parse_header pkt of Inl _ \<Rightarrow> 0 | Inr h \<Rightarrow> ph_packet_nonce h)"

definition cipher_rel :: "CipherSession \<Rightarrow> u64 set \<Rightarrow> bool" where
  "cipher_rel r A \<longleftrightarrow> window_rel (cs_replay r) A"

lemma cipher_rel_decrypt_ok:
  assumes "cipher_rel r A" "cipher_decrypt P pkt r = (Inr inner, r1)"
  shows "packet_counter pkt \<notin> A" "cipher_rel r1 (insert (packet_counter pkt) A)"
proof -
  obtain h rw where "parse_header pkt = Inr h"
    "replay_accept (ph_packet_nonce h) (cs_replay r) = (Inr (), rw)" "r1 = r\<lparr>cs_replay := rw\<rparr>"
    using decrypt_okD [OF assms(2)] by metis
  then show "packet_counter pkt \<notin> A" "cipher_rel r1 (insert (packet_counter pkt) A)"
    using replay_accept_ok [of "cs_replay r" A "ph_packet_nonce h"] assms(1)
    by (auto simp: cipher_rel_def packet_counter_def accept_spec_def)
qed

lemma cipher_rel_decrypt_err:
  assumes "cipher_rel r A" "cipher_decrypt P pkt r = (Inl e, r1)"
  shows "\<exists>B. A \<subseteq> B \<and> cipher_rel r1 B"
proof -
  consider "r1 = r" | n res rw where "replay_accept n (cs_replay r) = (res, rw)"
    "r1 = r\<lparr>cs_replay := rw\<rparr>"
    using decrypt_state [of P pkt r] assms(2) by auto
  then show ?thesis
  proof cases
    case 1
    then show ?thesis using assms(1) by blast
  next
    case 2
    have R: "window_rel (cs_replay r) A" using assms(1) by (simp add: cipher_rel_def)
    have "\<exists>B. A \<subseteq> B \<and> window_rel rw B"
    proof (cases res)
      case (Inl e)
      then show ?thesis using window.err_keeps [OF R, of n e rw] 2(1) by simp
    next
      case (Inr u)
      then show ?thesis using window.ok_fresh [OF R, of n u rw] 2(1) by auto
    qed
    then show ?thesis using 2(2) by (simp add: cipher_rel_def)
  qed
qed

interpretation receiver: antireplay "cipher_decrypt P" packet_counter cipher_rel for P
proof
  show "packet_counter pkt \<notin> A \<and> (\<exists>B. insert (packet_counter pkt) A \<subseteq> B \<and> cipher_rel r1 B)"
    if "cipher_rel r A" "cipher_decrypt P pkt r = (Inr a, r1)" for r A pkt a r1
    using cipher_rel_decrypt_ok [OF that] by blast
qed (rule cipher_rel_decrypt_err)

section \<open>Sequences of packets\<close>

abbreviation "encrypt_op P op \<equiv> cipher_encrypt P (fst op) (snd op)"

lemma encrypt_err_state: "cipher_encrypt P mt payload s = (Inl e, s1) \<Longrightarrow> s1 = s"
  by (auto simp: cipher_encrypt_def Let_def split: sum.splits if_splits option.splits)

lemma packet_counter_sealed:
  "cipher_wf s \<Longrightarrow> cipher_encrypt P mt payload s = (Inr pkt, s1) \<Longrightarrow> packet_counter pkt = cs_send_counter s"
  using encrypt_okD(6) [of s P mt payload pkt s1] by (simp add: packet_counter_def header_new_def)

text \<open>The packets any sequence of calls emits carry consecutive counters, from the one the session
  starts with to just below the one it ends with, and the counter stops at the threshold.\<close>

lemma encrypt_run_counters:
  assumes "cipher_wf s" "unat (cs_send_counter s) \<le> 2 ^ 64 - 1 - 2 ^ 32"
  shows "map (unat \<circ> packet_counter) (oks (fst (run (encrypt_op P) ops s))) =
      [unat (cs_send_counter s)..<unat (cs_send_counter (snd (run (encrypt_op P) ops s)))] \<and>
    unat (cs_send_counter s) \<le> unat (cs_send_counter (snd (run (encrypt_op P) ops s))) \<and>
    unat (cs_send_counter (snd (run (encrypt_op P) ops s))) \<le> 2 ^ 64 - 1 - 2 ^ 32"
  using assms
proof (induction ops arbitrary: s)
  case Nil
  then show ?case by simp
next
  case (Cons op ops)
  obtain res s1 where st: "encrypt_op P op s = (res, s1)" by fastforce
  show ?case
  proof (cases res)
    case (Inl e)
    then have "s1 = s" using encrypt_err_state st by blast
    then show ?thesis using Cons.IH [OF Cons.prems] Inl st by simp
  next
    case (Inr pkt)
    note D = encrypt_okD [OF Cons.prems(1) st [unfolded Inr]]
    have c1: "unat (cs_send_counter s1) = Suc (unat (cs_send_counter s))"
      using D(1) not_exhausted_succ(2) [OF D(2)] by simp
    have wf1: "cipher_wf s1" using D(1) Cons.prems(1) by (simp add: cipher_wf_def)
    have "unat (cs_send_counter s1) \<le> 2 ^ 64 - 1 - 2 ^ 32"
      using c1 D(2) by (simp add: not_exhausted_bound)
    note IH = Cons.IH [OF wf1 this]
    then show ?thesis
      using st Inr c1 packet_counter_sealed [OF Cons.prems(1) st [unfolded Inr]]
      by (simp add: upt_rec [of "unat (cs_send_counter s)"])
  qed
qed

text \<open>With well-sized payloads and room below the threshold every call succeeds, and packet \<open>i\<close> is
  sealed under the \<open>i\<close>-th counter.\<close>

definition at_counter :: "u64 \<Rightarrow> CipherSession \<Rightarrow> CipherSession" where
  "at_counter c s = s\<lparr>cs_send_counter := c\<rparr>"

lemma at_counter_simps [simp]:
  "cs_send_counter (at_counter c s) = c" "cipher_wf (at_counter c s) = cipher_wf s"
  "peers (at_counter c s) r = peers s r" "at_counter (cs_send_counter s) s = s"
  "sealed_inner mt p (at_counter c s) = sealed_inner mt p s"
  "at_counter c (at_counter d s) = at_counter c s"
  by (simp_all add: at_counter_def cipher_wf_def peers_def sealed_inner_def)

lemma encrypt_run_succeeds:
  assumes "aead_correct P" "cipher_wf s"
    "\<forall>op \<in> set ops. length (snd op) = PAYLOAD_LEN"
    "unat (cs_send_counter s) + length ops \<le> 2 ^ 64 - 1 - 2 ^ 32"
  shows "\<exists>pkts. fst (run (encrypt_op P) ops s) = map Inr pkts \<and> length pkts = length ops \<and>
    (\<forall>i < length ops. \<exists>s1. encrypt_op P (ops ! i) (at_counter (cs_send_counter s + of_nat i) s) =
       (Inr (pkts ! i), s1))"
  using assms(2-)
proof (induction ops arbitrary: s)
  case Nil
  then show ?case by simp
next
  case (Cons op ops)
  have ne: "\<not> is_counter_exhausted (cs_send_counter s)"
    using Cons.prems(3) by (simp add: not_exhausted_bound)
  let ?s1 = "at_counter (cs_send_counter s + 1) s"
  obtain pkt where pkt: "encrypt_op P op s = (Inr pkt, ?s1)"
    using encrypt_succeeds [OF Cons.prems(1) assms(1) _ ne] Cons.prems(2)
    by (metis at_counter_def list.set_intros(1))
  obtain pkts where IH: "fst (run (encrypt_op P) ops ?s1) = map Inr pkts" "length pkts = length ops"
    "\<And>i. i < length ops \<Longrightarrow> \<exists>s1. encrypt_op P (ops ! i)
       (at_counter (cs_send_counter s + 1 + of_nat i) s) = (Inr (pkts ! i), s1)"
    using Cons.IH [of ?s1] Cons.prems not_exhausted_succ(2) [OF ne] by auto
  have "\<exists>s1. encrypt_op P ((op # ops) ! i) (at_counter (cs_send_counter s + of_nat i) s) =
      (Inr ((pkt # pkts) ! i), s1)" if "i < length (op # ops)" for i
    using that pkt IH(3) [of "i - 1"] by (cases i) (auto simp: add.assoc)
  then show ?case using pkt IH(1,2) by (intro exI [of _ "pkt # pkts"]) simp
qed

text \<open>What the receiver returns for any schedule of deliveries (loss, reordering, duplication) of
  sealed packets is decided by the abstract guard alone.\<close>

lemma deliver_schedule:
  assumes P: "aead_correct P" and wf: "cipher_wf s" and pr: "peers s r"
    and R: "window_rel (cs_replay r) A"
    and sealed: "\<And>j. j \<in> set js \<Longrightarrow> \<exists>s1. encrypt_op P (op j) (at_counter (c j) s) = (Inr (pkt j), s1)"
  shows "fst (run (cipher_decrypt P) (map pkt js) r) =
    map2 (\<lambda>ok j. if ok then Inr (sealed_inner (fst (op j)) (snd (op j)) s) else Inl Rejected)
      (guard_run A (map c js)) js"
  using pr R sealed
proof (induction js arbitrary: r A)
  case Nil
  then show ?case by simp
next
  case (Cons j js)
  obtain s1 where s1: "encrypt_op P (op j) (at_counter (c j) s) = (Inr (pkt j), s1)"
    using Cons.prems(3) by fastforce
  have d: "if accept_spec A (c j)
    then \<exists>rw. cipher_decrypt P (pkt j) r = (Inr (sealed_inner (fst (op j)) (snd (op j)) s), r\<lparr>cs_replay := rw\<rparr>) \<and>
              window_rel rw (insert (c j) A)
    else cipher_decrypt P (pkt j) r = (Inl Rejected, r)"
    using decrypt_encrypt [OF _ P _ s1 Cons.prems(2)] wf Cons.prems(1) by (auto split: if_splits)
  have keep: "peers s (r\<lparr>cs_replay := rw\<rparr>)" for rw
    using Cons.prems(1) by (simp add: peers_def)
  show ?case
  proof (cases "accept_spec A (c j)")
    case True
    then obtain rw where "cipher_decrypt P (pkt j) r =
        (Inr (sealed_inner (fst (op j)) (snd (op j)) s), r\<lparr>cs_replay := rw\<rparr>)"
      "window_rel rw (insert (c j) A)" using d by auto
    then show ?thesis using Cons.IH [OF keep, of rw "insert (c j) A"] Cons.prems(3) True by simp
  next
    case False
    then show ?thesis using d Cons.IH [OF Cons.prems(1,2)] Cons.prems(3) by simp
  qed
qed

text \<open>A concrete exchange over the example primitives: the client's first packet opens at the server.\<close>

lemma demo_exchange:
  obtains s r pkt s1 r1 where
    "cipher_new demo Client (replicate 32 1) (replicate 8 2) = Inr s"
    "cipher_new demo Server (replicate 32 1) (replicate 8 2) = Inr r"
    "cipher_wf s" "cipher_wf r" "packet_wf pkt"
    "cipher_encrypt demo Data (replicate PAYLOAD_LEN 5) s = (Inr pkt, s1)"
    "cipher_decrypt demo pkt r =
       (Inr \<lparr>ip_msg_type = Data, ip_direction = ClientToServer, ip_payload = replicate PAYLOAD_LEN 5\<rparr>, r1)"
proof -
  have sid: "length (replicate 8 (2 :: byte)) = 8" by simp
  obtain s where s: "cipher_new demo Client (replicate 32 1) (replicate 8 2) = Inr s" "cipher_wf s"
      "cs_role s = Client" "cs_send_counter s = 0"
    by (rule cipher_new_ok [OF demo_hkdf sid])
  obtain r where r: "cipher_new demo Server (replicate 32 1) (replicate 8 2) = Inr r" "cipher_wf r"
      "cs_replay r = replay_new"
    by (rule cipher_new_ok [OF demo_hkdf sid])
  have ne: "\<not> is_counter_exhausted (cs_send_counter s)" using s(4) by (simp add: not_exhausted_bound)
  obtain pkt where e: "cipher_encrypt demo Data (replicate PAYLOAD_LEN 5) s =
      (Inr pkt, s\<lparr>cs_send_counter := cs_send_counter s + 1\<rparr>)"
    using encrypt_succeeds [OF s(2) demo_aead length_replicate ne] by blast
  have R: "window_rel (cs_replay r) {}" using r(3) window_rel_new by simp
  have "accept_spec {} (cs_send_counter s)" by (simp add: accept_spec_def)
  then obtain rw where "cipher_decrypt demo pkt r =
      (Inr (sealed_inner Data (replicate PAYLOAD_LEN 5) s), r\<lparr>cs_replay := rw\<rparr>)"
    using decrypt_encrypt [OF s(2) demo_aead cipher_new_peers(1) [OF s(1) r(1)] e R] by auto
  then show thesis
    using that [OF s(1) r(1) s(2) r(2) encrypt_okD(5) [OF s(2) e] e] s(3) by (simp add: sealed_inner_def)
qed

section \<open>Properties\<close>

text \<open>C11: two sessions built from one master secret and session identifier deliver any burst of up to
  1025 packets completely, in whatever order the network delivers them: every packet sealed by
  one end opens at the other to the same message type and payload.\<close>

theorem session_delivery_any_order:
  assumes "aead_correct P" "hkdf_correct P" "length sid = 8" "a \<noteq> b"
    and "\<forall>op \<in> set ops. length (snd op) = PAYLOAD_LEN" "length ops \<le> 1025"
    and "distinct js" "set js = {..<length ops}"
  shows "\<exists>s r pkts. cipher_new P a master sid = Inr s \<and> cipher_new P b master sid = Inr r \<and>
    fst (run (encrypt_op P) ops s) = map Inr pkts \<and> length pkts = length ops \<and>
    fst (run (cipher_decrypt P) (map (\<lambda>j. pkts ! j) js) r) =
      map (\<lambda>j. Inr \<lparr>ip_msg_type = fst (ops ! j), ip_direction = send_direction a,
                     ip_payload = snd (ops ! j)\<rparr>) js"
proof -
  obtain s where s: "cipher_new P a master sid = Inr s" "cipher_wf s" "cs_role s = a" "cs_send_counter s = 0"
    using cipher_new_ok [OF assms(2,3)] by metis
  obtain r where r: "cipher_new P b master sid = Inr r" "cs_replay r = replay_new"
    using cipher_new_ok [OF assms(2,3)] by metis
  have pr: "peers s r"
    using assms(4) s(1) r(1) cipher_new_peers [of P master sid] by (cases a; cases b) auto
  have len: "unat (cs_send_counter s) + length ops \<le> 2 ^ 64 - 1 - 2 ^ 32" using assms(6) s(4) by simp
  obtain pkts where p: "fst (run (encrypt_op P) ops s) = map Inr pkts" "length pkts = length ops"
    "\<And>i. i < length ops \<Longrightarrow> \<exists>s1. encrypt_op P (ops ! i) (at_counter (cs_send_counter s + of_nat i) s) = (Inr (pkts ! i), s1)"
    using encrypt_run_succeeds [OF assms(1) s(2) assms(5) len] by blast
  have run: "fst (run (cipher_decrypt P) (map (\<lambda>j. pkts ! j) js) r) =
    map2 (\<lambda>ok j. if ok then Inr (sealed_inner (fst (ops ! j)) (snd (ops ! j)) s) else Inl Rejected)
      (guard_run {} (map of_nat js)) js"
    by (rule deliver_schedule [OF assms(1) s(2) pr, where c = of_nat])
      (use r(2) window_rel_new p(3) s(4) assms(8) in \<open>auto simp: add.commute\<close>)
  have u: "unat (of_nat j :: u64) = j" if "j \<in> set js" for j
    using that assms(6,8) by (simp add: unat_of_nat)
  have "guard_run {} (map of_nat js :: u64 list) = replicate (length (map of_nat js :: u64 list)) True"
  proof (rule guard_run_all)
    show "distinct (map of_nat js :: u64 list)"
      using assms(7) u by (auto simp: distinct_map inj_on_def) metis
    show "\<forall>a \<in> {} \<union> set (map of_nat js :: u64 list). \<forall>c \<in> set (map of_nat js :: u64 list). unat a \<le> unat c + 1024"
      using u assms(6,8) by auto
  qed simp
  then have "fst (run (cipher_decrypt P) (map (\<lambda>j. pkts ! j) js) r) =
      map (\<lambda>j. Inr (sealed_inner (fst (ops ! j)) (snd (ops ! j)) s)) js"
    unfolding run by (simp add: zip_replicate1 comp_def)
  then show ?thesis using s r p(1,2) by (auto simp: sealed_inner_def)
qed

theorem session_delivery_any_order_witness:
  "\<exists>s r pkts. cipher_new demo Client (replicate 32 1) (replicate 8 2) = Inr s \<and>
    cipher_new demo Server (replicate 32 1) (replicate 8 2) = Inr r \<and>
    fst (run (encrypt_op demo) [(Data, replicate PAYLOAD_LEN 5), (Close, replicate PAYLOAD_LEN 6)] s) = map Inr pkts \<and>
    length pkts = 2 \<and>
    fst (run (cipher_decrypt demo) (map (\<lambda>j. pkts ! j) [1, 0]) r) =
      [Inr \<lparr>ip_msg_type = Close, ip_direction = ClientToServer, ip_payload = replicate PAYLOAD_LEN 6\<rparr>,
       Inr \<lparr>ip_msg_type = Data, ip_direction = ClientToServer, ip_payload = replicate PAYLOAD_LEN 5\<rparr>]"
  using session_delivery_any_order [OF demo_aead demo_hkdf, of "replicate 8 2" Client Server
      "[(Data, replicate PAYLOAD_LEN 5), (Close, replicate PAYLOAD_LEN 6)]" "[1, 0]" "replicate 32 1"]
  by (simp add: insert_commute lessThan_Suc numeral_2_eq_2)

text \<open>C16: the receiver opens only packets that the peer role, holding the session keys, would seal:
  an opened packet is exactly the encryption of the plaintext returned, under the counter and
  session identifier of its header.\<close>

theorem opened_packet_is_sealed:
  assumes "aead_correct P" "cipher_wf r" "packet_wf pkt" "cipher_decrypt P pkt r = (Inr inner, r1)"
  shows "\<exists>h. parse_header pkt = Inr h \<and>
    fst (cipher_encrypt P (ip_msg_type inner) (ip_payload inner) (sender_of h r)) = Inr pkt"
  using decrypt_only_sealed [OF assms(2,1,3,4)] by blast

theorem opened_packet_is_sealed_witness:
  "\<exists>r pkt r1 h. cipher_new demo Server (replicate 32 1) (replicate 8 2) = Inr r \<and>
    cipher_wf r \<and> packet_wf pkt \<and>
    cipher_decrypt demo pkt r =
      (Inr \<lparr>ip_msg_type = Data, ip_direction = ClientToServer, ip_payload = replicate PAYLOAD_LEN 5\<rparr>, r1) \<and>
    parse_header pkt = Inr h \<and>
    fst (cipher_encrypt demo Data (replicate PAYLOAD_LEN 5) (sender_of h r)) = Inr pkt"
proof -
  obtain r pkt r1 where x: "cipher_new demo Server (replicate 32 1) (replicate 8 2) = Inr r" "cipher_wf r"
      "packet_wf pkt" "cipher_decrypt demo pkt r =
        (Inr \<lparr>ip_msg_type = Data, ip_direction = ClientToServer, ip_payload = replicate PAYLOAD_LEN 5\<rparr>, r1)"
    by (rule demo_exchange)
  show ?thesis using opened_packet_is_sealed [OF demo_aead x(2-4)] x by auto
qed

text \<open>The error \<open>DecryptionFailed\<close>, which the data-path gate charges to the source, is returned
  exactly when the header parses and the AEAD refuses the packet, and then the session is
  unchanged; every other refusal is \<open>Rejected\<close> or \<open>NonceExhausted\<close>.\<close>

lemma decryption_failed_exact:
  "fst (cipher_decrypt P pkt r) = Inl DecryptionFailed \<longleftrightarrow>
     (\<exists>h e. parse_header pkt = Inr h \<and>
        aead_decrypt P (recv_key r) (build_session_nonce (recv_prefix r) (ph_packet_nonce h))
          (aead_region pkt) (header_bytes pkt) = Inl e \<and>
        cipher_decrypt P pkt r = (Inl DecryptionFailed, r))"
  using decrypt_failed_iff [of P pkt r] decrypt_unauthentic [of pkt _ P r] by (metis fst_conv)

text \<open>Whatever packets the network injects, repeats or reorders, the counters of the packets one
  session accepts are pairwise distinct.\<close>

lemma session_accepts_once:
  assumes "cipher_new P role master sid = Inr r" "length sid = 8"
  shows "distinct (map packet_counter (accepted (cipher_decrypt P) pkts r))"
proof -
  have "cipher_rel r {}" using cipher_new_wf(5) [OF assms] window_rel_new by (simp add: cipher_rel_def)
  then show ?thesis using receiver.accepted_fresh [of r "{}" P pkts] by blast
qed

end
