(* ===== verification/Protocol_State.thy ===== *)
theory Protocol_State
  imports Prelude
begin

text \<open>
  The session lifecycle of \<open>pq-tunnel-core/src/state.rs\<close>. The executable transition check is
  shown to be the documented lifecycle, given as an inductive relation, and the facts the
  session layer relies on (what is reachable, what is final) are proved by rule induction.
\<close>

datatype ProtocolState = Initial | InHandshake | Established | Rekey | Closed

datatype InvalidTransition = InvalidTransition ProtocolState ProtocolState

definition ALL_STATES :: "ProtocolState list" where
  "ALL_STATES = [Initial, InHandshake, Established, Rekey, Closed]"

fun is_terminal :: "ProtocolState \<Rightarrow> bool" where
  "is_terminal Closed = True"
| "is_terminal _ = False"

fun can_transition_to :: "ProtocolState \<Rightarrow> ProtocolState \<Rightarrow> bool" where
  "can_transition_to Initial InHandshake = True"
| "can_transition_to InHandshake Established = True"
| "can_transition_to InHandshake Closed = True"
| "can_transition_to Established Rekey = True"
| "can_transition_to Established Closed = True"
| "can_transition_to Rekey Established = True"
| "can_transition_to Rekey Closed = True"
| "can_transition_to _ _ = False"

definition transition :: "ProtocolState \<Rightarrow> ProtocolState \<Rightarrow> InvalidTransition + ProtocolState" where
  "transition from to = (if can_transition_to from to then Inr to else Inl (InvalidTransition from to))"

fun as_str :: "ProtocolState \<Rightarrow> string" where
  "as_str Initial = ''initial''"
| "as_str InHandshake = ''handshake''"
| "as_str Established = ''established''"
| "as_str Rekey = ''rekey''"
| "as_str Closed = ''closed''"

text \<open>The documented lifecycle as a relation.\<close>

inductive lifecycle :: "ProtocolState \<Rightarrow> ProtocolState \<Rightarrow> bool" where
  start: "lifecycle Initial InHandshake"
| establish: "lifecycle InHandshake Established"
| rotate: "lifecycle Established Rekey"
| rotated: "lifecycle Rekey Established"
| abort: "s \<in> {InHandshake, Established, Rekey} \<Longrightarrow> lifecycle s Closed"

inductive_simps lifecycle_from_Closed [simp]: "lifecycle Closed s"
inductive_simps lifecycle_to_Initial [simp]: "lifecycle s Initial"
inductive_simps lifecycle_to_Established: "lifecycle s Established"
inductive_cases lifecycleE: "lifecycle s t"

lemma can_transition_to_iff: "can_transition_to s t \<longleftrightarrow> lifecycle s t"
  by (cases s; cases t) (auto intro: lifecycle.intros elim: lifecycleE)

lemma transition_ok: "transition s t = Inr u \<longleftrightarrow> u = t \<and> lifecycle s t"
  by (auto simp: transition_def can_transition_to_iff)

lemma all_states_complete: "s \<in> set ALL_STATES \<and> distinct ALL_STATES"
  by (cases s) (simp_all add: ALL_STATES_def)

lemma closed_final: "lifecycle\<^sup>*\<^sup>* s t \<Longrightarrow> s = Closed \<Longrightarrow> t = Closed"
  by (induction rule: rtranclp_induct) auto

lemma is_terminal_iff: "is_terminal s \<longleftrightarrow> (\<forall>t. \<not> can_transition_to s t)"
proof
  assume "is_terminal s"
  then show "\<forall>t. \<not> can_transition_to s t" by (cases s) (auto simp: can_transition_to_iff)
next
  assume "\<forall>t. \<not> can_transition_to s t"
  then have "\<not> can_transition_to s Closed" "\<not> can_transition_to s InHandshake" by auto
  then show "is_terminal s" by (cases s) auto
qed

text \<open>Only a handshake or a rotation leads into \<open>Established\<close>: every path from \<open>Initial\<close> to it
  passes through \<open>InHandshake\<close>.\<close>

lemma established_needs_handshake:
  "lifecycle\<^sup>*\<^sup>* Initial t \<Longrightarrow> t = Initial \<or> lifecycle\<^sup>*\<^sup>* InHandshake t"
proof (induction rule: rtranclp_induct)
  case base
  then show ?case by simp
next
  case (step t u)
  then show ?case by (auto elim: lifecycleE intro: rtranclp.rtrancl_into_rtrancl)
qed

end
