(* ===== verification/Wire_Session.thy ===== *)
theory Wire_Session
  imports Envelope Protocol_State
begin

text \<open>
  \<open>pq-tunnel-core/src/wire_session.rs\<close>: the envelope bound to the lifecycle state machine, with
  the session metrics of \<open>metrics.rs\<close>. All operations are collected in one step function, and the
  facts about the data path (nothing is sent or delivered outside \<open>Established\<close>, closing is final,
  no counter is used twice, no packet is delivered twice) hold for every sequence of them.
\<close>

section \<open>State and errors\<close>

datatype SessionError =
    SE_State InvalidTransition
  | SE_WrongState ProtocolState ProtocolState
  | SE_Codec CodecError
  | SE_Crypto CryptoError
  | SE_RekeyRequired

record SessionMetrics =
  sm_bytes_sent :: u64
  sm_bytes_received :: u64
  sm_packets_sent :: u64
  sm_packets_received :: u64
  sm_handshake_duration_ms :: "u64 option"
  sm_created_at :: "instant option"

definition metrics_default :: SessionMetrics where
  "metrics_default = \<lparr>sm_bytes_sent = 0, sm_bytes_received = 0, sm_packets_sent = 0,
     sm_packets_received = 0, sm_handshake_duration_ms = None, sm_created_at = None\<rparr>"

record HandshakeOutcome =
  ho_master :: bytes
  ho_session_id :: bytes
  ho_peer_identity :: bytes
  ho_handshake_duration :: duration

record WireSession =
  ws_role :: Role
  ws_session_id :: bytes
  ws_state :: ProtocolState
  ws_cipher :: CipherSession
  ws_metrics :: SessionMetrics

definition wire_new ::
  "primitives \<Rightarrow> instant \<Rightarrow> Role \<Rightarrow> bytes \<Rightarrow> bytes \<Rightarrow> SessionError + WireSession" where
  "wire_new P now role master sid =
     (case cipher_new P role master sid of
        Inl e \<Rightarrow> Inl (SE_Codec e)
      | Inr cipher \<Rightarrow>
          Inr \<lparr>ws_role = role, ws_session_id = sid, ws_state = Initial, ws_cipher = cipher,
               ws_metrics = metrics_default\<lparr>sm_created_at := Some now\<rparr>\<rparr>)"

definition wire_established ::
  "primitives \<Rightarrow> instant \<Rightarrow> Role \<Rightarrow> HandshakeOutcome \<Rightarrow> SessionError + WireSession" where
  "wire_established P now role outcome =
     (case cipher_new P role (ho_master outcome) (ho_session_id outcome) of
        Inl e \<Rightarrow> Inl (SE_Codec e)
      | Inr cipher \<Rightarrow>
          Inr \<lparr>ws_role = role, ws_session_id = ho_session_id outcome, ws_state = Established,
               ws_cipher = cipher, ws_metrics = metrics_default\<lparr>sm_created_at := Some now\<rparr>\<rparr>)"

section \<open>Lifecycle operations\<close>

definition begin_handshake :: "WireSession \<Rightarrow> (SessionError + unit) \<times> WireSession" where
  "begin_handshake s =
     (case transition (ws_state s) InHandshake of
        Inl e \<Rightarrow> (Inl (SE_State e), s)
      | Inr st \<Rightarrow> (Inr (), s\<lparr>ws_state := st\<rparr>))"

definition complete_handshake :: "WireSession \<Rightarrow> (SessionError + unit) \<times> WireSession" where
  "complete_handshake s =
     (case transition (ws_state s) Established of
        Inl e \<Rightarrow> (Inl (SE_State e), s)
      | Inr st \<Rightarrow> (Inr (), s\<lparr>ws_state := st\<rparr>))"

definition wire_close :: "WireSession \<Rightarrow> (SessionError + unit) \<times> WireSession" where
  "wire_close s = (Inr (), s\<lparr>ws_state := Closed\<rparr>)"

definition require_established :: "WireSession \<Rightarrow> SessionError + unit" where
  "require_established s =
     (if ws_state s = Established then Inr () else Inl (SE_WrongState Established (ws_state s)))"

section \<open>Data path\<close>

definition count_sent :: "SessionMetrics \<Rightarrow> SessionMetrics" where
  "count_sent m = m\<lparr>sm_packets_sent := sm_packets_sent m + 1,
     sm_bytes_sent := sm_bytes_sent m + of_nat PACKET_SIZE\<rparr>"

definition count_received :: "SessionMetrics \<Rightarrow> SessionMetrics" where
  "count_received m = m\<lparr>sm_packets_received := sm_packets_received m + 1,
     sm_bytes_received := sm_bytes_received m + of_nat PACKET_SIZE\<rparr>"

definition wire_encrypt ::
  "primitives \<Rightarrow> MessageType \<Rightarrow> bytes \<Rightarrow> WireSession \<Rightarrow> (SessionError + WirePacket) \<times> WireSession" where
  "wire_encrypt P mt payload s =
     (case require_established s of
        Inl e \<Rightarrow> (Inl e, s)
      | Inr _ \<Rightarrow>
          let (res, cipher) = cipher_encrypt P mt payload (ws_cipher s); s1 = s\<lparr>ws_cipher := cipher\<rparr>
          in (case res of
                Inr pkt \<Rightarrow> (Inr pkt, s1\<lparr>ws_metrics := count_sent (ws_metrics s)\<rparr>)
              | Inl (NonceExhausted c) \<Rightarrow> (Inl SE_RekeyRequired, s1\<lparr>ws_state := Rekey\<rparr>)
              | Inl e \<Rightarrow> (Inl (SE_Codec e), s1)))"

text \<open>\<open>getrandom::fill\<close> is the argument \<open>rnd\<close>: the random fill, or the displayed error when
  the system source fails.\<close>

definition wire_cover ::
  "primitives \<Rightarrow> string + bytes \<Rightarrow> WireSession \<Rightarrow> (SessionError + WirePacket) \<times> WireSession" where
  "wire_cover P rnd s =
     (case require_established s of
        Inl e \<Rightarrow> (Inl e, s)
      | Inr _ \<Rightarrow>
          (case rnd of
             Inl e \<Rightarrow> (Inl (SE_Crypto (InvalidInput (''getrandom: '' @ e))), s)
           | Inr fill \<Rightarrow> wire_encrypt P Cover fill s))"

definition wire_decrypt ::
  "primitives \<Rightarrow> WirePacket \<Rightarrow> WireSession \<Rightarrow> (SessionError + InnerPlaintext) \<times> WireSession" where
  "wire_decrypt P pkt s =
     (case require_established s of
        Inl e \<Rightarrow> (Inl e, s)
      | Inr _ \<Rightarrow>
          let (res, cipher) = cipher_decrypt P pkt (ws_cipher s); s1 = s\<lparr>ws_cipher := cipher\<rparr>
          in (case res of
                Inr inner \<Rightarrow> (Inr inner, s1\<lparr>ws_metrics := count_received (ws_metrics s)\<rparr>)
              | Inl (NonceExhausted c) \<Rightarrow> (Inl SE_RekeyRequired, s1\<lparr>ws_state := Rekey\<rparr>)
              | Inl e \<Rightarrow> (Inl (SE_Codec e), s1)))"

section \<open>The whole interface as one step function\<close>

datatype wire_op =
    BeginHandshake
  | CompleteHandshake
  | CloseSession
  | Encrypt MessageType bytes
  | EncryptCover "string + bytes"
  | Decrypt WirePacket

datatype wire_out = Done | Emitted WirePacket | Delivered InnerPlaintext | Failed SessionError

definition out_unit :: "(SessionError + unit) \<times> WireSession \<Rightarrow> wire_out \<times> WireSession" where
  "out_unit r = (case r of (Inl e, s) \<Rightarrow> (Failed e, s) | (Inr _, s) \<Rightarrow> (Done, s))"

definition out_packet :: "(SessionError + WirePacket) \<times> WireSession \<Rightarrow> wire_out \<times> WireSession" where
  "out_packet r = (case r of (Inl e, s) \<Rightarrow> (Failed e, s) | (Inr p, s) \<Rightarrow> (Emitted p, s))"

definition out_inner :: "(SessionError + InnerPlaintext) \<times> WireSession \<Rightarrow> wire_out \<times> WireSession" where
  "out_inner r = (case r of (Inl e, s) \<Rightarrow> (Failed e, s) | (Inr p, s) \<Rightarrow> (Delivered p, s))"

fun wire_step :: "primitives \<Rightarrow> wire_op \<Rightarrow> WireSession \<Rightarrow> wire_out \<times> WireSession" where
  "wire_step P BeginHandshake s = out_unit (begin_handshake s)"
| "wire_step P CompleteHandshake s = out_unit (complete_handshake s)"
| "wire_step P CloseSession s = out_unit (wire_close s)"
| "wire_step P (Encrypt mt payload) s = out_packet (wire_encrypt P mt payload s)"
| "wire_step P (EncryptCover rnd) s = out_packet (wire_cover P rnd s)"
| "wire_step P (Decrypt pkt) s = out_inner (wire_decrypt P pkt s)"

fun emitted :: "wire_out list \<Rightarrow> WirePacket list" where
  "emitted [] = []"
| "emitted (Emitted p # os) = p # emitted os"
| "emitted (_ # os) = emitted os"

section \<open>Data path and state\<close>

lemma wire_encrypt_cases:
  obtains (blocked) "ws_state s \<noteq> Established" "wire_encrypt P mt payload s = (Inl (SE_WrongState Established (ws_state s)), s)"
  | (sent) pkt c where "ws_state s = Established" "cipher_encrypt P mt payload (ws_cipher s) = (Inr pkt, c)"
      "wire_encrypt P mt payload s =
         (Inr pkt, s\<lparr>ws_cipher := c, ws_metrics := count_sent (ws_metrics s)\<rparr>)"
  | (rekey) n where "ws_state s = Established"
      "cipher_encrypt P mt payload (ws_cipher s) = (Inl (NonceExhausted n), ws_cipher s)"
      "wire_encrypt P mt payload s = (Inl SE_RekeyRequired, s\<lparr>ws_state := Rekey\<rparr>)"
  | (failed) e where "ws_state s = Established"
      "cipher_encrypt P mt payload (ws_cipher s) = (Inl e, ws_cipher s)"
      "wire_encrypt P mt payload s = (Inl (SE_Codec e), s)"
proof (cases "ws_state s = Established")
  case False
  then show ?thesis using blocked by (simp add: wire_encrypt_def require_established_def)
next
  case True
  obtain res c where st: "cipher_encrypt P mt payload (ws_cipher s) = (res, c)" by fastforce
  show ?thesis
  proof (cases res)
    case (Inr pkt)
    then show ?thesis
      using sent [OF True] st True by (simp add: wire_encrypt_def require_established_def)
  next
    case (Inl e)
    then have "c = ws_cipher s" using encrypt_err_state st by blast
    then show ?thesis
      using rekey [OF True] failed [OF True, of e] st Inl True
      by (cases e) (simp_all add: wire_encrypt_def require_established_def)
  qed
qed

lemma wire_decrypt_cases:
  obtains (blocked) "ws_state s \<noteq> Established" "wire_decrypt P pkt s = (Inl (SE_WrongState Established (ws_state s)), s)"
  | (received) inner c where "ws_state s = Established" "cipher_decrypt P pkt (ws_cipher s) = (Inr inner, c)"
      "wire_decrypt P pkt s =
         (Inr inner, s\<lparr>ws_cipher := c, ws_metrics := count_received (ws_metrics s)\<rparr>)"
  | (rekey) n c where "ws_state s = Established"
      "cipher_decrypt P pkt (ws_cipher s) = (Inl (NonceExhausted n), c)"
      "wire_decrypt P pkt s = (Inl SE_RekeyRequired, s\<lparr>ws_cipher := c, ws_state := Rekey\<rparr>)"
  | (failed) e c where "ws_state s = Established"
      "cipher_decrypt P pkt (ws_cipher s) = (Inl e, c)"
      "wire_decrypt P pkt s = (Inl (SE_Codec e), s\<lparr>ws_cipher := c\<rparr>)"
proof (cases "ws_state s = Established")
  case False
  then show ?thesis using blocked by (simp add: wire_decrypt_def require_established_def)
next
  case True
  obtain res c where st: "cipher_decrypt P pkt (ws_cipher s) = (res, c)" by fastforce
  show ?thesis
  proof (cases res)
    case (Inr inner)
    then show ?thesis
      using received [OF True] st True by (simp add: wire_decrypt_def require_established_def)
  next
    case (Inl e)
    then show ?thesis
      using rekey [OF True] failed [OF True, of e] st Inl True
      by (cases e) (simp_all add: wire_decrypt_def require_established_def)
  qed
qed

lemma wire_cover_eq:
  "wire_cover P (Inr fill) s = wire_encrypt P Cover fill s"
  "wire_cover P (Inl err) s = (Inl (case require_established s of Inl e \<Rightarrow> e
     | Inr _ \<Rightarrow> SE_Crypto (InvalidInput (''getrandom: '' @ err))), s)"
proof -
  show "wire_cover P (Inr fill) s = wire_encrypt P Cover fill s"
    unfolding wire_cover_def wire_encrypt_def by (cases "require_established s") simp_all
  show "wire_cover P (Inl err) s = (Inl (case require_established s of Inl e \<Rightarrow> e
     | Inr _ \<Rightarrow> SE_Crypto (InvalidInput (''getrandom: '' @ err))), s)"
    unfolding wire_cover_def by (cases "require_established s") simp_all
qed

lemma wire_lifecycle_step:
  assumes "op \<in> {BeginHandshake, CompleteHandshake, CloseSession}"
  shows "\<exists>st out. wire_step P op s = (out, s\<lparr>ws_state := st\<rparr>) \<and> (out = Done \<or> (\<exists>e. out = Failed e)) \<and>
    (st = ws_state s \<or> lifecycle (ws_state s) st \<or> st = Closed)"
proof -
  have attempt: "\<exists>st out. out_unit (case transition (ws_state s) t of Inl e \<Rightarrow> (Inl (SE_State e), s)
        | Inr st \<Rightarrow> (Inr (), s\<lparr>ws_state := st\<rparr>)) = (out, s\<lparr>ws_state := st\<rparr>) \<and>
      (out = Done \<or> (\<exists>e. out = Failed e)) \<and>
      (st = ws_state s \<or> lifecycle (ws_state s) st \<or> st = Closed)" for t
  proof (cases "can_transition_to (ws_state s) t")
    case True
    then show ?thesis
      by (intro exI [of _ t] exI [of _ Done]) (simp add: transition_def out_unit_def can_transition_to_iff)
  next
    case False
    then show ?thesis
      by (intro exI [of _ "ws_state s"] exI [of _ "Failed (SE_State (InvalidTransition (ws_state s) t))"])
        (simp add: transition_def out_unit_def)
  qed
  have close: "out_unit (wire_close s) = (Done, s\<lparr>ws_state := Closed\<rparr>)"
    by (simp add: wire_close_def out_unit_def)
  consider "op = BeginHandshake" | "op = CompleteHandshake" | "op = CloseSession"
    using assms by blast
  then show ?thesis
  proof cases
    case 1
    show ?thesis unfolding 1 wire_step.simps begin_handshake_def by (rule attempt)
  next
    case 2
    show ?thesis unfolding 2 wire_step.simps complete_handshake_def by (rule attempt)
  next
    case 3
    show ?thesis unfolding 3 wire_step.simps close by blast
  qed
qed

lemma wire_lifecycle_cipher:
  assumes "op \<in> {BeginHandshake, CompleteHandshake, CloseSession}"
  shows "ws_cipher (snd (wire_step P op s)) = ws_cipher s"
proof -
  obtain st out where "wire_step P op s = (out, s\<lparr>ws_state := st\<rparr>)"
    using wire_lifecycle_step [OF assms] by blast
  then show ?thesis by simp
qed

lemma snd_out [simp]:
  "snd (out_packet r) = snd r" "snd (out_inner r') = snd r'" "snd (out_unit r'') = snd r''"
  by (auto simp: out_packet_def out_inner_def out_unit_def split: prod.splits sum.splits)

section \<open>Invariant\<close>

definition wire_inv :: "WireSession \<Rightarrow> bool" where
  "wire_inv s \<longleftrightarrow> cipher_wf (ws_cipher s) \<and>
     unat (cs_send_counter (ws_cipher s)) \<le> 2 ^ 64 - 1 - 2 ^ 32 \<and>
     ws_role s = cs_role (ws_cipher s) \<and> ws_session_id s = cs_session_id (ws_cipher s) \<and>
     sm_packets_sent (ws_metrics s) = cs_send_counter (ws_cipher s) \<and>
     sm_bytes_sent (ws_metrics s) = 1280 * cs_send_counter (ws_cipher s) \<and>
     sm_bytes_received (ws_metrics s) = 1280 * sm_packets_received (ws_metrics s)"

lemma wire_new_inv:
  assumes "wire_new P now role master sid = Inr s" "length sid = 8"
  shows "wire_inv s"
  using assms cipher_new_wf [of P role master sid]
  by (auto simp: wire_new_def wire_inv_def metrics_default_def split: sum.splits)

lemma wire_established_inv:
  assumes "wire_established P now role outcome = Inr s" "length (ho_session_id outcome) = 8"
  shows "wire_inv s" "ws_state s = Established" "cipher_rel (ws_cipher s) {}"
  using assms cipher_new_wf [of P role "ho_master outcome" "ho_session_id outcome"]
  by (auto simp: wire_established_def wire_inv_def metrics_default_def cipher_rel_def
      window_rel_new split: sum.splits)

lemma wire_encrypt_inv: "wire_inv s \<Longrightarrow> wire_inv (snd (wire_encrypt P mt payload s))"
proof (rule wire_encrypt_cases [of s P mt payload])
  fix pkt c assume inv: "wire_inv s" and e: "cipher_encrypt P mt payload (ws_cipher s) = (Inr pkt, c)"
    and w: "wire_encrypt P mt payload s =
      (Inr pkt, s\<lparr>ws_cipher := c, ws_metrics := count_sent (ws_metrics s)\<rparr>)"
  have wf: "cipher_wf (ws_cipher s)" using inv by (simp add: wire_inv_def)
  note D = encrypt_okD [OF wf e]
  have "unat (cs_send_counter (ws_cipher s) + 1) \<le> 2 ^ 64 - 1 - 2 ^ 32"
    using not_exhausted_succ(2) [OF D(2)] D(2) by (simp add: not_exhausted_bound)
  then show ?thesis
    using inv D(1) unfolding w
    by (simp add: wire_inv_def cipher_wf_def count_sent_def layout_values distrib_left)
qed (simp_all add: wire_inv_def)

lemma wire_inv_state [simp]: "wire_inv (s\<lparr>ws_state := st\<rparr>) = wire_inv s"
  by (simp add: wire_inv_def)

lemma wire_inv_decrypted:
  assumes "wire_inv s" "cipher_decrypt P pkt (ws_cipher s) = (res, c)"
  shows "wire_inv (s\<lparr>ws_cipher := c\<rparr>)"
    "wire_inv (s\<lparr>ws_cipher := c, ws_metrics := count_received (ws_metrics s)\<rparr>)"
  using assms(1) decrypt_keeps_session [of P pkt "ws_cipher s", unfolded assms(2) snd_conv]
  by (simp_all add: wire_inv_def count_received_def layout_values distrib_left)

lemma wire_decrypt_inv: "wire_inv s \<Longrightarrow> wire_inv (snd (wire_decrypt P pkt s))"
proof (rule wire_decrypt_cases [of s P pkt])
  fix e c assume "wire_inv s" and d: "cipher_decrypt P pkt (ws_cipher s) = (Inl e, c)"
    and w: "wire_decrypt P pkt s = (Inl (SE_Codec e), s\<lparr>ws_cipher := c\<rparr>)"
  then show ?thesis unfolding w snd_conv using wire_inv_decrypted(1) by blast
next
  fix n c assume "wire_inv s" and d: "cipher_decrypt P pkt (ws_cipher s) = (Inl (NonceExhausted n), c)"
    and w: "wire_decrypt P pkt s = (Inl SE_RekeyRequired, s\<lparr>ws_cipher := c, ws_state := Rekey\<rparr>)"
  then show ?thesis unfolding w snd_conv wire_inv_state using wire_inv_decrypted(1) by blast
next
  fix i c assume "wire_inv s" and d: "cipher_decrypt P pkt (ws_cipher s) = (Inr i, c)"
    and w: "wire_decrypt P pkt s =
      (Inr i, s\<lparr>ws_cipher := c, ws_metrics := count_received (ws_metrics s)\<rparr>)"
  then show ?thesis unfolding w snd_conv using wire_inv_decrypted(2) by blast
qed simp

lemma wire_step_inv: "wire_inv s \<Longrightarrow> wire_inv (snd (wire_step P op s))"
proof -
  assume inv: "wire_inv s"
  have lc: ?thesis if "op \<in> {BeginHandshake, CompleteHandshake, CloseSession}"
    using wire_lifecycle_step [OF that, of P s] inv wire_inv_state by (metis snd_conv)
  have cover: "wire_inv (snd (wire_cover P rnd s))" for rnd
    using wire_cover_eq(1) [of P _ s] wire_cover_eq(2) [of P _ s] wire_encrypt_inv [OF inv] inv
    by (cases rnd) auto
  show ?thesis
    using lc cover wire_encrypt_inv [OF inv] wire_decrypt_inv [OF inv] by (cases op) simp_all
qed

interpretation wire: step_system "wire_step P" wire_inv for P
  by unfold_locales (rule wire_step_inv)

section \<open>Every sequence of operations\<close>

text \<open>The packet is the given header followed by what the AEAD returned under the sending key and the
  given nonce, with that header as associated data.\<close>

definition sealed_with :: "primitives \<Rightarrow> CipherSession \<Rightarrow> bytes \<Rightarrow> bytes \<Rightarrow> WirePacket \<Rightarrow> bool" where
  "sealed_with P s nonce aad pkt \<longleftrightarrow>
     (\<exists>m c. aead_encrypt P (send_key s) nonce m aad = Inr c \<and> pkt = WirePacket (aad @ c))"

definition same_sender :: "CipherSession \<Rightarrow> CipherSession \<Rightarrow> bool" where
  "same_sender s s1 \<longleftrightarrow> send_key s1 = send_key s \<and> send_prefix s1 = send_prefix s \<and> cs_session_id s1 = cs_session_id s"

lemma same_sender_simps [simp]:
  "same_sender s s" "same_sender s (s\<lparr>cs_send_counter := c\<rparr>)" "same_sender s (s\<lparr>cs_replay := w\<rparr>)"
  by (simp_all add: same_sender_def send_key_def send_prefix_def split: Role.splits)

lemma same_sender_trans: "same_sender s s1 \<Longrightarrow> same_sender s1 s2 \<Longrightarrow> same_sender s s2"
  by (simp add: same_sender_def)

lemma decrypt_same_sender: "same_sender r (snd (cipher_decrypt P pkt r))"
  using decrypt_state [of P pkt r] by auto

lemma encrypt_same_sender: "cipher_wf s \<Longrightarrow> cipher_encrypt P mt payload s = (Inr pkt, s1) \<Longrightarrow> same_sender s s1"
  using encrypt_okD(1) by fastforce

text \<open>One step: what a packet on the wire or a delivered plaintext says about the state before, and
  what becomes of the send counter.\<close>

lemma wire_step_emitted:
  assumes "wire_inv s" "wire_step P op s = (Emitted pkt, s1)"
  shows "ws_state s = Established \<and> packet_wf pkt \<and> packet_counter pkt = cs_send_counter (ws_cipher s) \<and>
    unat (cs_send_counter (ws_cipher s1)) = Suc (unat (cs_send_counter (ws_cipher s))) \<and>
    sealed_with P (ws_cipher s) (sealed_nonce (ws_cipher s)) (header_encode (sealed_header (ws_cipher s))) pkt \<and>
    same_sender (ws_cipher s) (ws_cipher s1)"
proof -
  have enc: ?thesis if "wire_encrypt P mt payload s = (Inr pkt, s1)" for mt payload
  proof (rule wire_encrypt_cases [of s P mt payload])
    fix q c assume est: "ws_state s = Established"
      and e: "cipher_encrypt P mt payload (ws_cipher s) = (Inr q, c)"
      and w: "wire_encrypt P mt payload s =
        (Inr q, s\<lparr>ws_cipher := c, ws_metrics := count_sent (ws_metrics s)\<rparr>)"
    have wf: "cipher_wf (ws_cipher s)" using assms(1) by (simp add: wire_inv_def)
    note D = encrypt_okD [OF wf e]
    show ?thesis
      using est w that D(1,4,5) encrypt_same_sender [OF wf e] packet_counter_sealed [OF wf e] not_exhausted_succ(2) [OF D(2)]
      by (auto simp: sealed_with_def)
  qed (use that in auto)
  have out: "r = (Inr pkt, s1)" if "out_packet r = (Emitted pkt, s1)" for r
    using that by (auto simp: out_packet_def split: prod.splits sum.splits)
  have no_out: "out_unit r \<noteq> (Emitted pkt, s1)" "out_inner r' \<noteq> (Emitted pkt, s1)" for r r'
    by (auto simp: out_unit_def out_inner_def split: prod.splits sum.splits)
  show ?thesis
  proof (cases op)
    case (Encrypt mt payload)
    then show ?thesis using assms(2) enc out by simp
  next
    case (EncryptCover rnd)
    then have c: "wire_cover P rnd s = (Inr pkt, s1)" using assms(2) out by simp
    then show ?thesis
      using enc wire_cover_eq(1) [of P _ s] wire_cover_eq(2) [of P _ s] by (cases rnd) auto
  qed (use assms(2) no_out in auto)
qed

lemma wire_step_not_emitted:
  assumes "wire_step P op s = (out, s1)" "\<And>pkt. out \<noteq> Emitted pkt"
  shows "cs_send_counter (ws_cipher s1) = cs_send_counter (ws_cipher s) \<and> same_sender (ws_cipher s) (ws_cipher s1)"
proof -
  have enc: ?thesis if "wire_encrypt P mt payload s = (Inl e, s1)" for mt payload e
    by (rule wire_encrypt_cases [of s P mt payload]) (use that in auto)
  have dec: "cs_send_counter (ws_cipher (snd (wire_decrypt P pkt s))) = cs_send_counter (ws_cipher s) \<and>
      same_sender (ws_cipher s) (ws_cipher (snd (wire_decrypt P pkt s)))" for pkt
    using decrypt_keeps_session(3) [of P pkt "ws_cipher s"] decrypt_same_sender [of "ws_cipher s" P pkt]
    by (rule_tac wire_decrypt_cases [of s P pkt]) auto
  have out: "\<exists>e. r = (Inl e, s1)" if "out_packet r = (out, s1)" for r
    using that assms(2) by (auto simp: out_packet_def split: prod.splits sum.splits)
  show ?thesis
  proof (cases op)
    case (Encrypt mt payload)
    then show ?thesis using assms(1) enc out by fastforce
  next
    case (EncryptCover rnd)
    then obtain e where c: "wire_cover P rnd s = (Inl e, s1)"
      using assms(1) out [of "wire_cover P rnd s"] by auto
    then show ?thesis
      using enc wire_cover_eq(1) [of P _ s] wire_cover_eq(2) [of P _ s] by (cases rnd) auto
  next
    case (Decrypt pkt)
    then have "s1 = snd (wire_decrypt P pkt s)"
      using assms(1) by (metis snd_conv snd_out(2) wire_step.simps(6))
    then show ?thesis using dec by simp
  next
    case BeginHandshake
    then show ?thesis using wire_lifecycle_cipher [of op P s] assms(1) by (metis insertCI same_sender_simps(1) snd_conv)
  next
    case CompleteHandshake
    then show ?thesis using wire_lifecycle_cipher [of op P s] assms(1) by (metis insertCI same_sender_simps(1) snd_conv)
  next
    case CloseSession
    then show ?thesis using wire_lifecycle_cipher [of op P s] assms(1) by (metis insertCI same_sender_simps(1) snd_conv)
  qed
qed

lemma wire_run_counters:
  assumes "wire_inv s"
  shows "map (unat \<circ> packet_counter) (emitted (fst (run (wire_step P) ops s))) =
      [unat (cs_send_counter (ws_cipher s))..<unat (cs_send_counter (ws_cipher (snd (run (wire_step P) ops s))))]
    \<and> unat (cs_send_counter (ws_cipher s)) \<le> unat (cs_send_counter (ws_cipher (snd (run (wire_step P) ops s))))"
  using assms
proof (induction ops arbitrary: s)
  case Nil
  then show ?case by simp
next
  case (Cons op ops)
  obtain out s1 where st: "wire_step P op s = (out, s1)" by fastforce
  note IH = Cons.IH [OF wire_step_inv [OF Cons.prems, of P op], unfolded st snd_conv]
  show ?case
  proof (cases "\<exists>pkt. out = Emitted pkt")
    case True
    then obtain pkt where pkt: "out = Emitted pkt" by blast
    note E = wire_step_emitted [OF Cons.prems st [unfolded pkt]]
    then show ?thesis
      using IH st pkt by (simp add: upt_rec [of "unat (cs_send_counter (ws_cipher s))"])
  next
    case False
    then have "emitted (out # outs) = emitted outs" for outs by (cases out) auto
    then show ?thesis using IH st wire_step_not_emitted [OF st] False by simp
  qed
qed

text \<open>The AEAD call behind each packet: the \<open>i\<close>-th counter value gives the \<open>i\<close>-th nonce and header.\<close>

definition sealed_at :: "primitives \<Rightarrow> CipherSession \<Rightarrow> nat \<Rightarrow> WirePacket \<Rightarrow> bool" where
  "sealed_at P s i = sealed_with P s (build_session_nonce (send_prefix s) (of_nat i)) (header_encode (header_new (cs_session_id s) (of_nat i)))"

lemma sealed_at_sender: "same_sender s s1 \<Longrightarrow> sealed_at P s1 = sealed_at P s"
  by (auto simp: fun_eq_iff sealed_at_def sealed_with_def same_sender_def)

lemma wire_run_sealed:
  assumes "wire_inv s"
  shows "list_all2 (sealed_at P (ws_cipher s))
      [unat (cs_send_counter (ws_cipher s))..<unat (cs_send_counter (ws_cipher (snd (run (wire_step P) ops s))))]
      (emitted (fst (run (wire_step P) ops s)))"
  using assms
proof (induction ops arbitrary: s)
  case Nil
  then show ?case by simp
next
  case (Cons op ops)
  obtain out s1 where st: "wire_step P op s = (out, s1)" by fastforce
  note inv1 = wire_step_inv [OF Cons.prems, of P op, unfolded st snd_conv]
  note IH = Cons.IH [OF inv1]
  let ?c = "unat (cs_send_counter (ws_cipher s))" and ?c1 = "unat (cs_send_counter (ws_cipher s1))"
  let ?n = "unat (cs_send_counter (ws_cipher (snd (run (wire_step P) ops s1))))"
  have le: "?c1 \<le> ?n" using wire_run_counters [OF inv1, of P ops] by blast
  show ?case
  proof (cases "\<exists>pkt. out = Emitted pkt")
    case True
    then obtain pkt where pkt: "out = Emitted pkt" by blast
    note E = wire_step_emitted [OF Cons.prems st [unfolded pkt]]
    have "[?c..<?n] = ?c # [?c1..<?n]" using E le by (simp add: upt_conv_Cons)
    moreover have "sealed_at P (ws_cipher s) ?c pkt" using E by (simp add: sealed_at_def)
    moreover have "sealed_at P (ws_cipher s1) = sealed_at P (ws_cipher s)" using E sealed_at_sender by blast
    ultimately show ?thesis using IH st pkt by simp
  next
    case False
    then have "emitted (out # outs) = emitted outs" for outs by (cases out) auto
    moreover have "sealed_at P (ws_cipher s1) = sealed_at P (ws_cipher s)" "cs_send_counter (ws_cipher s1) = cs_send_counter (ws_cipher s)"
      using wire_step_not_emitted [OF st] False sealed_at_sender by blast+
    ultimately show ?thesis using IH st by simp
  qed
qed

text \<open>A closed session stays closed, sends nothing and delivers nothing.\<close>

lemma wire_step_closed:
  assumes "ws_state s = Closed"
  shows "ws_state (snd (wire_step P op s)) = Closed \<and>
    (fst (wire_step P op s) = Done \<or> (\<exists>e. fst (wire_step P op s) = Failed e))"
proof -
  have blocked: "wire_encrypt P mt p s = (Inl (SE_WrongState Established Closed), s)"
    "wire_decrypt P pkt s = (Inl (SE_WrongState Established Closed), s)"
    "wire_cover P rnd s = (Inl (SE_WrongState Established Closed), s)" for mt p pkt rnd
    using assms by (simp_all add: wire_encrypt_def wire_decrypt_def wire_cover_def require_established_def)
  have lc: ?thesis if "op \<in> {BeginHandshake, CompleteHandshake, CloseSession}"
    using wire_lifecycle_step [OF that, of P s] assms by auto
  show ?thesis
    using blocked lc assms by (cases op) (simp_all add: out_packet_def out_inner_def)
qed

interpretation closed: step_system "wire_step P" "\<lambda>s. ws_state s = Closed" for P
  by unfold_locales (simp add: wire_step_closed)

text \<open>Delivered packets have distinct counters, whatever else happens in between.\<close>

definition delivery_step ::
  "primitives \<Rightarrow> wire_op \<Rightarrow> WireSession \<Rightarrow> (wire_out + InnerPlaintext) \<times> WireSession" where
  "delivery_step P op s =
     (case wire_step P op s of (Delivered i, s1) \<Rightarrow> (Inr i, s1) | (out, s1) \<Rightarrow> (Inl out, s1))"

fun op_counter :: "wire_op \<Rightarrow> u64 option" where
  "op_counter (Decrypt pkt) = Some (packet_counter pkt)"
| "op_counter _ = None"

definition delivery_rel :: "WireSession \<Rightarrow> u64 option set \<Rightarrow> bool" where
  "delivery_rel s A \<longleftrightarrow> None \<notin> A \<and> cipher_rel (ws_cipher s) {c. Some c \<in> A}"

lemma wire_step_delivered:
  assumes "wire_step P op s = (Delivered i, s1)"
  obtains pkt where "op = Decrypt pkt" "cipher_decrypt P pkt (ws_cipher s) = (Inr i, ws_cipher s1)"
    "ws_state s = Established"
proof -
  have no_out: "out_unit r \<noteq> (Delivered i, s1)" "out_packet r' \<noteq> (Delivered i, s1)" for r r'
    by (auto simp: out_unit_def out_packet_def split: prod.splits sum.splits)
  then obtain pkt where op: "op = Decrypt pkt" using assms by (cases op) auto
  then have "wire_decrypt P pkt s = (Inr i, s1)"
    using assms by (auto simp: out_inner_def split: prod.splits sum.splits)
  then show thesis using that [OF op] by (rule_tac wire_decrypt_cases [of s P pkt]) auto
qed

lemma wire_step_window:
  assumes "wire_step P op s = (out, s1)" "\<And>i. out \<noteq> Delivered i" "cipher_rel (ws_cipher s) A"
  shows "\<exists>B. A \<subseteq> B \<and> cipher_rel (ws_cipher s1) B"
proof -
  have enc: "cs_replay (ws_cipher (snd (wire_encrypt P mt payload s))) = cs_replay (ws_cipher s)" for mt payload
  proof (rule wire_encrypt_cases [of s P mt payload])
    fix pkt c assume "cipher_encrypt P mt payload (ws_cipher s) = (Inr pkt, c)"
      and w: "wire_encrypt P mt payload s =
        (Inr pkt, s\<lparr>ws_cipher := c, ws_metrics := count_sent (ws_metrics s)\<rparr>)"
    then have "cs_replay c = cs_replay (ws_cipher s)"
      by (auto simp: cipher_encrypt_def Let_def split: if_splits sum.splits option.splits)
    then show ?thesis using w by simp
  qed simp_all
  have s1: "s1 = snd (wire_step P op s)" using assms(1) by simp
  have same: ?thesis if "cs_replay (ws_cipher s1) = cs_replay (ws_cipher s)"
    using assms(3) that by (auto simp: cipher_rel_def)
  show ?thesis
  proof (cases op)
    case (Encrypt mt payload)
    then show ?thesis using same enc s1 by simp
  next
    case (EncryptCover rnd)
    then show ?thesis
      using same enc s1 wire_cover_eq(1) [of P _ s] wire_cover_eq(2) [of P _ s] by (cases rnd) auto
  next
    case (Decrypt pkt)
    then have "wire_decrypt P pkt s = (Inl e, s1) \<Longrightarrow> ?thesis" for e
      using same cipher_rel_decrypt_err [OF assms(3), of P pkt]
      by (rule_tac wire_decrypt_cases [of s P pkt]) auto
    then show ?thesis
      using assms(1,2) Decrypt by (auto simp: out_inner_def split: prod.splits sum.splits)
  next
    case BeginHandshake
    then show ?thesis using wire_lifecycle_cipher [of op P s] s1 same by (metis insertCI)
  next
    case CompleteHandshake
    then show ?thesis using wire_lifecycle_cipher [of op P s] s1 same by (metis insertCI)
  next
    case CloseSession
    then show ?thesis using wire_lifecycle_cipher [of op P s] s1 same by (metis insertCI)
  qed
qed

interpretation delivery: antireplay "delivery_step P" op_counter delivery_rel for P
proof
  show "op_counter op \<notin> A \<and> (\<exists>B. insert (op_counter op) A \<subseteq> B \<and> delivery_rel s1 B)"
    if R: "delivery_rel s A" and d: "delivery_step P op s = (Inr i, s1)" for s A op i s1
  proof -
    have "wire_step P op s = (Delivered i, s1)"
      using d by (auto simp: delivery_step_def split: prod.splits wire_out.splits)
    then obtain pkt where op: "op = Decrypt pkt"
      and c: "cipher_decrypt P pkt (ws_cipher s) = (Inr i, ws_cipher s1)"
      by (rule wire_step_delivered)
    have rel: "cipher_rel (ws_cipher s) {c. Some c \<in> A}" using R by (simp add: delivery_rel_def)
    note D = cipher_rel_decrypt_ok [OF rel c]
    have "{d. Some d \<in> insert (op_counter op) A} = insert (packet_counter pkt) {c. Some c \<in> A}"
      using op by auto
    then have "delivery_rel s1 (insert (op_counter op) A)"
      using D(2) R op by (simp add: delivery_rel_def)
    then show ?thesis using D(1) op by auto
  qed
  show "\<exists>B. A \<subseteq> B \<and> delivery_rel s1 B"
    if R: "delivery_rel s A" and d: "delivery_step P op s = (Inl out, s1)" for s A op out s1
  proof -
    have w: "wire_step P op s = (out, s1)" "\<And>i. out \<noteq> Delivered i"
      using d by (auto simp: delivery_step_def split: prod.splits wire_out.splits)
    have rel: "cipher_rel (ws_cipher s) {c. Some c \<in> A}" using R by (simp add: delivery_rel_def)
    obtain B where B: "{c. Some c \<in> A} \<subseteq> B" "cipher_rel (ws_cipher s1) B"
      using wire_step_window [OF w rel] by blast
    have "{c. Some c \<in> Some ` B} = B" by auto
    then have "delivery_rel s1 (Some ` B)" using B(2) by (simp add: delivery_rel_def)
    moreover have "A \<subseteq> Some ` B"
    proof
      fix x assume x: "x \<in> A"
      then obtain c where "x = Some c" using R by (cases x) (auto simp: delivery_rel_def)
      then show "x \<in> Some ` B" using x B(1) by auto
    qed
    ultimately show ?thesis by blast
  qed
qed

section \<open>Properties\<close>

text \<open>A session established from a handshake outcome over the example primitives.\<close>

definition demo_outcome :: HandshakeOutcome where
  "demo_outcome = \<lparr>ho_master = replicate 32 1, ho_session_id = replicate 8 2,
     ho_peer_identity = replicate 1952 3, ho_handshake_duration = 0\<rparr>"

lemma demo_established:
  obtains s where "wire_established demo 0 role demo_outcome = Inr s"
proof -
  obtain c where "cipher_new demo role (replicate 32 1) (replicate 8 2) = Inr c"
    using cipher_new_ok [OF demo_hkdf, of "replicate 8 2" role] by auto
  then show thesis using that by (simp add: wire_established_def demo_outcome_def)
qed

lemma demo_outcome_sid: "length (ho_session_id demo_outcome) = 8"
  by (simp add: demo_outcome_def)

text \<open>The server's session opens a packet of the client's.\<close>

lemma demo_delivery:
  obtains s pkt inner s1 where "wire_established demo 0 Server demo_outcome = Inr s" "wire_decrypt demo pkt s = (Inr inner, s1)"
proof -
  obtain c where c: "wire_established demo 0 Client demo_outcome = Inr c" by (rule demo_established)
  obtain s where s: "wire_established demo 0 Server demo_outcome = Inr s" by (rule demo_established)
  have pr: "peers (ws_cipher c) (ws_cipher s)"
    using c s cipher_new_peers(1) by (auto simp: wire_established_def split: sum.splits)
  have wf: "cipher_wf (ws_cipher c)" using wire_established_inv(1) [OF c demo_outcome_sid] by (simp add: wire_inv_def)
  have zero: "cs_send_counter (ws_cipher c) = 0"
    using c cipher_new_wf(4) [OF _ demo_outcome_sid] by (auto simp: wire_established_def split: sum.splits)
  have win: "window_rel (cs_replay (ws_cipher s)) {}"
    using wire_established_inv(3) [OF s demo_outcome_sid] by (simp add: cipher_rel_def)
  have len: "length (replicate PAYLOAD_LEN (0 :: byte)) = PAYLOAD_LEN" by simp
  have ne: "\<not> is_counter_exhausted (cs_send_counter (ws_cipher c))" by (simp add: zero not_exhausted_bound)
  obtain pkt where e: "cipher_encrypt demo Data (replicate PAYLOAD_LEN 0) (ws_cipher c) =
      (Inr pkt, (ws_cipher c)\<lparr>cs_send_counter := cs_send_counter (ws_cipher c) + 1\<rparr>)"
    by (rule encrypt_succeeds [OF wf demo_aead len ne])
  have "accept_spec {} (cs_send_counter (ws_cipher c))" by (simp add: accept_spec_def)
  then obtain rw where "cipher_decrypt demo pkt (ws_cipher s) =
      (Inr (sealed_inner Data (replicate PAYLOAD_LEN 0) (ws_cipher c)), (ws_cipher s)\<lparr>cs_replay := rw\<rparr>)"
    using decrypt_encrypt [OF wf demo_aead pr e win] by auto
  then have "wire_decrypt demo pkt s = (Inr (sealed_inner Data (replicate PAYLOAD_LEN 0) (ws_cipher c)),
      s\<lparr>ws_cipher := (ws_cipher s)\<lparr>cs_replay := rw\<rparr>, ws_metrics := count_received (ws_metrics s)\<rparr>)"
    using wire_established_inv(2) [OF s demo_outcome_sid] by (simp add: wire_decrypt_def require_established_def)
  then show thesis by (rule that [OF s])
qed

text \<open>C10: no nonce is ever used twice under one key. Over any sequence of operations on an established
  session (sends, cover packets, received packets, lifecycle calls, failing calls) the packets
  emitted carry the counters 0, 1, 2, ... in order, and the one with counter \<open>i\<close> is its header followed by
  what the AEAD returned under the session's sending key, the nonce built from \<open>i\<close> and that header. Those
  nonces are pairwise distinct, and the counter never passes the exhaustion threshold. The AEAD is an
  arbitrary function, so no other nonce can have produced the packets.\<close>

theorem wire_nonces_unique:
  assumes "wire_established P now role outcome = Inr s" "length (ho_session_id outcome) = 8"
  shows "\<exists>n \<le> 2 ^ 64 - 1 - 2 ^ 32.
      map (unat \<circ> packet_counter) (emitted (fst (run (wire_step P) ops s))) = [0..<n] \<and>
      list_all2 (\<lambda>i pkt. \<exists>m c.
          aead_encrypt P (send_key (ws_cipher s)) (build_session_nonce (send_prefix (ws_cipher s)) (of_nat i)) m
            (header_encode (header_new (ho_session_id outcome) (of_nat i))) = Inr c \<and>
          pkt = WirePacket (header_encode (header_new (ho_session_id outcome) (of_nat i)) @ c))
        [0..<n] (emitted (fst (run (wire_step P) ops s))) \<and>
      distinct (map (\<lambda>i. build_session_nonce (send_prefix (ws_cipher s)) (of_nat i)) [0..<n])"
proof -
  note inv = wire_established_inv(1) [OF assms]
  let ?s1 = "snd (run (wire_step P) ops s)"
  let ?ps = "emitted (fst (run (wire_step P) ops s))"
  let ?n = "unat (cs_send_counter (ws_cipher ?s1))"
  have zero: "cs_send_counter (ws_cipher s) = 0" and sid: "cs_session_id (ws_cipher s) = ho_session_id outcome"
    using assms cipher_new_wf(3,4) [of P role "ho_master outcome" "ho_session_id outcome"]
    by (auto simp: wire_established_def split: sum.splits)
  have bound: "?n \<le> 2 ^ 64 - 1 - 2 ^ 32"
    using wire.run_inv [OF inv, of P ops] unfolding wire_inv_def by blast
  have cs: "map (unat \<circ> packet_counter) ?ps = [0..<?n]"
    using wire_run_counters [OF inv, of P ops] zero by simp
  have calls: "list_all2 (sealed_at P (ws_cipher s)) [0..<?n] ?ps"
    using wire_run_sealed [OF inv, of P ops] zero by simp
  have "length (send_prefix (ws_cipher s)) = 4"
    using inv cipher_wf_keys(3) unfolding wire_inv_def by blast
  moreover have "unat (of_nat i :: u64) = i" if "i < ?n" for i using that bound by (simp add: unat_of_nat)
  then have "i = j" if "i < ?n" "j < ?n" "(of_nat i :: u64) = of_nat j" for i j using that by metis
  ultimately have "distinct (map (\<lambda>i. build_session_nonce (send_prefix (ws_cipher s)) (of_nat i)) [0..<?n])"
    by (auto simp: distinct_map inj_on_def build_session_nonce_inj)
  then show ?thesis using cs bound calls unfolding sealed_at_def sealed_with_def sid by blast
qed

theorem wire_nonces_unique_witness:
  "\<exists>s n. wire_established demo 0 Client demo_outcome = Inr s \<and>
      map (unat \<circ> packet_counter) (emitted (fst (run (wire_step demo)
        [Encrypt Data (replicate PAYLOAD_LEN 0), EncryptCover (Inr (replicate PAYLOAD_LEN 9))] s))) = [0..<n] \<and>
      distinct (map (\<lambda>i. build_session_nonce (send_prefix (ws_cipher s)) (of_nat i)) [0..<n])"
proof -
  obtain s where "wire_established demo 0 Client demo_outcome = Inr s" by (rule demo_established)
  then show ?thesis using wire_nonces_unique [OF _ demo_outcome_sid] by blast
qed

text \<open>C19: over any sequence of operations, each packet counter is delivered to the application at most
  once.\<close>

theorem wire_delivers_once:
  assumes "wire_established P now role outcome = Inr s" "length (ho_session_id outcome) = 8"
  shows "distinct (map op_counter (accepted (delivery_step P) ops s))"
proof -
  have "delivery_rel s {}"
    using wire_established_inv(3) [OF assms] by (simp add: delivery_rel_def)
  then show ?thesis using delivery.accepted_fresh by blast
qed

theorem wire_delivers_once_witness:
  "\<exists>s pkt. wire_established demo 0 Server demo_outcome = Inr s \<and>
    accepted (delivery_step demo) [Decrypt pkt, Encrypt Data (replicate PAYLOAD_LEN 0), Decrypt pkt] s \<noteq> [] \<and>
    distinct (map op_counter (accepted (delivery_step demo)
      [Decrypt pkt, Encrypt Data (replicate PAYLOAD_LEN 0), Decrypt pkt] s))"
proof -
  obtain s pkt inner s1 where "wire_established demo 0 Server demo_outcome = Inr s" "wire_decrypt demo pkt s = (Inr inner, s1)"
    by (rule demo_delivery)
  then show ?thesis
    using wire_delivers_once [OF _ demo_outcome_sid, of demo 0 Server s "[Decrypt pkt, Encrypt Data (replicate PAYLOAD_LEN 0), Decrypt pkt]"]
    by (intro exI [of _ s] exI [of _ pkt]) (simp add: delivery_step_def out_inner_def)
qed

text \<open>C38: after \<open>close\<close> a session stays closed under every later sequence of operations: nothing is
  emitted and nothing is delivered.\<close>

theorem wire_closed_is_final:
  "ws_state (snd (run (wire_step P) ops (snd (wire_close s)))) = Closed \<and>
   emitted (fst (run (wire_step P) ops (snd (wire_close s)))) = [] \<and>
   accepted (delivery_step P) ops (snd (wire_close s)) = []"
proof -
  have "ws_state (snd (run (wire_step P) ops s)) = Closed \<and>
      emitted (fst (run (wire_step P) ops s)) = [] \<and> accepted (delivery_step P) ops s = []"
    if "ws_state s = Closed" for s
    using that
  proof (induction ops arbitrary: s)
    case Nil
    then show ?case by simp
  next
    case (Cons op ops)
    obtain out s1 where st: "wire_step P op s = (out, s1)" by fastforce
    have c: "ws_state s1 = Closed" "out = Done \<or> (\<exists>e. out = Failed e)"
      using wire_step_closed [OF Cons.prems, of P op] st by simp_all
    then show ?case using Cons.IH [OF c(1)] st by (auto simp: delivery_step_def)
  qed
  then show ?thesis by (simp add: wire_close_def)
qed

text \<open>Outside the established state the data path is blocked: encrypting, sending cover and
  decrypting all fail with the wrong-state error and leave the session as it was.\<close>

lemma wire_data_path_gated:
  assumes "ws_state s \<noteq> Established"
  shows "wire_encrypt P mt payload s = (Inl (SE_WrongState Established (ws_state s)), s) \<and>
    wire_cover P rnd s = (Inl (SE_WrongState Established (ws_state s)), s) \<and>
    wire_decrypt P pkt s = (Inl (SE_WrongState Established (ws_state s)), s)"
  using assms by (simp add: wire_encrypt_def wire_cover_def wire_decrypt_def require_established_def)

text \<open>At the exhaustion threshold a send of a full payload does not emit: the session moves to the
  rekey state with \<open>RekeyRequired\<close> and its cipher state, counter included, is unchanged.\<close>

lemma wire_exhaustion_forces_rekey:
  assumes "ws_state s = Established" "is_counter_exhausted (cs_send_counter (ws_cipher s))"
    and "length payload = PAYLOAD_LEN"
  shows "wire_encrypt P mt payload s = (Inl SE_RekeyRequired, s\<lparr>ws_state := Rekey\<rparr>)"
  using assms encrypt_exhausted [OF assms(3,2), of P mt]
  by (simp add: wire_encrypt_def require_established_def)

text \<open>Every operation preserves the session invariant: key sizes, agreement of role and session
  identifier with the envelope, a send counter within bounds, and the metrics equal to the packets
  actually sent (1280 bytes each, modulo the width of the byte counters).\<close>

lemma wire_invariant_kept:
  assumes "wire_established P now role outcome = Inr s" "length (ho_session_id outcome) = 8"
  shows "wire_inv (snd (run (wire_step P) ops s))"
  using wire.run_inv [OF wire_established_inv(1) [OF assms]] .

end
