(* ===== verification/Handshake_Client.thy ===== *)
theory Handshake_Client
  imports Handshake_Messages Wire_Session
begin

text \<open>
  The client side of the v2 handshake (\<open>pq-tunnel-core/src/handshake_v2.rs\<close>): configuration,
  the machine with its two states, the receive path up to the emitted M3, and the retransmission
  timer. The random draws of a call (key seeds, encapsulation, jitter) are arguments. An
  \<open>expect\<close> of the source is \<open>the\<close>; the lemmas show that its argument is present.
\<close>

section \<open>Configuration, events and state\<close>

record ClientConfig =
  ccf_version :: byte
  ccf_server_addr :: SocketAddr
  ccf_identity :: bytes
  ccf_server_identity :: bytes
  ccf_m1_retransmit_base :: duration
  ccf_m1_max_attempts :: u32
  ccf_m3_max_attempts :: u32

definition client_config_new :: "SocketAddr \<Rightarrow> bytes \<Rightarrow> bytes \<Rightarrow> ClientConfig" where
  "client_config_new server_addr identity server_identity =
     \<lparr>ccf_version = PROTOCOL_VERSION, ccf_server_addr = server_addr, ccf_identity = identity,
      ccf_server_identity = server_identity, ccf_m1_retransmit_base = from_millis 250,
      ccf_m1_max_attempts = 8, ccf_m3_max_attempts = 4\<rparr>"

datatype ClientEvent =
    ClientEmit "WirePacket list"
  | ClientM3Sent "WirePacket list" HandshakeOutcome
  | ClientNone

datatype ClientState =
    AwaitM2 FragmentAssembler u32 duration
  | M3Sent "WirePacket list" u32 duration HandshakeOutcome

record ClientHandshake =
  ch_cfg :: ClientConfig
  ch_session :: bytes
  ch_kp_mlkem :: MlKemKeypair
  ch_kp_x :: X25519Keypair
  ch_m1 :: ClientHello
  ch_m1_frags :: "WirePacket list"
  ch_state :: ClientState

section \<open>Operations\<close>

text \<open>The draws of \<open>ClientHandshake::new\<close>: the two key seeds and the jitter.\<close>

definition client_new ::
  "primitives \<Rightarrow> bytes \<Rightarrow> bytes \<Rightarrow> u64 option \<Rightarrow> ClientConfig \<Rightarrow> bytes \<Rightarrow> HandshakeV2Error + ClientHandshake" where
  "client_new P kem_seed x_seed jit cfg sid =
     (case validate_version (ccf_version cfg) of Inl e \<Rightarrow> Inl e
      | Inr _ \<Rightarrow> (case kem_generate P kem_seed of Inl e \<Rightarrow> Inl (HE_Crypto e)
      | Inr kp_mlkem \<Rightarrow>
          let kp_x = x25519_generate P x_seed;
              x_c = x_public kp_x;
              pre_sign = encode_m1 (ccf_version cfg) sid (kem_public kp_mlkem) x_c None;
              th1_d = the (th1_from_m1 P pre_sign)
          in (case dsa_sign P (ccf_identity cfg) th1_d of Inl e \<Rightarrow> Inl (HE_Crypto e)
              | Inr client_sig \<Rightarrow>
                  let m1 = \<lparr>ch_version = ccf_version cfg, ch_sid = sid, ch_eph_pk_c = kem_public kp_mlkem,
                            ch_x_c = x_c, ch_client_sig = client_sig\<rparr>
                  in (case fragment_message HS_TYPE_CLIENT_HELLO (ccf_version cfg) sid (client_hello_encode m1) of
                        Inl e \<Rightarrow> Inl (HE_Codec e)
                      | Inr m1_frags \<Rightarrow>
                          let assembler = the (assembler_new HS_TYPE_SERVER_HELLO)
                          in Inr \<lparr>ch_cfg = cfg, ch_session = sid, ch_kp_mlkem = kp_mlkem, ch_kp_x = kp_x,
                                  ch_m1 = m1, ch_m1_frags = m1_frags,
                                  ch_state = AwaitM2 assembler 0 (jittered jit (ccf_m1_retransmit_base cfg))\<rparr>))))"

fun m3_frags_of :: "ClientState \<Rightarrow> WirePacket list" where
  "m3_frags_of (M3Sent m3_frags _ _ _) = m3_frags"
| "m3_frags_of (AwaitM2 _ _ _) = []"

fun next_delay_of :: "ClientState \<Rightarrow> duration" where
  "next_delay_of (AwaitM2 _ _ next_delay) = next_delay"
| "next_delay_of (M3Sent _ _ next_delay _) = next_delay"

definition reset_m2_assembler :: "ClientHandshake \<Rightarrow> ClientHandshake" where
  "reset_m2_assembler h =
     (case ch_state h of
        AwaitM2 _ attempts next_delay \<Rightarrow>
          h\<lparr>ch_state := AwaitM2 (the (assembler_new HS_TYPE_SERVER_HELLO)) attempts next_delay\<rparr>
      | M3Sent _ _ _ _ \<Rightarrow> h)"

definition on_complete_m2 ::
  "primitives \<Rightarrow> bytes \<Rightarrow> u64 option \<Rightarrow> bytes \<Rightarrow> ClientHandshake \<Rightarrow>
   (HandshakeV2Error + ClientEvent) \<times> ClientHandshake" where
  "on_complete_m2 P rnd jit m2_bytes h =
     (let cfg = ch_cfg h; sid = ch_session h in
      case server_hello_decode P m2_bytes of Inl _ \<Rightarrow> (Inr ClientNone, reset_m2_assembler h)
      | Inr m2 \<Rightarrow>
        if sh_sid m2 \<noteq> sid \<or> sh_version m2 \<noteq> ccf_version cfg then (Inr ClientNone, reset_m2_assembler h)
        else
          let th2_d = the (th2_from_m1_m2 P (client_hello_encode (ch_m1 h)) m2_bytes) in
          (case dsa_verify P (ccf_server_identity cfg) th2_d (sh_server_sig m2) of Inl e \<Rightarrow> (Inl (HE_Crypto e), h)
           | Inr ok \<Rightarrow>
             if \<not> ok then (Inr ClientNone, reset_m2_assembler h)
             else
               (case decapsulate P (kem_secret (ch_kp_mlkem h)) (sh_ct2 m2) of Inl e \<Rightarrow> (Inl (HE_Crypto e), h)
                | Inr ss_a \<Rightarrow>
               (case encapsulate P (sh_eph_pk_s m2) rnd of Inl e \<Rightarrow> (Inl (HE_Crypto e), h)
                | Inr (ss_b, ct3) \<Rightarrow>
               (case diffie_hellman P (x_secret (ch_kp_x h)) (sh_x_s m2) of None \<Rightarrow> (Inr ClientNone, reset_m2_assembler h)
                | Some dh_cs \<Rightarrow>
                  let m3_z = encode_m3 (ccf_version cfg) sid ct3 None;
                      th3_d = the (th3_from_m1_m2_m3 P (client_hello_encode (ch_m1 h)) m2_bytes m3_z)
                  in
               (case derive_master P ss_a ss_b dh_cs (ccf_version cfg) sid th3_d of Inl e \<Rightarrow> (Inl e, h)
                | Inr master \<Rightarrow>
               (case derive_finished_key P master (ccf_version cfg) sid of Inl e \<Rightarrow> (Inl (HE_Crypto e), h)
                | Inr finished_key \<Rightarrow>
                  let finished = compute_client_finished P finished_key th3_d;
                      m3 = \<lparr>cc_version = ccf_version cfg, cc_sid = sid, cc_ct3 = ct3, cc_client_finished = finished\<rparr>
                  in
               (case fragment_message HS_TYPE_CLIENT_CONFIRM (ccf_version cfg) sid (client_confirm_encode m3) of
                  Inl e \<Rightarrow> (Inl (HE_Codec e), h)
                | Inr m3_frags \<Rightarrow>
                  let outcome = \<lparr>ho_master = master, ho_session_id = sid,
                        ho_peer_identity = ccf_server_identity cfg, ho_handshake_duration = 0\<rparr>
                  in (Inr (ClientM3Sent m3_frags outcome),
                      h\<lparr>ch_state := M3Sent m3_frags 0 (jittered jit (ccf_m1_retransmit_base cfg)) outcome\<rparr>)))))))))"

definition client_handle_datagram ::
  "primitives \<Rightarrow> bytes \<Rightarrow> u64 option \<Rightarrow> WirePacket \<Rightarrow> ClientHandshake \<Rightarrow>
   (HandshakeV2Error + ClientEvent) \<times> ClientHandshake" where
  "client_handle_datagram P rnd jit pkt h =
     (if as_bytes pkt ! (VERSION_LEN + SESSION_ID_LEN) \<noteq> HS_TYPE_SERVER_HELLO then (Inr ClientNone, h)
      else case from_datagram pkt of Inl _ \<Rightarrow> (Inr ClientNone, h)
      | Inr frag \<Rightarrow>
          if hf_sid frag \<noteq> ch_session h then (Inr ClientNone, h)
          else (case ch_state h of
              AwaitM2 assembler attempts next_delay \<Rightarrow>
                let (res, assembler1) = add_fragment frag assembler;
                    h1 = h\<lparr>ch_state := AwaitM2 assembler1 attempts next_delay\<rparr>
                in if res \<noteq> Completed then (Inr ClientNone, h1)
                   else on_complete_m2 P rnd jit (the (assembled_message assembler1)) h1
            | M3Sent _ _ _ _ \<Rightarrow> (Inr ClientNone, h)))"

definition client_on_timer :: "u64 option \<Rightarrow> ClientHandshake \<Rightarrow> (HandshakeV2Error + ClientEvent) \<times> ClientHandshake" where
  "client_on_timer jit h =
     (let cfg = ch_cfg h in
      case ch_state h of
        AwaitM2 assembler attempts next_delay \<Rightarrow>
          if attempts \<ge> ccf_m1_max_attempts cfg then (Inl HE_Timeout, h)
          else let attempts = attempts + 1 in
            (Inr (ClientEmit (ch_m1_frags h)),
             h\<lparr>ch_state := AwaitM2 assembler attempts (backoff_delay jit (ccf_m1_retransmit_base cfg) attempts)\<rparr>)
      | M3Sent m3_frags attempts next_delay outcome \<Rightarrow>
          if attempts \<ge> ccf_m3_max_attempts cfg then (Inl HE_Timeout, h)
          else let attempts = attempts + 1 in
            (Inr (ClientEmit m3_frags),
             h\<lparr>ch_state := M3Sent m3_frags attempts (backoff_delay jit (ccf_m1_retransmit_base cfg) attempts) outcome\<rparr>))"

section \<open>The accepted M2\<close>

text \<open>What an accepted M2 fixes: the messages, the secrets and the outcome the client keeps.\<close>

definition confirm_for :: "ClientHandshake \<Rightarrow> bytes \<Rightarrow> bytes \<Rightarrow> ClientConfirm" where
  "confirm_for h ct3 finished =
     \<lparr>cc_version = ccf_version (ch_cfg h), cc_sid = ch_session h, cc_ct3 = ct3, cc_client_finished = finished\<rparr>"

definition agreed ::
  "primitives \<Rightarrow> bytes \<Rightarrow> ClientHandshake \<Rightarrow> ServerHello \<Rightarrow> ClientConfirm \<Rightarrow> HandshakeOutcome \<Rightarrow> bool" where
  "agreed P rnd h m2 m3 out \<longleftrightarrow>
     server_hello_wf P m2 \<and> sh_sid m2 = ch_session h \<and> sh_version m2 = ccf_version (ch_cfg h) \<and>
     mldsa_verify P (ccf_server_identity (ch_cfg h))
       (the (th2_from_m1_m2 P (client_hello_encode (ch_m1 h)) (server_hello_encode m2))) (sh_server_sig m2) \<and>
     (\<exists>dh th3 fk. diffie_hellman P (x_secret (ch_kp_x h)) (sh_x_s m2) = Some dh \<and>
        th3 = the (th3_from_m1_m2_m3 P (client_hello_encode (ch_m1 h)) (server_hello_encode m2) (pre_m3 m3)) \<and>
        derive_master P (mlkem_decaps P (kem_secret (ch_kp_mlkem h)) (sh_ct2 m2)) (snd (mlkem_encaps P (sh_eph_pk_s m2) rnd))
          dh (ccf_version (ch_cfg h)) (ch_session h) th3 = Inr (ho_master out) \<and>
        derive_finished_key P (ho_master out) (ccf_version (ch_cfg h)) (ch_session h) = Inr fk \<and>
        m3 = confirm_for h (fst (mlkem_encaps P (sh_eph_pk_s m2) rnd)) (compute_client_finished P fk th3)) \<and>
     ho_session_id out = ch_session h \<and> ho_peer_identity out = ccf_server_identity (ch_cfg h)"

lemma server_hello_decode_exact:
  assumes "server_hello_decode P bs = Inr m2"
  shows "server_hello_wf P m2" "bs = server_hello_encode m2"
proof -
  have "length bs = M2_BODY_LEN" using assms by (auto simp: server_hello_decode_def split: if_splits)
  then show "server_hello_wf P m2" "bs = server_hello_encode m2"
    using m2.dec_exact [OF assms] m2.dec_sound [OF assms] by blast+
qed

lemma on_complete_m2_cases:
  obtains (failed) e where "on_complete_m2 P rnd jit m2_bytes h = (Inl e, h)"
  | (dropped) "on_complete_m2 P rnd jit m2_bytes h = (Inr ClientNone, reset_m2_assembler h)"
  | (accepted) m2 m3 frags out where "agreed P rnd h m2 m3 out" "m2_bytes = server_hello_encode m2"
      "fragment_message HS_TYPE_CLIENT_CONFIRM (ccf_version (ch_cfg h)) (ch_session h) (client_confirm_encode m3) = Inr frags"
      "on_complete_m2 P rnd jit m2_bytes h = (Inr (ClientM3Sent frags out),
         h\<lparr>ch_state := M3Sent frags 0 (jittered jit (ccf_m1_retransmit_base (ch_cfg h))) out\<rparr>)"
proof (cases "server_hello_decode P m2_bytes")
  case (Inl e)
  then show thesis using dropped by (simp add: on_complete_m2_def)
next
  case m2: (Inr m2)
  note ex = server_hello_decode_exact [OF m2]
  let ?cfg = "ch_cfg h" and ?m1 = "client_hello_encode (ch_m1 h)"
  let ?th2 = "the (th2_from_m1_m2 P ?m1 m2_bytes)"
  obtain ct3 ss_b where en: "mlkem_encaps P (sh_eph_pk_s m2) rnd = (ct3, ss_b)" by fastforce
  show thesis
  proof (cases "sh_sid m2 = ch_session h \<and> sh_version m2 = ccf_version ?cfg \<and>
      mldsa_verify P (ccf_server_identity ?cfg) ?th2 (sh_server_sig m2) \<and>
      diffie_hellman P (x_secret (ch_kp_x h)) (sh_x_s m2) \<noteq> None")
    case False
    then have "on_complete_m2 P rnd jit m2_bytes h = (Inr ClientNone, reset_m2_assembler h)"
      using m2 en by (auto simp: on_complete_m2_def Let_def dsa_verify_def decapsulate_def encapsulate_def)
    then show thesis by (rule dropped)
  next
    case True
    then obtain dh where dh: "diffie_hellman P (x_secret (ch_kp_x h)) (sh_x_s m2) = Some dh" by auto
    define th3 where "th3 = the (th3_from_m1_m2_m3 P ?m1 m2_bytes (encode_m3 (ccf_version ?cfg) (ch_session h) ct3 None))"
    let ?dm = "derive_master P (mlkem_decaps P (kem_secret (ch_kp_mlkem h)) (sh_ct2 m2)) ss_b dh (ccf_version ?cfg) (ch_session h) th3"
    note unf = on_complete_m2_def Let_def dsa_verify_def decapsulate_def encapsulate_def th3_def [symmetric]
    show thesis
    proof (cases ?dm)
      case (Inl e)
      then have "on_complete_m2 P rnd jit m2_bytes h = (Inl e, h)" using m2 True dh en by (simp add: unf)
      then show thesis by (rule failed)
    next
      case dm: (Inr master)
      show thesis
      proof (cases "derive_finished_key P master (ccf_version ?cfg) (ch_session h)")
        case (Inl e)
        then have "on_complete_m2 P rnd jit m2_bytes h = (Inl (HE_Crypto e), h)" using m2 True dh en dm by (simp add: unf)
        then show thesis by (rule failed)
      next
        case fk: (Inr fk)
        define m3 where "m3 = confirm_for h ct3 (compute_client_finished P fk th3)"
        define out where "out = \<lparr>ho_master = master, ho_session_id = ch_session h,
          ho_peer_identity = ccf_server_identity ?cfg, ho_handshake_duration = 0\<rparr>"
        have "agreed P rnd h m2 m3 out"
          using True ex dh dm fk en unfolding agreed_def
          by (simp add: out_def m3_def confirm_for_def pre_m3_def th3_def)
        moreover have "(\<exists>e. on_complete_m2 P rnd jit m2_bytes h = (Inl e, h)) \<or>
           (\<exists>frags. fragment_message HS_TYPE_CLIENT_CONFIRM (ccf_version ?cfg) (ch_session h) (client_confirm_encode m3) = Inr frags \<and>
             on_complete_m2 P rnd jit m2_bytes h = (Inr (ClientM3Sent frags out),
               h\<lparr>ch_state := M3Sent frags 0 (jittered jit (ccf_m1_retransmit_base ?cfg)) out\<rparr>))"
          using m2 True dh en dm fk
          by (simp add: unf out_def m3_def confirm_for_def split: sum.splits)
        ultimately show thesis using failed accepted [OF _ ex(2)] by blast
      qed
    qed
  qed
qed

section \<open>The client as a step system\<close>

datatype client_input = ClientDatagram bytes "u64 option" WirePacket | ClientTimer "u64 option"

fun client_step :: "primitives \<Rightarrow> client_input \<Rightarrow> ClientHandshake \<Rightarrow> (HandshakeV2Error + ClientEvent) \<times> ClientHandshake" where
  "client_step P (ClientDatagram rnd jit pkt) h = client_handle_datagram P rnd jit pkt h"
| "client_step P (ClientTimer jit) h = client_on_timer jit h"

text \<open>The steps as transitions of the state: everything but \<open>ch_state\<close> is fixed at creation.\<close>

inductive client_moves :: "primitives \<Rightarrow> ClientHandshake \<Rightarrow> ClientState \<Rightarrow> HandshakeV2Error + ClientEvent \<Rightarrow> ClientState \<Rightarrow> bool"
  for P h where
  stay: "(\<And>ps. r \<noteq> Inr (ClientEmit ps)) \<Longrightarrow> (\<And>ps out. r \<noteq> Inr (ClientM3Sent ps out)) \<Longrightarrow> client_moves P h st r st"
| assemble: "assembler_inv a \<Longrightarrow> fa_hs_type a = HS_TYPE_SERVER_HELLO \<Longrightarrow> (\<And>ps. r \<noteq> Inr (ClientEmit ps)) \<Longrightarrow>
    (\<And>ps out. r \<noteq> Inr (ClientM3Sent ps out)) \<Longrightarrow> client_moves P h (AwaitM2 a0 n d) r (AwaitM2 a n d)"
| retry1: "n < ccf_m1_max_attempts (ch_cfg h) \<Longrightarrow>
    client_moves P h (AwaitM2 a n d) (Inr (ClientEmit (ch_m1_frags h))) (AwaitM2 a (n + 1) d1)"
| retry3: "n < ccf_m3_max_attempts (ch_cfg h) \<Longrightarrow>
    client_moves P h (M3Sent ps n d out) (Inr (ClientEmit ps)) (M3Sent ps (n + 1) d1 out)"
| accept: "agreed P rnd h m2 m3 out \<Longrightarrow>
    fragment_message HS_TYPE_CLIENT_CONFIRM (ccf_version (ch_cfg h)) (ch_session h) (client_confirm_encode m3) = Inr ps \<Longrightarrow>
    client_moves P h (AwaitM2 a n d) (Inr (ClientM3Sent ps out)) (M3Sent ps 0 d1 out)"

inductive_cases client_movesE: "client_moves P h st r st1"
inductive_cases client_moves_acceptE: "client_moves P h st (Inr (ClientM3Sent ps out)) st1"
inductive_cases client_moves_emitE: "client_moves P h st (Inr (ClientEmit ps)) st1"

definition client_state_ok :: "primitives \<Rightarrow> ClientHandshake \<Rightarrow> ClientState \<Rightarrow> bool" where
  "client_state_ok P h st \<longleftrightarrow>
     (case st of
        AwaitM2 a n d \<Rightarrow> assembler_inv a \<and> fa_hs_type a = HS_TYPE_SERVER_HELLO \<and> n \<le> ccf_m1_max_attempts (ch_cfg h)
      | M3Sent ps n d out \<Rightarrow> n \<le> ccf_m3_max_attempts (ch_cfg h))"

definition client_inv :: "primitives \<Rightarrow> ClientHandshake \<Rightarrow> bool" where
  "client_inv P h \<longleftrightarrow> client_state_ok P h (ch_state h)"

lemma agreed_frame [simp]: "agreed P rnd (h\<lparr>ch_state := st\<rparr>) = agreed P rnd h"
  by (simp add: agreed_def confirm_for_def fun_eq_iff)

lemma m2_assembler:
  obtains a where "assembler_new HS_TYPE_SERVER_HELLO = Some a" "assembler_inv a" "fa_hs_type a = HS_TYPE_SERVER_HELLO"
proof -
  have "assembler_new HS_TYPE_SERVER_HELLO \<noteq> None"
    by (simp add: assembler_new_def expected_frag_count_def message_body_len_def hs_types)
  then show thesis using that assembler_new_inv by fast
qed

lemma client_step_moves:
  assumes "client_inv P h" "client_step P i h = (r, h1)"
  shows "client_moves P h (ch_state h) r (ch_state h1) \<and> h1 = h\<lparr>ch_state := ch_state h1\<rparr>"
proof (cases i)
  case (ClientTimer jit)
  then show ?thesis
    using assms(2)
    by (auto simp: client_on_timer_def Let_def not_le split: ClientState.splits if_splits intro: client_moves.intros)
next
  case dg: (ClientDatagram rnd jit pkt)
  show ?thesis
  proof (cases "\<exists>frag a n d. from_datagram pkt = Inr frag \<and> ch_state h = AwaitM2 a n d \<and>
      as_bytes pkt ! (VERSION_LEN + SESSION_ID_LEN) = HS_TYPE_SERVER_HELLO \<and> hf_sid frag = ch_session h")
    case False
    then have "r = Inr ClientNone \<and> h1 = h"
      using assms(2) dg by (auto simp: client_handle_datagram_def split: sum.splits ClientState.splits if_splits)
    then show ?thesis by (auto intro: client_moves.stay)
  next
    case True
    then obtain frag a n d where f: "from_datagram pkt = Inr frag" "ch_state h = AwaitM2 a n d"
      "as_bytes pkt ! (VERSION_LEN + SESSION_ID_LEN) = HS_TYPE_SERVER_HELLO" "hf_sid frag = ch_session h" by blast
    obtain res a1 where add: "add_fragment frag a = (res, a1)" by fastforce
    have a1: "assembler_inv a1" "fa_hs_type a1 = HS_TYPE_SERVER_HELLO"
      using assms(1) add_fragment_inv [of a frag] f(2) add
      by (auto simp: client_inv_def client_state_ok_def add_fragment_def Let_def split: if_splits)
    let ?h = "h\<lparr>ch_state := AwaitM2 a1 n d\<rparr>"
    have eq: "(r, h1) = (if res \<noteq> Completed then (Inr ClientNone, ?h)
        else on_complete_m2 P rnd jit (the (assembled_message a1)) ?h)"
      using assms(2) dg f add by (auto simp: client_handle_datagram_def Let_def)
    show ?thesis
    proof (cases "res = Completed")
      case False
      then show ?thesis using eq f(2) a1 by (auto intro: client_moves.assemble)
    next
      case True
      obtain a2 where a2: "assembler_new HS_TYPE_SERVER_HELLO = Some a2" "assembler_inv a2" "fa_hs_type a2 = HS_TYPE_SERVER_HELLO"
        by (rule m2_assembler)
      show ?thesis
      proof (cases rule: on_complete_m2_cases [of P rnd jit "the (assembled_message a1)" ?h])
        case (failed e)
        then show ?thesis using eq True f(2) a1 by (auto intro: client_moves.assemble)
      next
        case dropped
        then show ?thesis using eq True f(2) a2 by (auto simp: reset_m2_assembler_def intro: client_moves.assemble)
      next
        case (accepted m2 m3 frags out)
        then show ?thesis using eq True f(2) client_moves.accept [of P rnd h m2 m3 out frags] by simp
      qed
    qed
  qed
qed

lemma moves_state_ok:
  assumes "client_moves P h st r st1" "client_state_ok P h st"
  shows "client_state_ok P h st1"
  using assms by (cases rule: client_moves.cases) (auto simp: client_state_ok_def inc_le)

lemma client_state_ok_frame [simp]: "client_state_ok P (h\<lparr>ch_state := st\<rparr>) = client_state_ok P h"
  by (simp add: client_state_ok_def fun_eq_iff split: ClientState.splits)

lemma client_step_inv: "client_inv P h \<Longrightarrow> client_inv P (snd (client_step P i h))"
proof -
  assume inv: "client_inv P h"
  obtain r h1 where s: "client_step P i h = (r, h1)" by fastforce
  note m = client_step_moves [OF inv s]
  have "client_state_ok P h (ch_state h1)"
    using moves_state_ok [of P h "ch_state h" r "ch_state h1"] m inv by (simp add: client_inv_def)
  then have "client_inv P (h\<lparr>ch_state := ch_state h1\<rparr>)" by (simp add: client_inv_def)
  then show ?thesis using m s by simp
qed

interpretation client: step_system "client_step P" "client_inv P" for P
  by unfold_locales (rule client_step_inv)

lemma client_new_inv: "client_new P ks xs jit cfg sid = Inr h \<Longrightarrow> client_inv P h"
proof -
  assume "client_new P ks xs jit cfg sid = Inr h"
  then obtain d where st: "ch_state h = AwaitM2 (the (assembler_new HS_TYPE_SERVER_HELLO)) 0 d"
    by (auto simp: client_new_def Let_def split: sum.splits)
  obtain a where "assembler_new HS_TYPE_SERVER_HELLO = Some a" "assembler_inv a" "fa_hs_type a = HS_TYPE_SERVER_HELLO"
    by (rule m2_assembler)
  then show ?thesis using st by (simp add: client_inv_def client_state_ok_def)
qed

lemma client_run_fixed: "client_inv P h \<Longrightarrow> \<exists>st. snd (run (client_step P) is h) = h\<lparr>ch_state := st\<rparr>"
proof (induction "is" arbitrary: h)
  case Nil
  show ?case by (rule exI [of _ "ch_state h"]) simp
next
  case (Cons i "is")
  obtain r h1 where s: "client_step P i h = (r, h1)" by fastforce
  have h1: "h1 = h\<lparr>ch_state := ch_state h1\<rparr>" using client_step_moves [OF Cons.prems s] by blast
  have "client_inv P h1" using client_step_inv [OF Cons.prems, of i] s by simp
  then obtain st where "snd (run (client_step P) is h1) = h1\<lparr>ch_state := st\<rparr>" using Cons.IH by blast
  also have "h1\<lparr>ch_state := st\<rparr> = h\<lparr>ch_state := st\<rparr>" by (subst h1) simp
  finally show ?case using s by auto
qed

fun is_m3_sent :: "ClientState \<Rightarrow> bool" where
  "is_m3_sent (M3Sent _ _ _ _) = True"
| "is_m3_sent (AwaitM2 _ _ _) = False"

lemma m3_sent_final:
  assumes "client_inv P h" "is_m3_sent (ch_state h)"
  shows "Inr (ClientM3Sent ps out) \<notin> set (fst (run (client_step P) is h))"
  using assms
proof (induction "is" arbitrary: h)
  case (Cons i "is")
  obtain r h1 where s: "client_step P i h = (r, h1)" by fastforce
  note m = client_step_moves [OF Cons.prems(1) s, THEN conjunct1]
  have "is_m3_sent (ch_state h1) \<and> r \<noteq> Inr (ClientM3Sent ps out)"
    using m Cons.prems(2) by (cases rule: client_moves.cases) auto
  then show ?case using Cons.IH [of h1] client_step_inv [OF Cons.prems(1), of i] s by auto
qed simp

section \<open>Retransmission budget\<close>

fun is_emit :: "HandshakeV2Error + ClientEvent \<Rightarrow> bool" where
  "is_emit (Inr (ClientEmit _)) = True"
| "is_emit _ = False"

definition retries_left :: "ClientHandshake \<Rightarrow> nat" where
  "retries_left h =
     (case ch_state h of
        AwaitM2 a n d \<Rightarrow> (unat (ccf_m1_max_attempts (ch_cfg h)) - unat n) + unat (ccf_m3_max_attempts (ch_cfg h))
      | M3Sent ps n d out \<Rightarrow> unat (ccf_m3_max_attempts (ch_cfg h)) - unat n)"

lemma attempt_left: "n < m \<Longrightarrow> Suc (unat m - unat (n + 1)) = unat m - unat (n :: u32)"
proof -
  assume lt: "n < m"
  have "1 + n \<noteq> 0"
  proof
    assume "1 + n = 0"
    then have "n = - 1" by (simp add: eq_neg_iff_add_eq_0 add.commute)
    then show False using lt by simp
  qed
  then have "unat (1 + n) = Suc (unat n)" by (rule unatSuc)
  moreover have "unat n < unat m" using lt by (simp add: word_less_nat_alt)
  ultimately show ?thesis by (simp add: add.commute)
qed

lemma retries_step:
  assumes "client_inv P h" "client_step P i h = (r, h1)"
  shows "(if is_emit r then 1 else 0) + retries_left h1 \<le> retries_left h"
proof -
  note m = client_step_moves [OF assms]
  have c: "ch_cfg h1 = ch_cfg h" using m by (metis ClientHandshake.select_convs(1) ClientHandshake.surjective ClientHandshake.update_convs(7))
  from m [THEN conjunct1] show ?thesis
  proof (cases rule: client_moves.cases)
    case stay
    then have "\<not> is_emit r" by (cases r rule: is_emit.cases) auto
    then show ?thesis using stay(1) unfolding retries_left_def c by simp
  next
    case (assemble a a0 n d)
    then have "\<not> is_emit r" by (cases r rule: is_emit.cases) auto
    then show ?thesis using assemble c by (simp add: retries_left_def)
  next
    case (retry1 n a d d1)
    then show ?thesis using attempt_left [OF retry1(4)] c by (simp add: retries_left_def)
  next
    case (retry3 n ps d out d1)
    then show ?thesis using attempt_left [OF retry3(4)] c by (simp add: retries_left_def)
  next
    case (accept rnd m2 m3 out ps a n d d1)
    then show ?thesis using c by (simp add: retries_left_def)
  qed
qed

lemma retries_run:
  "client_inv P h \<Longrightarrow> length (filter is_emit (fst (run (client_step P) is h))) +
     retries_left (snd (run (client_step P) is h)) \<le> retries_left h"
proof (induction "is" arbitrary: h)
  case (Cons i "is")
  obtain r h1 where s: "client_step P i h = (r, h1)" by fastforce
  have "client_inv P h1" using client_step_inv [OF Cons.prems, of i] s by simp
  from Cons.IH [OF this] retries_step [OF Cons.prems s] show ?case using s by (simp split: if_splits)
qed simp

lemma emits_known:
  "client_inv P h \<Longrightarrow> Inr (ClientEmit ps) \<in> set (fst (run (client_step P) is h)) \<Longrightarrow>
   ps = ch_m1_frags h \<or> (is_m3_sent (ch_state h) \<and> ps = m3_frags_of (ch_state h)) \<or>
   (\<exists>out. Inr (ClientM3Sent ps out) \<in> set (fst (run (client_step P) is h)))"
proof (induction "is" arbitrary: h)
  case (Cons i "is")
  obtain r h1 where s: "client_step P i h = (r, h1)" by fastforce
  note m = client_step_moves [OF Cons.prems(1) s]
  have inv1: "client_inv P h1" using client_step_inv [OF Cons.prems(1), of i] s by simp
  have fr: "ch_m1_frags h1 = ch_m1_frags h"
    using m by (metis ClientHandshake.select_convs(6) ClientHandshake.surjective ClientHandshake.update_convs(7))
  have keep: "(is_m3_sent (ch_state h) \<and> m3_frags_of (ch_state h1) = m3_frags_of (ch_state h)) \<or>
      (\<exists>out. r = Inr (ClientM3Sent (m3_frags_of (ch_state h1)) out))" if "is_m3_sent (ch_state h1)"
    using m [THEN conjunct1] that by (cases rule: client_moves.cases) auto
  show ?case
  proof (cases "r = Inr (ClientEmit ps)")
    case True
    show ?thesis using m [THEN conjunct1] True by (cases rule: client_moves.cases) auto
  next
    case False
    then have "Inr (ClientEmit ps) \<in> set (fst (run (client_step P) is h1))" using Cons.prems(2) s by auto
    from Cons.IH [OF inv1 this] keep fr show ?thesis using s by fastforce
  qed
qed simp

section \<open>Creation\<close>

text \<open>The datagrams of a handshake message.\<close>

definition hs_packet :: "byte \<Rightarrow> bytes \<Rightarrow> bytes \<Rightarrow> byte \<Rightarrow> nat \<Rightarrow> WirePacket" where
  "hs_packet t sid msg n i = WirePacket (hs_datagram t PROTOCOL_VERSION sid msg n i)"

lemma hs_shape_m1: "length msg = M1_BODY_LEN \<Longrightarrow> hs_shape HS_TYPE_CLIENT_HELLO M1_FRAG_COUNT msg"
  by (simp add: hs_shape_def expected_frag_count_def message_body_len_def)

lemma hs_shape_m2: "length msg = M2_BODY_LEN \<Longrightarrow> hs_shape HS_TYPE_SERVER_HELLO M2_FRAG_COUNT msg"
  by (simp add: hs_shape_def expected_frag_count_def message_body_len_def hs_types)

lemma hs_shape_m3: "length msg = M3_BODY_LEN \<Longrightarrow> hs_shape HS_TYPE_CLIENT_CONFIRM M3_FRAG_COUNT msg"
  by (simp add: hs_shape_def expected_frag_count_def message_body_len_def hs_types)

text \<open>The ClientHello a client signs.\<close>

definition hello_of :: "primitives \<Rightarrow> ClientConfig \<Rightarrow> bytes \<Rightarrow> bytes \<Rightarrow> bytes \<Rightarrow> ClientHello" where
  "hello_of P cfg sid ks xs =
     \<lparr>ch_version = ccf_version cfg, ch_sid = sid, ch_eph_pk_c = mlkem_ek_of P ks, ch_x_c = x25519_pk_of P xs,
      ch_client_sig = mldsa_sign P (ccf_identity cfg)
        (the (th1_from_m1 P (encode_m1 (ccf_version cfg) sid (mlkem_ek_of P ks) (x25519_pk_of P xs) None)))\<rparr>"

definition client_ready :: "primitives \<Rightarrow> ClientConfig \<Rightarrow> bytes \<Rightarrow> bytes \<Rightarrow> bytes \<Rightarrow> bool" where
  "client_ready P cfg sid ks xs \<longleftrightarrow> kem_correct P \<and> dsa_correct P \<and> x25519_correct P \<and>
     ccf_version cfg = PROTOCOL_VERSION \<and> length (ccf_identity cfg) = 32 \<and> length sid = 8 \<and>
     length ks = 64 \<and> length xs = 32"

lemma kem_correctD:
  assumes "kem_correct P" "length dk = 64" "length rnd = 32"
  shows "length (mlkem_ek_of P dk) = 1184" "mlkem_ek_ok P (mlkem_ek_of P dk)"
    "length (fst (mlkem_encaps P (mlkem_ek_of P dk) rnd)) = 1088"
    "mlkem_decaps P dk (fst (mlkem_encaps P (mlkem_ek_of P dk) rnd)) = snd (mlkem_encaps P (mlkem_ek_of P dk) rnd)"
proof -
  obtain ct ss where "length (mlkem_ek_of P dk) = 1184" "mlkem_ek_ok P (mlkem_ek_of P dk)"
    "mlkem_encaps P (mlkem_ek_of P dk) rnd = (ct, ss)" "length ct = 1088" "mlkem_decaps P dk ct = ss"
    using assms unfolding kem_correct_def by blast
  then show "length (mlkem_ek_of P dk) = 1184" "mlkem_ek_ok P (mlkem_ek_of P dk)"
    "length (fst (mlkem_encaps P (mlkem_ek_of P dk) rnd)) = 1088"
    "mlkem_decaps P dk (fst (mlkem_encaps P (mlkem_ek_of P dk) rnd)) = snd (mlkem_encaps P (mlkem_ek_of P dk) rnd)"
    by simp_all
qed

lemma hello_of_wf:
  assumes "client_ready P cfg sid ks xs"
  shows "client_hello_wf P (hello_of P cfg sid ks xs)"
    "mldsa_verify P (mldsa_vk_of P (ccf_identity cfg)) (the (th1_from_m1 P (client_hello_encode (hello_of P cfg sid ks xs))))
       (ch_client_sig (hello_of P cfg sid ks xs))"
proof -
  note R = assms [unfolded client_ready_def]
  have k: "length (mlkem_ek_of P ks) = 1184" "mlkem_ek_ok P (mlkem_ek_of P ks)"
    using kem_correctD [of P ks "replicate 32 0"] R by simp_all
  have x: "length (x25519_pk_of P xs) = 32" using R unfolding x25519_correct_def by blast
  have d: "length (mldsa_sign P (ccf_identity cfg) msg) = 3309" "mldsa_sig_ok P (mldsa_sign P (ccf_identity cfg) msg)"
    "mldsa_verify P (mldsa_vk_of P (ccf_identity cfg)) msg (mldsa_sign P (ccf_identity cfg) msg)" for msg
    using R unfolding dsa_correct_def by blast+
  show wf: "client_hello_wf P (hello_of P cfg sid ks xs)"
    using R k x d by (simp add: client_hello_wf_def hello_of_def layout_simps)
  show "mldsa_verify P (mldsa_vk_of P (ccf_identity cfg)) (the (th1_from_m1 P (client_hello_encode (hello_of P cfg sid ks xs))))
       (ch_client_sig (hello_of P cfg sid ks xs))"
    using th1_eq [OF wf] d(3) by (simp add: hello_of_def pre_m1_def)
qed

lemma client_new_ok:
  assumes "client_ready P cfg sid ks xs"
  obtains a d where "client_new P ks xs jit cfg sid = Inr
    \<lparr>ch_cfg = cfg, ch_session = sid, ch_kp_mlkem = \<lparr>kem_public = mlkem_ek_of P ks, kem_secret = ks\<rparr>,
     ch_kp_x = \<lparr>x_public = x25519_pk_of P xs, x_secret = xs\<rparr>, ch_m1 = hello_of P cfg sid ks xs,
     ch_m1_frags = map (hs_packet HS_TYPE_CLIENT_HELLO sid (client_hello_encode (hello_of P cfg sid ks xs)) M1_FRAG_COUNT)
       [0..<unat M1_FRAG_COUNT],
     ch_state = AwaitM2 a 0 d\<rparr>" "assembler_new HS_TYPE_SERVER_HELLO = Some a"
proof -
  let ?m = "hello_of P cfg sid ks xs"
  obtain a where a: "assembler_new HS_TYPE_SERVER_HELLO = Some a" by (rule m2_assembler)
  have v: "ccf_version cfg = PROTOCOL_VERSION" using assms by (simp add: client_ready_def)
  have sh: "hs_shape HS_TYPE_CLIENT_HELLO M1_FRAG_COUNT (client_hello_encode ?m)"
    by (rule hs_shape_m1 [OF client_hello_length [OF hello_of_wf(1) [OF assms]]])
  have fr: "fragment_message HS_TYPE_CLIENT_HELLO PROTOCOL_VERSION sid (client_hello_encode ?m) =
      Inr (map (hs_packet HS_TYPE_CLIENT_HELLO sid (client_hello_encode ?m) M1_FRAG_COUNT) [0..<unat M1_FRAG_COUNT])"
    using fragment_message_ok [OF sh] by (simp add: hs_packet_def)
  have m: "\<lparr>ch_version = PROTOCOL_VERSION, ch_sid = sid, ch_eph_pk_c = mlkem_ek_of P ks, ch_x_c = x25519_pk_of P xs,
      ch_client_sig = mldsa_sign P (ccf_identity cfg)
        (the (th1_from_m1 P (encode_m1 PROTOCOL_VERSION sid (mlkem_ek_of P ks) (x25519_pk_of P xs) None)))\<rparr> = ?m"
    using v by (simp add: hello_of_def)
  show thesis
    using that [OF _ a] fr a
    by (simp add: client_new_def validate_version_def v kem_generate_def x25519_generate_def dsa_sign_def Let_def m)
qed

text \<open>A concrete client.\<close>

definition demo_client_cfg :: ClientConfig where
  "demo_client_cfg = client_config_new (SocketAddrV4 [10, 0, 0, 1] 4433) (replicate 32 3) (mldsa_vk_of demo (replicate 32 4))"

lemma demo_client_ready: "client_ready demo demo_client_cfg (replicate 8 5) (replicate 64 1) (replicate 32 2)"
  using demo_correct by (simp add: client_ready_def demo_client_cfg_def client_config_new_def)

section \<open>Properties\<close>

text \<open>C34: under any sequence of datagrams and timers a client emits at most \<open>m1_max_attempts\<close> plus
  \<open>m3_max_attempts\<close> retransmissions, and every one is byte for byte the M1 flight it was created with
  or an M3 flight it already sent.\<close>

theorem client_retransmissions_bounded:
  fixes "is" :: "client_input list"
  assumes "client_new P ks xs jit cfg sid = Inr h0"
  defines "outs \<equiv> fst (run (client_step P) is h0)"
  shows "length (filter is_emit outs) \<le> unat (ccf_m1_max_attempts cfg) + unat (ccf_m3_max_attempts cfg) \<and>
    (\<forall>ps. Inr (ClientEmit ps) \<in> set outs \<longrightarrow>
       ps = ch_m1_frags h0 \<or> (\<exists>out. Inr (ClientM3Sent ps out) \<in> set outs))"
proof -
  have inv: "client_inv P h0" by (rule client_new_inv [OF assms(1)])
  obtain a d where st: "ch_state h0 = AwaitM2 a 0 d" and c: "ch_cfg h0 = cfg"
    using assms(1) by (auto simp: client_new_def Let_def split: sum.splits)
  have "retries_left h0 = unat (ccf_m1_max_attempts cfg) + unat (ccf_m3_max_attempts cfg)"
    using st c by (simp add: retries_left_def)
  then show ?thesis
    using retries_run [OF inv, of "is"] emits_known [OF inv, of _ "is"] st unfolding outs_def by auto
qed

theorem client_retransmissions_bounded_witness:
  "\<exists>h0. client_new demo (replicate 64 1) (replicate 32 2) None demo_client_cfg (replicate 8 5) = Inr h0 \<and>
     length (filter is_emit (fst (run (client_step demo) (replicate 20 (ClientTimer None)) h0))) \<le> 12"
proof -
  obtain h0 where h0: "client_new demo (replicate 64 1) (replicate 32 2) None demo_client_cfg (replicate 8 5) = Inr h0"
    using client_new_ok [OF demo_client_ready] by metis
  show ?thesis
    using h0 client_retransmissions_bounded [OF h0, of "replicate 20 (ClientTimer None)"]
    by (simp add: demo_client_cfg_def client_config_new_def)
qed

lemma timers_await:
  assumes "ch_state h = AwaitM2 a n d" "n \<le> ccf_m1_max_attempts (ch_cfg h)"
  shows "fst (run (client_step P) (map ClientTimer jits) h) =
    map (\<lambda>i. if i < unat (ccf_m1_max_attempts (ch_cfg h)) - unat n then Inr (ClientEmit (ch_m1_frags h)) else Inl HE_Timeout)
      [0..<length jits]"
  using assms
proof (induction jits arbitrary: h n d)
  case Nil
  then show ?case by simp
next
  case (Cons jit jits)
  let ?max = "ccf_m1_max_attempts (ch_cfg h)"
  have up: "[0..<length (jit # jits)] = 0 # map Suc [0..<length jits]"
    by (simp add: upt_conv_Cons map_Suc_upt del: upt_Suc)
  show ?case
  proof (cases "n < ?max")
    case True
    have le: "n + 1 \<le> ?max" by (rule inc_le [OF True])
    show ?thesis
      unfolding up list.map run_Cons fst_conv
      using Cons.IH [of "snd (client_step P (ClientTimer jit) h)" "n + 1"] True le Cons.prems attempt_left [OF True]
      by (auto simp: client_on_timer_def Let_def not_le comp_def)
  next
    case False
    then have e: "n = ?max" using Cons.prems(2) by simp
    show ?thesis
      unfolding up list.map run_Cons fst_conv
      using Cons.IH [of h n] Cons.prems e by (simp add: client_on_timer_def comp_def)
  qed
qed

text \<open>C35: with no reply the client gives up: exactly the first \<open>m1_max_attempts\<close> timers resend the M1
  flight, and every later one reports the timeout.\<close>

theorem client_times_out:
  assumes "client_new P ks xs jit cfg sid = Inr h0"
  shows "fst (run (client_step P) (map ClientTimer jits) h0) =
    map (\<lambda>i. if i < unat (ccf_m1_max_attempts cfg) then Inr (ClientEmit (ch_m1_frags h0)) else Inl HE_Timeout)
      [0..<length jits]"
proof -
  obtain a d where st: "ch_state h0 = AwaitM2 a 0 d" and c: "ch_cfg h0 = cfg"
    using assms(1) by (auto simp: client_new_def Let_def split: sum.splits)
  show ?thesis using timers_await [OF st, where P = P and jits = jits] c by simp
qed

theorem client_times_out_witness:
  "\<exists>h0. client_new demo (replicate 64 1) (replicate 32 2) None demo_client_cfg (replicate 8 5) = Inr h0 \<and>
     fst (run (client_step demo) (map ClientTimer (replicate 9 None)) h0) =
       replicate 8 (Inr (ClientEmit (ch_m1_frags h0))) @ [Inl HE_Timeout]"
proof -
  obtain h0 where h0: "client_new demo (replicate 64 1) (replicate 32 2) None demo_client_cfg (replicate 8 5) = Inr h0"
    using client_new_ok [OF demo_client_ready] by metis
  have m: "unat (ccf_m1_max_attempts demo_client_cfg) = 8" by (simp add: demo_client_cfg_def client_config_new_def)
  have "[0..<length (replicate 9 (None :: u64 option))] = [0, 1, 2, 3, 4, 5, 6, 7, 8]" by (simp add: upt_rec)
  moreover have "replicate 8 x @ [y] = [x, x, x, x, x, x, x, x, y]" for x y :: "HandshakeV2Error + ClientEvent"
    by (simp add: numeral_eq_Suc)
  ultimately show ?thesis
    using h0 client_times_out [OF h0, of "replicate 9 None"] by (simp add: m)
qed

end
