(* ===== verification/Fifo_Table.thy ===== *)
theory Fifo_Table
  imports Prelude
begin

text \<open>
  The contract shared by the two per-source budget tables of the source, the handshake rate table
  (\<open>handshake_v2.rs\<close>) and the data-path failure gate (\<open>session_manager.rs\<close>): a hash map kept in
  lockstep with a queue of its keys in insertion order, so that the eviction victim at the cap is
  the front of the queue. The eviction loop is the operation of the interface.
\<close>

text \<open>The invariant both comments in the source state: the queue holds exactly the keys, each once.\<close>

definition synced :: "('k, 'v) table \<Rightarrow> 'k list \<Rightarrow> bool" where
  "synced buckets order \<longleftrightarrow> table_ok buckets \<and> distinct order \<and> (\<forall>k. k \<in> set order \<longleftrightarrow> contains_key k buckets)"

lemma synced_Nil [simp]: "synced [] []"
  by (simp add: synced_def contains_key_def)

lemma synced_length:
  assumes "synced buckets order"
  shows "length order = length buckets"
proof -
  have "set order = set (map fst buckets)"
    using assms by (auto simp: synced_def contains_key_iff)
  then show ?thesis
    using assms distinct_card [of order] distinct_card [of "map fst buckets"]
    by (simp add: synced_def table_ok_def)
qed

lemma synced_overwrite:
  "synced buckets order \<Longrightarrow> contains_key k buckets \<Longrightarrow> synced (AList.update k v buckets) order"
  by (auto simp: synced_def table_simps)

lemma synced_push:
  "synced buckets order \<Longrightarrow> \<not> contains_key k buckets \<Longrightarrow> synced (AList.update k v buckets) (order @ [k])"
  by (auto simp: synced_def table_simps)

lemma synced_pop: "synced buckets (victim # order) \<Longrightarrow> synced (AList.delete victim buckets) order"
  by (auto simp: synced_def table_simps)

lemma synced_retain:
  assumes "synced buckets order"
  shows "synced (filter p buckets) (filter (\<lambda>k. contains_key k (filter p buckets)) order)"
proof -
  have "contains_key k buckets" if "contains_key k (filter p buckets)" for k
    using that by (auto simp: contains_key_iff)
  then show ?thesis using assms by (auto simp: synced_def)
qed

locale fifo_table =
  fixes evict :: "('k, 'v) table \<Rightarrow> 'k list \<Rightarrow> ('k, 'v) table \<times> 'k list"
    and cap :: nat
  assumes evict_empty: "evict buckets [] = (buckets, [])"
    and evict_front: "evict buckets (victim # order) =
      (if length buckets \<ge> cap then evict (AList.delete victim buckets) order else (buckets, victim # order))"
begin

lemma evict_synced:
  "synced buckets order \<Longrightarrow> evict buckets order = (buckets', order') \<Longrightarrow> synced buckets' order'"
proof (induction order arbitrary: buckets)
  case Nil
  then show ?case by (simp add: evict_empty)
next
  case (Cons victim order)
  show ?case
    using Cons.IH [OF synced_pop [OF Cons.prems(1)]] Cons.prems
    by (cases "length buckets \<ge> cap") (simp_all add: evict_front)
qed

lemma evict_room:
  assumes "0 < cap"
  shows "synced buckets order \<Longrightarrow> evict buckets order = (buckets', order') \<Longrightarrow> length buckets' < cap"
proof (induction order arbitrary: buckets)
  case Nil
  then show ?case using synced_length [OF Nil.prems(1)] assms by (simp add: evict_empty)
next
  case (Cons victim order)
  show ?case
    using Cons.IH [OF synced_pop [OF Cons.prems(1)]] Cons.prems
    by (cases "length buckets \<ge> cap") (simp_all add: evict_front)
qed

lemma evict_idle: "length buckets < cap \<Longrightarrow> evict buckets order = (buckets, order)"
  by (cases order) (simp_all add: evict_empty evict_front)

text \<open>A table at its cap loses exactly its oldest key.\<close>

lemma evict_full:
  assumes "synced buckets order" "length buckets = cap" "0 < cap"
  shows "evict buckets order = (AList.delete (hd order) buckets, tl order)"
proof -
  obtain victim rest where o: "order = victim # rest"
    using synced_length [OF assms(1)] assms(2,3) by (cases order) auto
  have "contains_key victim buckets" "table_ok buckets" using assms(1) o by (auto simp: synced_def)
  then have "length (AList.delete victim buckets) < cap" using length_delete_mem assms(2,3) by fastforce
  then show ?thesis using o assms(2) by (simp add: evict_front evict_idle)
qed

lemma evict_lookup:
  "evict buckets order = (buckets', order') \<Longrightarrow> map_of buckets' k = Some v \<Longrightarrow> map_of buckets k = Some v"
proof (induction order arbitrary: buckets)
  case Nil
  then show ?case by (simp add: evict_empty)
next
  case (Cons victim order)
  show ?case
    using Cons.IH [of "AList.delete victim buckets"] Cons.prems
    by (cases "length buckets \<ge> cap") (auto simp: evict_front table_simps split: if_splits)
qed

text \<open>Making room and then inserting a new key keeps the lockstep and the cap.\<close>

lemma insert_new:
  assumes "0 < cap" "synced buckets order" "\<not> contains_key k buckets" "evict buckets order = (buckets', order')"
  shows "synced (AList.update k v buckets') (order' @ [k]) \<and> length (AList.update k v buckets') \<le> cap"
proof -
  have "\<not> contains_key k buckets'"
    using evict_lookup [OF assms(4), of k] assms(3) by (cases "map_of buckets' k") (auto simp: contains_key_def)
  then show ?thesis
    using synced_push [OF evict_synced [OF assms(2,4)]] evict_room [OF assms(1,2,4)]
    by (simp add: length_update)
qed

end

end
