(* ===== verification/Handshake_Server.thy ===== *)
theory Handshake_Server
  imports Handshake_Messages Wire_Session Fifo_Table
begin

text \<open>
  The server side of the v2 handshake (\<open>pq-tunnel-core/src/handshake_v2.rs\<close>): configuration and
  roster, the table of pending handshakes, the per-source rate table, and the handlers of M1 and
  M3 fragments. A handler reads the clock up to three times: when it evicts expired entries, when
  it charges the source, and when it stamps the entry; the three instants are one argument. The
  random draws are arguments; an \<open>expect\<close> of the source is \<open>the\<close>.
\<close>

section \<open>Configuration\<close>

record ServerConfig =
  scf_version :: byte
  scf_identity :: bytes
  scf_roster :: "bytes list"
  scf_max_roster_size :: nat
  scf_max_pending :: nat
  scf_pending_ttl :: duration
  scf_rate_limit_burst :: u32
  scf_rate_limit_window :: duration

definition DEFAULT_MAX_ROSTER_SIZE :: nat where "DEFAULT_MAX_ROSTER_SIZE = 64"

definition with_roster_limit :: "bytes \<Rightarrow> bytes list \<Rightarrow> nat \<Rightarrow> ServerConfig" where
  "with_roster_limit identity roster max_roster_size =
     (let cfg = \<lparr>scf_version = PROTOCOL_VERSION, scf_identity = identity, scf_roster = [],
                 scf_max_roster_size = max_roster_size, scf_max_pending = 64,
                 scf_pending_ttl = from_secs 30, scf_rate_limit_burst = 16,
                 scf_rate_limit_window = from_secs 10\<rparr>
      in if length roster \<le> max_roster_size then cfg\<lparr>scf_roster := roster\<rparr> else cfg)"

definition server_config_new :: "bytes \<Rightarrow> bytes list \<Rightarrow> ServerConfig" where
  "server_config_new identity roster = with_roster_limit identity roster DEFAULT_MAX_ROSTER_SIZE"

definition roster_too_large :: "nat \<Rightarrow> nat \<Rightarrow> HandshakeV2Error" where
  "roster_too_large n max_size =
     HE_InvalidConfig (''roster of '' @ decimal n @ '' keys exceeds the configured maximum of '' @ decimal max_size)"

definition server_config_validate :: "ServerConfig \<Rightarrow> HandshakeV2Error + unit" where
  "server_config_validate cfg =
     (if scf_version cfg \<noteq> PROTOCOL_VERSION then
        Inl (HE_InvalidConfig (''version '' @ decimal (unat (scf_version cfg)) @ '' unsupported (expected '' @
          decimal (unat PROTOCOL_VERSION) @ '')''))
      else if scf_roster cfg = [] then Inl (HE_InvalidConfig ''roster must not be empty (fail closed)'')
      else if length (scf_roster cfg) > scf_max_roster_size cfg
      then Inl (roster_too_large (length (scf_roster cfg)) (scf_max_roster_size cfg))
      else Inr ())"

section \<open>Events and state\<close>

datatype ServerEvent =
    ServerEmit "WirePacket list" SocketAddr
  | ServerComplete HandshakeOutcome
  | ServerNone

datatype PendingState = AwaitM1 | AwaitM3

record PendingSession =
  pe_source :: SocketAddr
  pe_state :: PendingState
  pe_assembler :: "FragmentAssembler option"
  pe_m1_body :: "bytes option"
  pe_m2_cache :: "bytes option"
  pe_last_seen :: instant
  pe_started :: instant
  pe_ss_a :: bytes
  pe_dh_cs :: bytes
  pe_sk_s :: "bytes option"
  pe_verified_client :: "bytes option"

definition pending_new :: "SocketAddr \<Rightarrow> instant \<Rightarrow> FragmentAssembler \<Rightarrow> PendingSession" where
  "pending_new source now assembler =
     \<lparr>pe_source = source, pe_state = AwaitM1, pe_assembler = Some assembler, pe_m1_body = None,
      pe_m2_cache = None, pe_last_seen = now, pe_started = now, pe_ss_a = replicate 32 0,
      pe_dh_cs = replicate 32 0, pe_sk_s = None, pe_verified_client = None\<rparr>"

record RateBucket =
  rb_tokens :: u32
  rb_last_refill :: instant

definition MAX_RATE_BUCKETS :: nat where "MAX_RATE_BUCKETS = 4096"

record ServerHandshake =
  sv_cfg :: ServerConfig
  sv_pending :: "(bytes, PendingSession) table"
  sv_rate_buckets :: "(SocketAddr, RateBucket) table"
  sv_rate_order :: "SocketAddr list"
  sv_last_rate_prune :: instant

definition server_new :: "instant \<Rightarrow> ServerConfig \<Rightarrow> ServerHandshake" where
  "server_new now cfg0 =
     (let cfg = (if length (scf_roster cfg0) > scf_max_roster_size cfg0 then cfg0\<lparr>scf_roster := []\<rparr> else cfg0)
      in \<lparr>sv_cfg = cfg, sv_pending = [], sv_rate_buckets = [], sv_rate_order = [], sv_last_rate_prune = now\<rparr>)"

definition set_roster :: "bytes list \<Rightarrow> ServerHandshake \<Rightarrow> (HandshakeV2Error + unit) \<times> ServerHandshake" where
  "set_roster roster s =
     (if roster = [] then (Inl (HE_InvalidConfig ''roster must not be empty (fail closed)''), s)
      else if length roster > scf_max_roster_size (sv_cfg s)
      then (Inl (roster_too_large (length roster) (scf_max_roster_size (sv_cfg s))), s)
      else (Inr (), s\<lparr>sv_cfg := (sv_cfg s)\<lparr>scf_roster := roster\<rparr>\<rparr>))"

definition roster_contains :: "bytes \<Rightarrow> ServerHandshake \<Rightarrow> bool" where
  "roster_contains pk s = list_ex (\<lambda>k. k = pk) (scf_roster (sv_cfg s))"

definition evict_expired :: "instant \<Rightarrow> ServerHandshake \<Rightarrow> ServerHandshake" where
  "evict_expired now s =
     s\<lparr>sv_pending := filter (\<lambda>(_, e). now - pe_last_seen e < scf_pending_ttl (sv_cfg s)) (sv_pending s)\<rparr>"

section \<open>Rate table\<close>

definition rate_prune :: "instant \<Rightarrow> ServerHandshake \<Rightarrow> ServerHandshake" where
  "rate_prune now s =
     (if length (sv_rate_buckets s) > 32 \<and>
         (now - sv_last_rate_prune s \<ge> scf_rate_limit_window (sv_cfg s) \<or> now - sv_last_rate_prune s < 1)
      then
        let buckets = filter (\<lambda>(_, b). now - rb_last_refill b < scf_rate_limit_window (sv_cfg s)) (sv_rate_buckets s)
        in s\<lparr>sv_last_rate_prune := now, sv_rate_buckets := buckets,
             sv_rate_order := filter (\<lambda>k. contains_key k buckets) (sv_rate_order s)\<rparr>
      else s)"

text \<open>The eviction loop pops the queue, so it is structural on it.\<close>

fun rate_evict ::
  "(SocketAddr, RateBucket) table \<Rightarrow> SocketAddr list \<Rightarrow> (SocketAddr, RateBucket) table \<times> SocketAddr list" where
  "rate_evict buckets [] = (buckets, [])"
| "rate_evict buckets (victim # order) =
     (if length buckets \<ge> MAX_RATE_BUCKETS then rate_evict (AList.delete victim buckets) order
      else (buckets, victim # order))"

definition rate_ok :: "instant \<Rightarrow> SocketAddr \<Rightarrow> ServerHandshake \<Rightarrow> bool \<times> ServerHandshake" where
  "rate_ok now from s0 =
     (let s = rate_prune now s0 in
      case map_of (sv_rate_buckets s) from of
        Some bucket0 \<Rightarrow>
          let bucket = (if now - rb_last_refill bucket0 \<ge> scf_rate_limit_window (sv_cfg s)
                        then bucket0\<lparr>rb_tokens := scf_rate_limit_burst (sv_cfg s), rb_last_refill := now\<rparr>
                        else bucket0)
          in if rb_tokens bucket = 0
             then (False, s\<lparr>sv_rate_buckets := AList.update from bucket (sv_rate_buckets s)\<rparr>)
             else (True, s\<lparr>sv_rate_buckets :=
                     AList.update from (bucket\<lparr>rb_tokens := rb_tokens bucket - 1\<rparr>) (sv_rate_buckets s)\<rparr>)
      | None \<Rightarrow>
          let (buckets, order) = rate_evict (sv_rate_buckets s) (sv_rate_order s);
              tokens = scf_rate_limit_burst (sv_cfg s);
              allowed = tokens > 0;
              bucket = \<lparr>rb_tokens = (if tokens > 0 then tokens - 1 else tokens), rb_last_refill = now\<rparr>
          in (allowed, s\<lparr>sv_rate_buckets := AList.update from bucket buckets,
                         sv_rate_order := order @ [from]\<rparr>))"

section \<open>Handlers\<close>

record Clock =
  ck_evict :: instant
  ck_rate :: instant
  ck_stamp :: instant

record ServerDraws =
  sd_kem_seed :: bytes
  sd_x_seed :: bytes
  sd_encaps :: bytes

fun roster_scan ::
  "primitives \<Rightarrow> bytes \<Rightarrow> bytes \<Rightarrow> bytes list \<Rightarrow> bool \<times> bytes option \<Rightarrow> CryptoError + (bool \<times> bytes option)" where
  "roster_scan P th1_d sig [] acc = Inr acc"
| "roster_scan P th1_d sig (pk # pks) (authed, matched) =
     (case dsa_verify P pk th1_d sig of
        Inl e \<Rightarrow> Inl e
      | Inr ok \<Rightarrow> roster_scan P th1_d sig pks (authed \<or> ok, if ok then Some pk else matched))"

definition pending_remove :: "bytes \<Rightarrow> ServerHandshake \<Rightarrow> ServerHandshake" where
  "pending_remove sid s = s\<lparr>sv_pending := AList.delete sid (sv_pending s)\<rparr>"

definition pending_insert :: "bytes \<Rightarrow> PendingSession \<Rightarrow> ServerHandshake \<Rightarrow> ServerHandshake" where
  "pending_insert sid e s = s\<lparr>sv_pending := AList.update sid e (sv_pending s)\<rparr>"

definition complete_m1 ::
  "primitives \<Rightarrow> ServerDraws \<Rightarrow> Clock \<Rightarrow> bytes \<Rightarrow> bytes \<Rightarrow> SocketAddr \<Rightarrow> ServerHandshake \<Rightarrow>
   (HandshakeV2Error + ServerEvent) \<times> ServerHandshake" where
  "complete_m1 P rnd ck sid m1_bytes from s =
     (let cfg = sv_cfg s in
      case client_hello_decode P m1_bytes of Inl _ \<Rightarrow> (Inr ServerNone, pending_remove sid s)
      | Inr m1 \<Rightarrow>
        if ch_version m1 \<noteq> scf_version cfg \<or> ch_sid m1 \<noteq> sid then (Inr ServerNone, pending_remove sid s)
        else
          let th1_d = the (th1_from_m1 P m1_bytes) in
          (case roster_scan P th1_d (ch_client_sig m1) (scf_roster cfg) (False, None) of Inl e \<Rightarrow> (Inl (HE_Crypto e), s)
           | Inr (authed, matched) \<Rightarrow>
             if \<not> authed then (Inr ServerNone, pending_remove sid s)
             else
          (case kem_generate P (sd_kem_seed rnd) of Inl e \<Rightarrow> (Inl (HE_Crypto e), s)
           | Inr ml_kp \<Rightarrow>
             let x_kp = x25519_generate P (sd_x_seed rnd); x_s = x_public x_kp in
          (case encapsulate P (ch_eph_pk_c m1) (sd_encaps rnd) of Inl e \<Rightarrow> (Inl (HE_Crypto e), s)
           | Inr (ss_a, ct2) \<Rightarrow>
          (case diffie_hellman P (x_secret x_kp) (ch_x_c m1) of None \<Rightarrow> (Inr ServerNone, pending_remove sid s)
           | Some dh_cs \<Rightarrow>
             let m2_z = encode_m2 (scf_version cfg) sid (kem_public ml_kp) x_s ct2 None;
                 th2_d = the (th2_from_m1_m2 P m1_bytes m2_z)
             in
          (case dsa_sign P (scf_identity cfg) th2_d of Inl e \<Rightarrow> (Inl (HE_Crypto e), s)
           | Inr server_sig \<Rightarrow>
             let m2 = \<lparr>sh_version = scf_version cfg, sh_sid = sid, sh_eph_pk_s = kem_public ml_kp, sh_x_s = x_s,
                       sh_ct2 = ct2, sh_server_sig = server_sig\<rparr>;
                 m2_bytes = server_hello_encode m2
             in
          (case fragment_message HS_TYPE_SERVER_HELLO (scf_version cfg) sid m2_bytes of Inl e \<Rightarrow> (Inl (HE_Codec e), s)
           | Inr frags \<Rightarrow>
             let entry = the (map_of (sv_pending s) sid);
                 entry1 = entry\<lparr>pe_state := AwaitM3, pe_m1_body := Some m1_bytes, pe_m2_cache := Some m2_bytes,
                   pe_ss_a := ss_a, pe_dh_cs := dh_cs, pe_sk_s := Some (kem_secret ml_kp),
                   pe_verified_client := matched, pe_assembler := None, pe_last_seen := ck_stamp ck\<rparr>
             in (Inr (ServerEmit frags from), pending_insert sid entry1 (pending_remove sid s)))))))))"

definition on_m1_fragment ::
  "primitives \<Rightarrow> ServerDraws \<Rightarrow> Clock \<Rightarrow> WirePacket \<Rightarrow> SocketAddr \<Rightarrow> ServerHandshake \<Rightarrow>
   (HandshakeV2Error + ServerEvent) \<times> ServerHandshake" where
  "on_m1_fragment P rnd ck pkt from s0 =
     (case from_datagram pkt of Inl _ \<Rightarrow> (Inr ServerNone, s0)
      | Inr frag \<Rightarrow>
        let s = evict_expired (ck_evict ck) s0; sid = hf_sid frag in
        (case map_of (sv_pending s) sid of
           Some entry \<Rightarrow>
             if pe_source entry \<noteq> from then (Inr ServerNone, s)
             else (case pe_state entry of
                 AwaitM1 \<Rightarrow>
                   let (res, asm) = add_fragment frag (the (pe_assembler entry));
                       entry1 = entry\<lparr>pe_assembler := Some asm\<rparr>;
                       s1 = pending_insert sid entry1 s
                   in (case res of
                         Completed \<Rightarrow>
                           let (ok, s2) = rate_ok (ck_rate ck) from s1 in
                           if \<not> ok then (Inr ServerNone, s2)
                           else complete_m1 P rnd ck sid (the (assembled_message asm)) from s2
                       | Advanced \<Rightarrow>
                           (Inr ServerNone, pending_insert sid (entry1\<lparr>pe_last_seen := ck_stamp ck\<rparr>) s1)
                       | Ignored \<Rightarrow> (Inr ServerNone, s1))
               | AwaitM3 \<Rightarrow>
                   if hf_frag_idx frag \<noteq> 0 then (Inr ServerNone, s)
                   else
                     let (ok, s1) = rate_ok (ck_rate ck) from s in
                     if \<not> ok then (Inr ServerNone, s1)
                     else
                       let s2 = pending_insert sid (entry\<lparr>pe_last_seen := ck_stamp ck\<rparr>) s1 in
                       (case fragment_message HS_TYPE_SERVER_HELLO (scf_version (sv_cfg s)) sid (the (pe_m2_cache entry)) of
                          Inl e \<Rightarrow> (Inl (HE_Codec e), s2)
                        | Inr frags \<Rightarrow> (Inr (ServerEmit frags (pe_source entry)), s2)))
         | None \<Rightarrow>
             if hf_frag_idx frag \<noteq> 0 then (Inr ServerNone, s)
             else
               let (ok, s1) = rate_ok (ck_rate ck) from s in
               if \<not> ok then (Inr ServerNone, s1)
               else if length (sv_pending s1) \<ge> scf_max_pending (sv_cfg s1) then (Inr ServerNone, s1)
               else (case assembler_new HS_TYPE_CLIENT_HELLO of None \<Rightarrow> (Inr ServerNone, s1)
                 | Some asm \<Rightarrow>
                     (Inr ServerNone,
                      pending_insert sid (pending_new from (ck_stamp ck) (snd (add_fragment frag asm))) s1))))"

definition on_m3_fragment ::
  "primitives \<Rightarrow> Clock \<Rightarrow> WirePacket \<Rightarrow> SocketAddr \<Rightarrow> ServerHandshake \<Rightarrow>
   (HandshakeV2Error + ServerEvent) \<times> ServerHandshake" where
  "on_m3_fragment P ck pkt from s0 =
     (case from_datagram pkt of Inl _ \<Rightarrow> (Inr ServerNone, s0)
      | Inr frag \<Rightarrow>
        let s = evict_expired (ck_evict ck) s0; sid = hf_sid frag in
        (case map_of (sv_pending s) sid of None \<Rightarrow> (Inr ServerNone, s)
         | Some entry \<Rightarrow>
           if pe_source entry \<noteq> from \<or> pe_state entry \<noteq> AwaitM3 then (Inr ServerNone, s)
           else
             let (ok, s1) = rate_ok (ck_rate ck) from s in
             if \<not> ok then (Inr ServerNone, s1)
             else
        (case client_confirm_decode (hf_body frag) of Inl _ \<Rightarrow> (Inr ServerNone, s1)
         | Inr m3 \<Rightarrow>
           if cc_version m3 \<noteq> scf_version (sv_cfg s1) \<or> cc_sid m3 \<noteq> sid then (Inr ServerNone, s1)
           else
        (case pe_sk_s entry of None \<Rightarrow> (Inr ServerNone, s1)
         | Some sk_s \<Rightarrow>
        (case decapsulate P sk_s (cc_ct3 m3) of Inl e \<Rightarrow> (Inl (HE_Crypto e), s1)
         | Inr ss_b \<Rightarrow>
           let th3_d = the (th3_from_m1_m2_m3 P (the (pe_m1_body entry)) (the (pe_m2_cache entry)) (hf_body frag)) in
        (case derive_master P (pe_ss_a entry) ss_b (pe_dh_cs entry) (cc_version m3) sid th3_d of Inl e \<Rightarrow> (Inl e, s1)
         | Inr master \<Rightarrow>
        (case derive_finished_key P master (cc_version m3) sid of Inl e \<Rightarrow> (Inl (HE_Crypto e), s1)
         | Inr finished_key \<Rightarrow>
           let expected = compute_client_finished P finished_key th3_d in
           if expected \<noteq> cc_client_finished m3 then (Inr ServerNone, s1)
           else
             let peer_identity = the (pe_verified_client entry);
                 elapsed = ck_stamp ck - pe_started entry
             in if \<not> roster_contains peer_identity s1 then (Inr ServerNone, pending_remove sid s1)
                else (Inr (ServerComplete \<lparr>ho_master = master, ho_session_id = sid,
                        ho_peer_identity = peer_identity, ho_handshake_duration = elapsed\<rparr>),
                      pending_remove sid s1))))))))"

definition server_handle_datagram ::
  "primitives \<Rightarrow> ServerDraws \<Rightarrow> Clock \<Rightarrow> WirePacket \<Rightarrow> SocketAddr \<Rightarrow> ServerHandshake \<Rightarrow>
   (HandshakeV2Error + ServerEvent) \<times> ServerHandshake" where
  "server_handle_datagram P rnd ck pkt from s =
     (let t = as_bytes pkt ! (VERSION_LEN + SESSION_ID_LEN) in
      if t = HS_TYPE_CLIENT_HELLO then on_m1_fragment P rnd ck pkt from s
      else if t = HS_TYPE_CLIENT_CONFIRM then on_m3_fragment P ck pkt from s
      else (Inr ServerNone, s))"

section \<open>The rate table\<close>

interpretation rate: fifo_table rate_evict MAX_RATE_BUCKETS
  by unfold_locales simp_all

definition rate_inv :: "ServerHandshake \<Rightarrow> bool" where
  "rate_inv s \<longleftrightarrow> synced (sv_rate_buckets s) (sv_rate_order s) \<and> length (sv_rate_buckets s) \<le> MAX_RATE_BUCKETS"

lemma rate_prune_inv: "rate_inv s \<Longrightarrow> rate_inv (rate_prune now s)"
  by (auto simp: rate_inv_def rate_prune_def Let_def synced_retain intro: le_trans [OF length_filter_le])

lemma rate_prune_frame: "sv_cfg (rate_prune now s) = sv_cfg s" "sv_pending (rate_prune now s) = sv_pending s"
  by (simp_all add: rate_prune_def Let_def)

lemma rate_ok_frame: "sv_cfg (snd (rate_ok now from s)) = sv_cfg s" "sv_pending (snd (rate_ok now from s)) = sv_pending s"
  by (simp_all add: rate_ok_def Let_def rate_prune_frame split: option.splits prod.splits)

lemma rate_ok_inv:
  assumes "rate_inv s"
  shows "rate_inv (snd (rate_ok now from s))"
proof -
  let ?s = "rate_prune now s"
  have inv: "synced (sv_rate_buckets ?s) (sv_rate_order ?s)" "length (sv_rate_buckets ?s) \<le> MAX_RATE_BUCKETS"
    using rate_prune_inv [OF assms, of now] by (simp_all add: rate_inv_def)
  show ?thesis
  proof (cases "map_of (sv_rate_buckets ?s) from")
    case (Some b)
    then have c: "contains_key from (sv_rate_buckets ?s)" by (simp add: contains_key_def)
    show ?thesis
      using Some inv(2) c synced_overwrite [OF inv(1) c]
      by (simp add: rate_ok_def Let_def rate_inv_def length_update)
  next
    case None
    then have c: "\<not> contains_key from (sv_rate_buckets ?s)" by (simp add: contains_key_def)
    obtain bs ord where e: "rate_evict (sv_rate_buckets ?s) (sv_rate_order ?s) = (bs, ord)" by fastforce
    have "0 < MAX_RATE_BUCKETS" by (simp add: MAX_RATE_BUCKETS_def)
    from rate.insert_new [OF this inv(1) c e] show ?thesis
      using None e by (simp add: rate_ok_def Let_def rate_inv_def)
  qed
qed

section \<open>Pending handshakes\<close>

text \<open>The key the roster scan settles on is the last one that verifies.\<close>

lemma roster_scan_eq:
  "roster_scan P d sig pks (authed, matched) =
     Inr (authed \<or> (\<exists>pk \<in> set pks. mldsa_verify P pk d sig),
          if \<exists>pk \<in> set pks. mldsa_verify P pk d sig
          then Some (last (filter (\<lambda>pk. mldsa_verify P pk d sig) pks)) else matched)"
proof (induction pks arbitrary: authed matched)
  case Nil
  then show ?case by simp
next
  case (Cons pk pks)
  have "filter (\<lambda>pk. mldsa_verify P pk d sig) pks = [] \<longleftrightarrow> \<not> (\<exists>pk \<in> set pks. mldsa_verify P pk d sig)"
    by (auto simp: filter_empty_conv)
  then show ?case using Cons by (auto simp: dsa_verify_def)
qed

lemma roster_scan_matched:
  assumes "roster_scan P d sig pks (False, None) = Inr (True, matched)"
  obtains pk where "matched = Some pk" "pk \<in> set pks" "mldsa_verify P pk d sig"
proof -
  let ?f = "filter (\<lambda>pk. mldsa_verify P pk d sig) pks"
  have ex: "\<exists>pk \<in> set pks. mldsa_verify P pk d sig" and m: "matched = Some (last ?f)"
    using assms by (auto simp: roster_scan_eq split: if_splits)
  have "?f \<noteq> []" using ex by (auto simp: filter_empty_conv)
  then have "last ?f \<in> set ?f" by (rule last_in_set)
  then show thesis using that m by auto
qed

definition entry_ok :: "primitives \<Rightarrow> bytes \<Rightarrow> PendingSession \<Rightarrow> bool" where
  "entry_ok P sid e \<longleftrightarrow>
     (case pe_state e of
        AwaitM1 \<Rightarrow> \<exists>a. pe_assembler e = Some a \<and> assembler_inv a \<and> fa_hs_type a = HS_TYPE_CLIENT_HELLO
      | AwaitM3 \<Rightarrow> \<exists>m1 m2 pk sk. pe_m1_body e = Some (client_hello_encode m1) \<and> client_hello_wf P m1 \<and>
          ch_sid m1 = sid \<and> pe_m2_cache e = Some m2 \<and> length m2 = M2_BODY_LEN \<and> pe_sk_s e = Some sk \<and>
          pe_verified_client e = Some pk \<and>
          mldsa_verify P pk (the (th1_from_m1 P (client_hello_encode m1))) (ch_client_sig m1))"

definition pending_inv :: "primitives \<Rightarrow> ServerHandshake \<Rightarrow> bool" where
  "pending_inv P s \<longleftrightarrow> table_ok (sv_pending s) \<and> length (sv_pending s) \<le> scf_max_pending (sv_cfg s) \<and>
     (\<forall>sid e. map_of (sv_pending s) sid = Some e \<longrightarrow> entry_ok P sid e)"

definition server_inv :: "primitives \<Rightarrow> ServerHandshake \<Rightarrow> bool" where
  "server_inv P s \<longleftrightarrow> rate_inv s \<and> pending_inv P s"

lemma pending_invD:
  assumes "pending_inv P s"
  shows "table_ok (sv_pending s)" "length (sv_pending s) \<le> scf_max_pending (sv_cfg s)"
    "map_of (sv_pending s) sid = Some e \<Longrightarrow> entry_ok P sid e"
  using assms unfolding pending_inv_def by blast+

lemma evict_expired_inv: "server_inv P s \<Longrightarrow> server_inv P (evict_expired now s)"
  unfolding server_inv_def rate_inv_def pending_inv_def evict_expired_def
  by (auto simp: map_of_filter intro: le_trans [OF length_filter_le] split: option.splits if_splits)

lemma rate_ok_server_inv:
  assumes "server_inv P s" "rate_ok now from s = (ok, s1)"
  shows "server_inv P s1" "sv_pending s1 = sv_pending s" "sv_cfg s1 = sv_cfg s"
proof -
  have e: "s1 = snd (rate_ok now from s)" using assms(2) by simp
  show "sv_pending s1 = sv_pending s" "sv_cfg s1 = sv_cfg s" unfolding e by (simp_all add: rate_ok_frame)
  then show "server_inv P s1"
    using assms(1) rate_ok_inv [of s now "from"] unfolding server_inv_def pending_inv_def e by simp
qed

lemma pending_remove_inv: "server_inv P s \<Longrightarrow> server_inv P (pending_remove sid s)"
  unfolding server_inv_def rate_inv_def pending_inv_def pending_remove_def
  by (auto simp: table_simps intro: le_trans [OF length_delete_le] split: if_splits)

lemma pending_overwrite_inv:
  "server_inv P s \<Longrightarrow> contains_key sid (sv_pending s) \<Longrightarrow> entry_ok P sid e \<Longrightarrow> server_inv P (pending_insert sid e s)"
  unfolding server_inv_def rate_inv_def pending_inv_def pending_insert_def
  by (auto simp: table_simps length_update split: if_splits)

lemma pending_add_inv:
  "server_inv P s \<Longrightarrow> length (sv_pending s) < scf_max_pending (sv_cfg s) \<Longrightarrow> entry_ok P sid e \<Longrightarrow>
   server_inv P (pending_insert sid e s)"
  unfolding server_inv_def rate_inv_def pending_inv_def pending_insert_def
  by (auto simp: table_simps length_update split: if_splits)

lemma pending_replace: "pending_insert sid e (pending_remove sid s) = s\<lparr>sv_pending := AList.update sid e (AList.delete sid (sv_pending s))\<rparr>"
  by (simp add: pending_insert_def pending_remove_def)

lemma fragment_message_length:
  "fragment_message HS_TYPE_SERVER_HELLO v sid msg = Inr frags \<Longrightarrow> length msg = M2_BODY_LEN"
  by (auto simp: fragment_message_def expected_frag_count_def message_body_len_def hs_types
      split: if_splits option.splits)

lemma add_fragment_type: "fa_hs_type (snd (add_fragment frag a)) = fa_hs_type a"
  by (simp add: add_fragment_def Let_def)

lemma complete_m1_cases:
  obtains (failed) e where "complete_m1 P rnd ck sid m1_bytes from s = (Inl e, s)"
  | (dropped) "complete_m1 P rnd ck sid m1_bytes from s = (Inr ServerNone, pending_remove sid s)"
  | (accepted) m1 pk m2 frags ss_a dh sk where
      "client_hello_decode P m1_bytes = Inr m1" "ch_sid m1 = sid" "ch_version m1 = scf_version (sv_cfg s)"
      "pk \<in> set (scf_roster (sv_cfg s))"
      "mldsa_verify P pk (the (th1_from_m1 P m1_bytes)) (ch_client_sig m1)"
      "fragment_message HS_TYPE_SERVER_HELLO (scf_version (sv_cfg s)) sid m2 = Inr frags"
      "complete_m1 P rnd ck sid m1_bytes from s = (Inr (ServerEmit frags from),
         pending_insert sid ((the (map_of (sv_pending s) sid))
           \<lparr>pe_state := AwaitM3, pe_m1_body := Some m1_bytes, pe_m2_cache := Some m2, pe_ss_a := ss_a,
            pe_dh_cs := dh, pe_sk_s := Some sk, pe_verified_client := Some pk, pe_assembler := None,
            pe_last_seen := ck_stamp ck\<rparr>) (pending_remove sid s))"
proof (cases "client_hello_decode P m1_bytes")
  case (Inl e)
  then show thesis using dropped by (simp add: complete_m1_def)
next
  case m1: (Inr m1)
  let ?d = "the (th1_from_m1 P m1_bytes)"
  show thesis
  proof (cases "ch_version m1 = scf_version (sv_cfg s) \<and> ch_sid m1 = sid \<and>
      (\<exists>pk \<in> set (scf_roster (sv_cfg s)). mldsa_verify P pk ?d (ch_client_sig m1))")
    case False
    then have "complete_m1 P rnd ck sid m1_bytes from s = (Inr ServerNone, pending_remove sid s)"
      using m1 by (auto simp: complete_m1_def roster_scan_eq Let_def)
    then show thesis by (rule dropped)
  next
    case True
    then obtain matched where sc: "roster_scan P ?d (ch_client_sig m1) (scf_roster (sv_cfg s)) (False, None) = Inr (True, matched)"
      by (simp add: roster_scan_eq)
    then obtain pk where pk: "matched = Some pk" "pk \<in> set (scf_roster (sv_cfg s))" "mldsa_verify P pk ?d (ch_client_sig m1)"
      by (rule roster_scan_matched)
    let ?x = "x25519_generate P (sd_x_seed rnd)"
    obtain ct2 ss_a where "mlkem_encaps P (ch_eph_pk_c m1) (sd_encaps rnd) = (ct2, ss_a)" by fastforce
    then have en: "encapsulate P (ch_eph_pk_c m1) (sd_encaps rnd) = Inr (ss_a, ct2)"
      by (simp add: encapsulate_def)
    show thesis
    proof (cases "diffie_hellman P (x_secret ?x) (ch_x_c m1)")
      case None
      then have "complete_m1 P rnd ck sid m1_bytes from s = (Inr ServerNone, pending_remove sid s)"
        using m1 True sc en by (simp add: complete_m1_def kem_generate_def Let_def)
      then show thesis by (rule dropped)
    next
      case (Some dh)
      define m2_z where "m2_z = encode_m2 (scf_version (sv_cfg s)) sid (mlkem_ek_of P (sd_kem_seed rnd)) (x_public ?x) ct2 None"
      define m2 where "m2 = server_hello_encode \<lparr>sh_version = scf_version (sv_cfg s), sh_sid = sid,
         sh_eph_pk_s = mlkem_ek_of P (sd_kem_seed rnd), sh_x_s = x_public ?x, sh_ct2 = ct2,
         sh_server_sig = mldsa_sign P (scf_identity (sv_cfg s)) (the (th2_from_m1_m2 P m1_bytes m2_z))\<rparr>"
      show thesis
      proof (cases "fragment_message HS_TYPE_SERVER_HELLO (scf_version (sv_cfg s)) sid m2")
        case (Inl e)
        then have "complete_m1 P rnd ck sid m1_bytes from s = (Inl (HE_Codec e), s)"
          using m1 True sc en Some unfolding m2_def m2_z_def
          by (simp add: complete_m1_def kem_generate_def dsa_sign_def Let_def)
        then show thesis by (rule failed)
      next
        case (Inr frags)
        then have "complete_m1 P rnd ck sid m1_bytes from s = (Inr (ServerEmit frags from),
          pending_insert sid ((the (map_of (sv_pending s) sid))
           \<lparr>pe_state := AwaitM3, pe_m1_body := Some m1_bytes, pe_m2_cache := Some m2, pe_ss_a := ss_a,
            pe_dh_cs := dh, pe_sk_s := Some (sd_kem_seed rnd), pe_verified_client := Some pk, pe_assembler := None,
            pe_last_seen := ck_stamp ck\<rparr>) (pending_remove sid s))"
          using m1 True sc en Some pk(1) unfolding m2_def m2_z_def
          by (simp add: complete_m1_def kem_generate_def dsa_sign_def Let_def)
        then show thesis using accepted [OF m1 _ _ pk(2,3) Inr] True by blast
      qed
    qed
  qed
qed

lemma entry_ok_accepted:
  assumes "client_hello_decode P m1_bytes = Inr m1" "ch_sid m1 = sid"
    "mldsa_verify P pk (the (th1_from_m1 P m1_bytes)) (ch_client_sig m1)" "length m2 = M2_BODY_LEN"
  shows "entry_ok P sid (e\<lparr>pe_state := AwaitM3, pe_m1_body := Some m1_bytes, pe_m2_cache := Some m2, pe_ss_a := ss_a,
            pe_dh_cs := dh, pe_sk_s := Some sk, pe_verified_client := Some pk, pe_assembler := None,
            pe_last_seen := t\<rparr>)"
proof -
  have "length m1_bytes = M1_BODY_LEN"
    using assms(1) by (auto simp: client_hello_decode_def split: if_splits)
  then have "m1_bytes = client_hello_encode m1" "client_hello_wf P m1"
    using m1.dec_exact [OF assms(1)] m1.dec_sound [OF assms(1)] by blast+
  then show ?thesis using assms(2-4) unfolding entry_ok_def by auto
qed

lemma server_inv_pending: "server_inv P s \<Longrightarrow> pending_inv P s"
  by (simp add: server_inv_def)

lemma complete_m1_inv:
  assumes "server_inv P s" "contains_key sid (sv_pending s)"
  shows "server_inv P (snd (complete_m1 P rnd ck sid m1_bytes from s))"
proof (cases rule: complete_m1_cases [of P rnd ck sid m1_bytes "from" s])
  case (accepted m1 pk m2 frags ss_a dh sk)
  have len: "length (sv_pending (pending_remove sid s)) < scf_max_pending (sv_cfg (pending_remove sid s))"
  proof -
    have t: "table_ok (sv_pending s)" "length (sv_pending s) \<le> scf_max_pending (sv_cfg s)"
      using pending_invD(1,2) [OF server_inv_pending [OF assms(1)]] by blast+
    have "sv_pending s \<noteq> []" using assms(2) by (auto simp: contains_key_def)
    then show ?thesis using t length_delete_mem [OF t(1) assms(2)] by (cases "sv_pending s") (auto simp: pending_remove_def)
  qed
  show ?thesis
    using pending_add_inv [OF pending_remove_inv [OF assms(1)] len
        entry_ok_accepted [OF accepted(1,2,5) fragment_message_length [OF accepted(6)]]] accepted(7)
    by simp
qed (use assms pending_remove_inv in simp_all)

text \<open>The branches of the M1 handler.\<close>

lemma on_m1_cases:
  obtains (unparsed) "on_m1_fragment P rnd ck pkt from s0 = (Inr ServerNone, s0)"
  | (idle) "on_m1_fragment P rnd ck pkt from s0 = (Inr ServerNone, evict_expired (ck_evict ck) s0)"
  | (limited) ok s1 where "rate_ok (ck_rate ck) from (evict_expired (ck_evict ck) s0) = (ok, s1)"
      "on_m1_fragment P rnd ck pkt from s0 = (Inr ServerNone, s1)"
  | (created) frag s1 asm where "from_datagram pkt = Inr frag"
      "map_of (sv_pending (evict_expired (ck_evict ck) s0)) (hf_sid frag) = None"
      "rate_ok (ck_rate ck) from (evict_expired (ck_evict ck) s0) = (True, s1)"
      "length (sv_pending s1) < scf_max_pending (sv_cfg s1)" "assembler_new HS_TYPE_CLIENT_HELLO = Some asm"
      "on_m1_fragment P rnd ck pkt from s0 =
         (Inr ServerNone, pending_insert (hf_sid frag) (pending_new from (ck_stamp ck) (snd (add_fragment frag asm))) s1)"
  | (fed) frag entry res asm s1 where "from_datagram pkt = Inr frag"
      "map_of (sv_pending (evict_expired (ck_evict ck) s0)) (hf_sid frag) = Some entry"
      "pe_source entry = from" "pe_state entry = AwaitM1" "add_fragment frag (the (pe_assembler entry)) = (res, asm)"
      "s1 = pending_insert (hf_sid frag) (entry\<lparr>pe_assembler := Some asm\<rparr>) (evict_expired (ck_evict ck) s0)"
      "on_m1_fragment P rnd ck pkt from s0 =
         (case res of
            Completed \<Rightarrow>
              let (ok, s2) = rate_ok (ck_rate ck) from s1 in
              if \<not> ok then (Inr ServerNone, s2)
              else complete_m1 P rnd ck (hf_sid frag) (the (assembled_message asm)) from s2
          | Advanced \<Rightarrow>
              (Inr ServerNone, pending_insert (hf_sid frag) (entry\<lparr>pe_assembler := Some asm, pe_last_seen := ck_stamp ck\<rparr>) s1)
          | Ignored \<Rightarrow> (Inr ServerNone, s1))"
  | (resent) frag entry s1 r where "from_datagram pkt = Inr frag"
      "map_of (sv_pending (evict_expired (ck_evict ck) s0)) (hf_sid frag) = Some entry"
      "pe_source entry = from" "pe_state entry = AwaitM3" "hf_frag_idx frag = 0"
      "rate_ok (ck_rate ck) from (evict_expired (ck_evict ck) s0) = (True, s1)"
      "r = (case fragment_message HS_TYPE_SERVER_HELLO (scf_version (sv_cfg s1)) (hf_sid frag) (the (pe_m2_cache entry)) of
              Inl e \<Rightarrow> Inl (HE_Codec e) | Inr frags \<Rightarrow> Inr (ServerEmit frags from))"
      "on_m1_fragment P rnd ck pkt from s0 =
         (r, pending_insert (hf_sid frag) (entry\<lparr>pe_last_seen := ck_stamp ck\<rparr>) s1)"
proof (cases "from_datagram pkt")
  case (Inl e)
  then show thesis using unparsed by (simp add: on_m1_fragment_def)
next
  case frag: (Inr frag)
  define s where "s = evict_expired (ck_evict ck) s0"
  note unf = on_m1_fragment_def frag s_def [symmetric] Let_def
  note ev = s_def [symmetric]
  obtain ok s1 where r: "rate_ok (ck_rate ck) from s = (ok, s1)" by fastforce
  have cfg: "sv_cfg s1 = sv_cfg s" using rate_ok_frame(1) [of "ck_rate ck" "from" s] r by simp
  note ok_lim = limited [unfolded ev, OF r] and ok_idle = idle [unfolded ev]
  show thesis
  proof (cases "map_of (sv_pending s) (hf_sid frag)")
    case None
    show thesis
    proof (cases "hf_frag_idx frag = 0 \<and> ok \<and> length (sv_pending s1) < scf_max_pending (sv_cfg s1)")
      case True
      obtain asm where asm: "assembler_new HS_TYPE_CLIENT_HELLO = Some asm"
        by (simp add: assembler_new_def expected_frag_count_def message_body_len_def)
      have "on_m1_fragment P rnd ck pkt from s0 =
         (Inr ServerNone, pending_insert (hf_sid frag) (pending_new from (ck_stamp ck) (snd (add_fragment frag asm))) s1)"
        using None True r asm by (simp add: unf)
      then show thesis using created [OF frag _ _ _ asm, unfolded ev, of s1] None r True by simp
    next
      case False
      show thesis
      proof (cases "hf_frag_idx frag = 0")
        case True
        show thesis by (rule ok_lim) (use None False True r in \<open>auto simp: unf\<close>)
      next
        case False
        show thesis by (rule ok_idle) (use None False in \<open>simp add: unf\<close>)
      qed
    qed
  next
    case (Some entry)
    consider (src) "pe_source entry \<noteq> from" | (m1) "pe_source entry = from" "pe_state entry = AwaitM1"
      | (m3) "pe_source entry = from" "pe_state entry = AwaitM3" by (cases "pe_state entry") auto
    then show thesis
    proof cases
      case src
      show thesis by (rule ok_idle) (use Some src in \<open>simp add: unf\<close>)
    next
      case m1
      obtain res asm where add: "add_fragment frag (the (pe_assembler entry)) = (res, asm)" by fastforce
      show thesis
        by (rule fed [OF frag _ m1 add refl, unfolded ev])
          (use Some m1 add in \<open>simp_all add: unf split: FragmentResult.splits\<close>)
    next
      case m3
      show thesis
      proof (cases "hf_frag_idx frag = 0")
        case False
        show thesis by (rule ok_idle) (use Some m3 False in \<open>simp add: unf\<close>)
      next
        case idx: True
        show thesis
        proof (cases ok)
          case False
          show thesis by (rule ok_lim) (use Some m3 idx False r in \<open>simp add: unf\<close>)
        next
          case True
          show thesis
            by (rule resent [OF frag _ m3 idx _ refl, unfolded ev, of s1])
              (use Some m3 idx True r cfg in \<open>simp_all add: unf split: sum.splits\<close>)
        qed
      qed
    qed
  qed
qed

lemma on_m1_inv:
  assumes "server_inv P s0"
  shows "server_inv P (snd (on_m1_fragment P rnd ck pkt from s0))"
proof -
  note ev = evict_expired_inv [OF assms, of "ck_evict ck"]
  show ?thesis
  proof (cases rule: on_m1_cases [of P rnd ck pkt "from" s0])
    case unparsed
    then show ?thesis using assms by simp
  next
    case idle
    then show ?thesis using ev by simp
  next
    case (limited ok s1)
    then show ?thesis using rate_ok_server_inv(1) [OF ev] by simp
  next
    case (created frag s1 asm)
    have "entry_ok P (hf_sid frag) (pending_new from (ck_stamp ck) (snd (add_fragment frag asm)))"
      using assembler_new_inv [OF created(5)] add_fragment_inv [of asm frag] add_fragment_type [of frag asm]
      by (simp add: entry_ok_def pending_new_def)
    then show ?thesis using created pending_add_inv [OF rate_ok_server_inv(1) [OF ev created(3)]] by simp
  next
    case (fed frag entry res asm s1)
    let ?sid = "hf_sid frag"
    note ok = pending_invD(3) [OF server_inv_pending [OF ev] fed(2)]
    have c: "contains_key ?sid (sv_pending (evict_expired (ck_evict ck) s0))" using fed(2) by (simp add: contains_key_def)
    obtain a where a: "pe_assembler entry = Some a" "assembler_inv a" "fa_hs_type a = HS_TYPE_CLIENT_HELLO"
      using ok fed(4) by (auto simp: entry_ok_def)
    have asm: "assembler_inv asm" "fa_hs_type asm = HS_TYPE_CLIENT_HELLO"
      using add_fragment_inv [OF a(2), of frag] add_fragment_type [of frag a] a fed(5) by simp_all
    have e1: "entry_ok P ?sid (entry\<lparr>pe_assembler := Some asm\<rparr>)"
      "entry_ok P ?sid (entry\<lparr>pe_assembler := Some asm, pe_last_seen := ck_stamp ck\<rparr>)"
      using asm fed(4) by (simp_all add: entry_ok_def)
    have s1: "server_inv P s1" "contains_key ?sid (sv_pending s1)"
      using pending_overwrite_inv [OF ev c e1(1)] fed(6) by (simp_all add: pending_insert_def table_simps)
    obtain rok s2 where r: "rate_ok (ck_rate ck) from s1 = (rok, s2)" by fastforce
    note r2 = rate_ok_server_inv [OF s1(1) r]
    have c2: "contains_key ?sid (sv_pending s2)" using s1(2) r2(2) by simp
    show ?thesis
      using r r2(1) s1(1) complete_m1_inv [OF r2(1) c2] pending_overwrite_inv [OF s1 e1(2)]
      unfolding fed(7) by (cases res) simp_all
  next
    case (resent frag entry s1 r)
    note r1 = rate_ok_server_inv [OF ev resent(6)]
    have "entry_ok P (hf_sid frag) (entry\<lparr>pe_last_seen := ck_stamp ck\<rparr>)"
      using pending_invD(3) [OF server_inv_pending [OF ev] resent(2)] resent(4) by (simp add: entry_ok_def)
    moreover have "contains_key (hf_sid frag) (sv_pending s1)"
      using resent(2) r1(2) by (simp add: contains_key_def)
    ultimately show ?thesis using pending_overwrite_inv [OF r1(1)] resent(8) by simp
  qed
qed

text \<open>What the M3 handler computes for an entry that awaits an M3, as one equation.\<close>

definition m3_transcript :: "primitives \<Rightarrow> PendingSession \<Rightarrow> bytes \<Rightarrow> bytes" where
  "m3_transcript P entry body =
     the (th3_from_m1_m2_m3 P (the (pe_m1_body entry)) (the (pe_m2_cache entry)) body)"

lemma on_m3_cases:
  obtains (unparsed) "on_m3_fragment P ck pkt from s0 = (Inr ServerNone, s0)"
  | (unmatched) "on_m3_fragment P ck pkt from s0 = (Inr ServerNone, evict_expired (ck_evict ck) s0)"
  | (refused) r ok s1 where "rate_ok (ck_rate ck) from (evict_expired (ck_evict ck) s0) = (ok, s1)"
      "on_m3_fragment P ck pkt from s0 = (r, s1)" "\<And>out. r \<noteq> Inr (ServerComplete out)"
  | (revoked) frag s1 where "from_datagram pkt = Inr frag"
      "rate_ok (ck_rate ck) from (evict_expired (ck_evict ck) s0) = (True, s1)"
      "on_m3_fragment P ck pkt from s0 = (Inr ServerNone, pending_remove (hf_sid frag) s1)"
  | (completed) frag entry m3 sk ss_b master fk s1 where "from_datagram pkt = Inr frag"
      "map_of (sv_pending (evict_expired (ck_evict ck) s0)) (hf_sid frag) = Some entry"
      "pe_source entry = from" "pe_state entry = AwaitM3"
      "rate_ok (ck_rate ck) from (evict_expired (ck_evict ck) s0) = (True, s1)"
      "client_confirm_decode (hf_body frag) = Inr m3" "cc_version m3 = scf_version (sv_cfg s1)" "cc_sid m3 = hf_sid frag"
      "pe_sk_s entry = Some sk" "decapsulate P sk (cc_ct3 m3) = Inr ss_b"
      "derive_master P (pe_ss_a entry) ss_b (pe_dh_cs entry) (cc_version m3) (hf_sid frag)
         (m3_transcript P entry (hf_body frag)) = Inr master"
      "derive_finished_key P master (cc_version m3) (hf_sid frag) = Inr fk"
      "cc_client_finished m3 = compute_client_finished P fk (m3_transcript P entry (hf_body frag))"
      "roster_contains (the (pe_verified_client entry)) s1"
      "on_m3_fragment P ck pkt from s0 =
         (Inr (ServerComplete \<lparr>ho_master = master, ho_session_id = hf_sid frag,
            ho_peer_identity = the (pe_verified_client entry),
            ho_handshake_duration = ck_stamp ck - pe_started entry\<rparr>), pending_remove (hf_sid frag) s1)"
proof (cases "from_datagram pkt")
  case (Inl e)
  then show thesis using unparsed by (simp add: on_m3_fragment_def)
next
  case frag: (Inr frag)
  define s where "s = evict_expired (ck_evict ck) s0"
  note unf = on_m3_fragment_def frag s_def [symmetric] m3_transcript_def [symmetric]
  note ev = s_def [symmetric]
  obtain ok s1 where r: "rate_ok (ck_rate ck) from s = (ok, s1)" by fastforce
  show thesis
  proof (cases "\<exists>entry. map_of (sv_pending s) (hf_sid frag) = Some entry \<and> pe_source entry = from \<and> pe_state entry = AwaitM3")
    case False
    then have "on_m3_fragment P ck pkt from s0 = (Inr ServerNone, s)"
      by (auto simp: unf Let_def split: option.splits)
    then show thesis using unmatched by (simp add: ev)
  next
    case True
    then obtain entry where e: "map_of (sv_pending s) (hf_sid frag) = Some entry" "pe_source entry = from"
      "pe_state entry = AwaitM3" by blast
    have silent: thesis if "on_m3_fragment P ck pkt from s0 = (r', s1)" "\<And>out. r' \<noteq> Inr (ServerComplete out)" for r'
      using refused [OF _ that] r by (simp add: ev)
    show thesis
    proof (cases "ok \<and> (\<exists>m3. client_confirm_decode (hf_body frag) = Inr m3 \<and> cc_version m3 = scf_version (sv_cfg s1) \<and>
        cc_sid m3 = hf_sid frag) \<and> pe_sk_s entry \<noteq> None")
      case False
      show thesis
        by (rule silent [of "Inr ServerNone"]) (use False e r in \<open>auto simp: unf Let_def split: sum.splits option.splits\<close>)
    next
      case True
      then obtain m3 sk where m3: "client_confirm_decode (hf_body frag) = Inr m3" "cc_version m3 = scf_version (sv_cfg s1)"
        "cc_sid m3 = hf_sid frag" and sk: "pe_sk_s entry = Some sk" and ok: ok by blast
      define ss_b where "ss_b = mlkem_decaps P sk (cc_ct3 m3)"
      have d: "decapsulate P sk (cc_ct3 m3) = Inr ss_b" by (simp add: decapsulate_def ss_b_def)
      let ?th = "m3_transcript P entry (hf_body frag)"
      let ?dm = "derive_master P (pe_ss_a entry) ss_b (pe_dh_cs entry) (cc_version m3) (hf_sid frag) ?th"
      note base = e r ok m3 sk d
      show thesis
      proof (cases ?dm)
        case (Inl x)
        show thesis by (rule silent [of "Inl x"]) (use Inl base in \<open>simp_all add: unf Let_def\<close>)
      next
        case dm: (Inr master)
        show thesis
        proof (cases "derive_finished_key P master (cc_version m3) (hf_sid frag)")
          case (Inl x)
          show thesis by (rule silent [of "Inl (HE_Crypto x)"]) (use Inl dm base in \<open>simp_all add: unf Let_def\<close>)
        next
          case fk: (Inr fk)
          consider (bad) "cc_client_finished m3 \<noteq> compute_client_finished P fk ?th"
            | (gone) "cc_client_finished m3 = compute_client_finished P fk ?th"
                "\<not> roster_contains (the (pe_verified_client entry)) s1"
            | (good) "cc_client_finished m3 = compute_client_finished P fk ?th"
                "roster_contains (the (pe_verified_client entry)) s1" by blast
          then show thesis
          proof cases
            case bad
            show thesis by (rule silent [of "Inr ServerNone"]) (use bad fk dm base in \<open>simp_all add: unf Let_def\<close>)
          next
            case gone
            have "on_m3_fragment P ck pkt from s0 = (Inr ServerNone, pending_remove (hf_sid frag) s1)"
              using gone fk dm base by (simp add: unf Let_def)
            then show thesis using revoked [OF frag] r ok by (simp add: ev)
          next
            case good
            have "on_m3_fragment P ck pkt from s0 =
               (Inr (ServerComplete \<lparr>ho_master = master, ho_session_id = hf_sid frag,
                  ho_peer_identity = the (pe_verified_client entry),
                  ho_handshake_duration = ck_stamp ck - pe_started entry\<rparr>), pending_remove (hf_sid frag) s1)"
              using good fk dm base by (simp add: unf Let_def)
            then show thesis using completed [OF frag _ e(2,3) _ m3 sk d dm fk good] e(1) r ok by (simp add: ev)
          qed
        qed
      qed
    qed
  qed
qed

lemma on_m3_inv:
  assumes "server_inv P s0"
  shows "server_inv P (snd (on_m3_fragment P ck pkt from s0))"
proof -
  note ev = evict_expired_inv [OF assms, of "ck_evict ck"]
  show ?thesis
    by (cases rule: on_m3_cases [of P ck pkt "from" s0])
      (use assms ev rate_ok_server_inv(1) [OF ev] pending_remove_inv in simp_all)
qed

section \<open>The server as a step system\<close>

datatype server_input =
    Datagram ServerDraws Clock WirePacket SocketAddr
  | SwapRoster "bytes list"

datatype server_output = Handled "HandshakeV2Error + ServerEvent" | Swapped "HandshakeV2Error + unit"

fun server_step :: "primitives \<Rightarrow> server_input \<Rightarrow> ServerHandshake \<Rightarrow> server_output \<times> ServerHandshake" where
  "server_step P (Datagram rnd ck pkt from) s =
     (let (r, s1) = server_handle_datagram P rnd ck pkt from s in (Handled r, s1))"
| "server_step P (SwapRoster roster) s = (let (r, s1) = set_roster roster s in (Swapped r, s1))"

lemma server_new_inv: "server_inv P (server_new now cfg)"
  by (simp add: server_inv_def rate_inv_def pending_inv_def server_new_def Let_def)

lemma server_handle_inv: "server_inv P s \<Longrightarrow> server_inv P (snd (server_handle_datagram P rnd ck pkt from s))"
  by (simp add: server_handle_datagram_def Let_def on_m1_inv on_m3_inv)

lemma set_roster_inv: "server_inv P s \<Longrightarrow> server_inv P (snd (set_roster roster s))"
  by (simp add: set_roster_def server_inv_def rate_inv_def pending_inv_def)

lemma server_step_inv: "server_inv P s \<Longrightarrow> server_inv P (snd (server_step P i s))"
  using server_handle_inv set_roster_inv by (cases i) (simp_all add: case_prod_beta)

interpretation server: step_system "server_step P" "server_inv P" for P
  by unfold_locales (rule server_step_inv)

lemma complete_m1_not_complete:
  "fst (complete_m1 P rnd ck sid m1_bytes from s) \<noteq> Inr (ServerComplete out)"
  by (cases rule: complete_m1_cases [of P rnd ck sid m1_bytes "from" s]) simp_all

lemma on_m1_not_complete: "fst (on_m1_fragment P rnd ck pkt from s0) \<noteq> Inr (ServerComplete out)"
proof (cases rule: on_m1_cases [of P rnd ck pkt "from" s0])
  case (fed frag entry res asm s1)
  show ?thesis
    unfolding fed(7) using complete_m1_not_complete by (cases res) (simp_all split: prod.splits)
qed (simp_all split: sum.splits)

section \<open>What a datagram can touch\<close>

lemma rate_ok_keeps: "rate_ok now from s = (ok, s1) \<Longrightarrow> sv_cfg s1 = sv_cfg s \<and> sv_pending s1 = sv_pending s"
  using rate_ok_frame [of now "from" s] by simp

lemma pending_frame:
  "sv_cfg (pending_remove sid s) = sv_cfg s" "sv_cfg (pending_insert sid e s) = sv_cfg s"
  "map_of (sv_pending (pending_remove sid s)) sid' = (if sid' = sid then None else map_of (sv_pending s) sid')"
  "map_of (sv_pending (pending_insert sid e s)) sid' = (if sid' = sid then Some e else map_of (sv_pending s) sid')"
  by (simp_all add: pending_remove_def pending_insert_def table_simps)

lemma complete_m1_frame:
  "sv_cfg (snd (complete_m1 P rnd ck sid m1_bytes from s)) = sv_cfg s"
  "sid' \<noteq> sid \<Longrightarrow> map_of (sv_pending (snd (complete_m1 P rnd ck sid m1_bytes from s))) sid' = map_of (sv_pending s) sid'"
  by (cases rule: complete_m1_cases [of P rnd ck sid m1_bytes "from" s]; simp add: pending_frame)+

lemma evict_frame: "sv_cfg (evict_expired now s) = sv_cfg s"
  by (simp add: evict_expired_def)

lemma on_m1_frame:
  "sv_cfg (snd (on_m1_fragment P rnd ck pkt from s0)) = sv_cfg s0"
  "from_datagram pkt = Inr frag \<Longrightarrow> sid \<noteq> hf_sid frag \<Longrightarrow>
   map_of (sv_pending (snd (on_m1_fragment P rnd ck pkt from s0))) sid \<in>
     {map_of (sv_pending s0) sid, map_of (sv_pending (evict_expired (ck_evict ck) s0)) sid}"
proof -
  let ?r = "snd (on_m1_fragment P rnd ck pkt from s0)" and ?s = "evict_expired (ck_evict ck) s0"
  have "sv_cfg ?r = sv_cfg s0 \<and> (from_datagram pkt = Inr frag \<longrightarrow> sid \<noteq> hf_sid frag \<longrightarrow>
      map_of (sv_pending ?r) sid \<in> {map_of (sv_pending s0) sid, map_of (sv_pending ?s) sid})"
  proof (cases rule: on_m1_cases [of P rnd ck pkt "from" s0])
    case (fed frag' entry res asm s1)
    obtain ok s2 where r: "rate_ok (ck_rate ck) from s1 = (ok, s2)" by fastforce
    have s1: "sv_cfg s1 = sv_cfg s0" "sid \<noteq> hf_sid frag' \<Longrightarrow> map_of (sv_pending s1) sid = map_of (sv_pending ?s) sid"
      by (simp_all add: fed(6) pending_frame evict_frame)
    have s2: "sv_cfg s2 = sv_cfg s0" "sid \<noteq> hf_sid frag' \<Longrightarrow> map_of (sv_pending s2) sid = map_of (sv_pending ?s) sid"
      using s1 rate_ok_keeps [OF r] by simp_all
    have "sv_cfg ?r = sv_cfg s0 \<and> (sid \<noteq> hf_sid frag' \<longrightarrow> map_of (sv_pending ?r) sid = map_of (sv_pending ?s) sid)"
      unfolding fed(7) using s1 s2 by (cases res; cases ok) (simp_all add: r pending_frame complete_m1_frame)
    then show ?thesis using fed(1) by simp
  qed (auto simp: pending_frame evict_frame dest!: rate_ok_keeps)
  then show "sv_cfg ?r = sv_cfg s0" "from_datagram pkt = Inr frag \<Longrightarrow> sid \<noteq> hf_sid frag \<Longrightarrow>
      map_of (sv_pending ?r) sid \<in> {map_of (sv_pending s0) sid, map_of (sv_pending ?s) sid}" by blast+
qed

lemma on_m3_frame:
  "sv_cfg (snd (on_m3_fragment P ck pkt from s0)) = sv_cfg s0"
  "from_datagram pkt = Inr frag \<Longrightarrow> sid \<noteq> hf_sid frag \<Longrightarrow>
   map_of (sv_pending (snd (on_m3_fragment P ck pkt from s0))) sid \<in>
     {map_of (sv_pending s0) sid, map_of (sv_pending (evict_expired (ck_evict ck) s0)) sid}"
  by (cases rule: on_m3_cases [of P ck pkt "from" s0]; auto simp: pending_frame evict_frame dest!: rate_ok_keeps)+

lemma server_step_cfg:
  "scf_max_pending (sv_cfg (snd (server_step P i s))) = scf_max_pending (sv_cfg s)"
  "scf_pending_ttl (sv_cfg (snd (server_step P i s))) = scf_pending_ttl (sv_cfg s)"
  by (cases i; simp add: server_handle_datagram_def set_roster_def on_m1_frame on_m3_frame Let_def case_prod_beta)+

lemma server_run_cfg:
  "scf_max_pending (sv_cfg (snd (run (server_step P) is s))) = scf_max_pending (sv_cfg s)"
  "scf_pending_ttl (sv_cfg (snd (run (server_step P) is s))) = scf_pending_ttl (sv_cfg s)"
  by (induction "is" arbitrary: s) (simp_all add: server_step_cfg)

section \<open>Properties\<close>

text \<open>C22: whatever datagrams arrive from whatever sources, and however the roster is swapped, the memory
  of the responder stays bounded: at most \<open>max_pending\<close> handshakes and at most 4096 rate buckets,
  with the eviction queue holding exactly the keys of the rate table, each once.\<close>

theorem server_tables_bounded:
  "let s = snd (run (server_step P) is (server_new now cfg)) in
     length (sv_pending s) \<le> scf_max_pending cfg \<and> length (sv_rate_buckets s) \<le> MAX_RATE_BUCKETS \<and>
     synced (sv_rate_buckets s) (sv_rate_order s) \<and> length (sv_rate_order s) = length (sv_rate_buckets s)"
proof -
  let ?s = "snd (run (server_step P) is (server_new now cfg))"
  have inv: "server_inv P ?s" by (rule server.run_inv [OF server_new_inv])
  then have r: "synced (sv_rate_buckets ?s) (sv_rate_order ?s)" "length (sv_rate_buckets ?s) \<le> MAX_RATE_BUCKETS"
    by (simp_all add: server_inv_def rate_inv_def)
  have "scf_max_pending (sv_cfg ?s) = scf_max_pending cfg"
    by (simp add: server_run_cfg server_new_def Let_def)
  then show ?thesis
    using pending_invD(2) [OF server_inv_pending [OF inv]] r synced_length [OF r(1)] by (simp add: Let_def)
qed

text \<open>Expiry is the only way a datagram of another session can affect an entry.\<close>

lemma evict_expired_lookup:
  assumes "server_inv P s"
  shows "map_of (sv_pending (evict_expired now s)) sid =
    (case map_of (sv_pending s) sid of None \<Rightarrow> None
     | Some e \<Rightarrow> if now - pe_last_seen e < scf_pending_ttl (sv_cfg s) then Some e else None)"
  using pending_invD(1) [OF server_inv_pending [OF assms]]
  by (simp add: evict_expired_def map_of_filter split: option.splits)

text \<open>An entry whose assembler is complete while it still awaits the M1.\<close>

definition wedged :: "bytes \<Rightarrow> PendingSession \<Rightarrow> ServerHandshake \<Rightarrow> bool" where
  "wedged sid e s \<longleftrightarrow> map_of (sv_pending s) sid = Some e \<and> pe_state e = AwaitM1 \<and>
     (\<exists>a. pe_assembler e = Some a \<and> fa_complete a)"

lemma wedged_handle:
  assumes inv: "server_inv P s" and w: "wedged sid e s" and t: "ck_evict ck - pe_last_seen e < scf_pending_ttl (sv_cfg s)"
  shows "wedged sid e (snd (server_handle_datagram P rnd ck pkt from s)) \<and>
    (\<forall>frag. from_datagram pkt = Inr frag \<longrightarrow> hf_sid frag = sid \<longrightarrow>
       fst (server_handle_datagram P rnd ck pkt from s) = Inr ServerNone)"
proof -
  let ?s = "evict_expired (ck_evict ck) s"
  have e: "map_of (sv_pending s) sid = Some e" "pe_state e = AwaitM1" using w by (simp_all add: wedged_def)
  obtain a where a: "pe_assembler e = Some a" "fa_complete a" using w by (auto simp: wedged_def)
  have ev: "map_of (sv_pending ?s) sid = Some e" using evict_expired_lookup [OF inv] e(1) t by simp
  have keep: "wedged sid e s1" if "map_of (sv_pending s1) sid = Some e" for s1
    using that e(2) a by (simp add: wedged_def)
  have m1: "map_of (sv_pending (snd (on_m1_fragment P rnd ck pkt from s))) sid = Some e \<and>
      (\<forall>frag. from_datagram pkt = Inr frag \<longrightarrow> hf_sid frag = sid \<longrightarrow> fst (on_m1_fragment P rnd ck pkt from s) = Inr ServerNone)"
  proof (cases "\<exists>frag. from_datagram pkt = Inr frag \<and> hf_sid frag \<noteq> sid")
    case True
    then show ?thesis using on_m1_frame(2) [of pkt _ sid P rnd ck "from" s] e(1) ev by auto
  next
    case same: False
    show ?thesis
    proof (cases rule: on_m1_cases [of P rnd ck pkt "from" s])
      case (fed frag entry res asm s1)
      have "entry = e" "hf_sid frag = sid" using fed(1,2) same ev by auto
      then have "res = Ignored" "asm = a" using fed(5) a by (simp_all add: add_fragment_def)
      moreover have "e\<lparr>pe_assembler := Some a\<rparr> = e" using a(1) by simp
      ultimately show ?thesis using fed \<open>entry = e\<close> \<open>hf_sid frag = sid\<close> by (simp add: pending_frame)
    qed (use same e ev in \<open>auto dest!: rate_ok_keeps\<close>)
  qed
  have m3: "map_of (sv_pending (snd (on_m3_fragment P ck pkt from s))) sid = Some e \<and>
      (\<forall>frag. from_datagram pkt = Inr frag \<longrightarrow> hf_sid frag = sid \<longrightarrow> fst (on_m3_fragment P ck pkt from s) = Inr ServerNone)"
  proof (cases "from_datagram pkt")
    case (Inl x)
    then show ?thesis using e by (simp add: on_m3_fragment_def)
  next
    case (Inr frag)
    show ?thesis
    proof (cases "hf_sid frag = sid")
      case True
      then show ?thesis using Inr ev e(2) by (simp add: on_m3_fragment_def Let_def)
    next
      case False
      then show ?thesis using Inr on_m3_frame(2) [of pkt frag sid P ck "from" s] e(1) ev by auto
    qed
  qed
  show ?thesis using m1 m3 keep e(1) by (auto simp: server_handle_datagram_def Let_def)
qed

lemma wedged_run:
  assumes "server_inv P s" "wedged sid e s"
    and "\<forall>i \<in> set is. \<exists>rnd ck pkt from. i = Datagram rnd ck pkt from \<and> ck_evict ck - pe_last_seen e < scf_pending_ttl (sv_cfg s)"
  shows "wedged sid e (snd (run (server_step P) is s))"
  using assms
proof (induction "is" arbitrary: s)
  case (Cons i "is")
  obtain rnd ck pkt "from" where i: "i = Datagram rnd ck pkt from" "ck_evict ck - pe_last_seen e < scf_pending_ttl (sv_cfg s)"
    using Cons.prems(3) by auto
  from wedged_handle [OF Cons.prems(1,2) i(2)] have "wedged sid e (snd (server_step P i s))"
    by (simp add: i(1) case_prod_beta)
  then show ?case
    using Cons.IH [of "snd (server_step P i s)"] server_step_inv [OF Cons.prems(1), of i] Cons.prems(3)
    by (simp add: server_step_cfg)
qed simp

lemma add_fragment_completed: "add_fragment frag a = (Completed, a1) \<Longrightarrow> fa_complete a1"
  by (auto simp: add_fragment_def Let_def split: if_splits)

text \<open>C33: a handshake whose last M1 fragment arrives while its source is over the rate limit cannot
  recover by retransmission. The fragment is consumed before the budget is checked, so the entry keeps
  a complete assembler that ignores every later fragment: until its TTL runs out the entry is unchanged
  by any sequence of datagrams, and every datagram for the session is answered with nothing.\<close>

theorem refused_completion_wedges:
  assumes "server_inv P s0" "from_datagram pkt = Inr frag"
    and "map_of (sv_pending (evict_expired (ck_evict ck) s0)) (hf_sid frag) = Some entry"
    and "pe_source entry = from" "pe_state entry = AwaitM1"
    and "add_fragment frag (the (pe_assembler entry)) = (Completed, asm)"
    and "rate_ok (ck_rate ck) from
      (pending_insert (hf_sid frag) (entry\<lparr>pe_assembler := Some asm\<rparr>) (evict_expired (ck_evict ck) s0)) = (False, s2)"
    and "\<forall>i \<in> set later. \<exists>rnd ck pkt from. i = Datagram rnd ck pkt from \<and>
      ck_evict ck - pe_last_seen entry < scf_pending_ttl (sv_cfg s0)"
    and "ck_evict ck' - pe_last_seen entry < scf_pending_ttl (sv_cfg s0)"
    and "from_datagram pkt' = Inr frag'" "hf_sid frag' = hf_sid frag"
  shows "on_m1_fragment P rnd ck pkt from s0 = (Inr ServerNone, s2) \<and>
    map_of (sv_pending (snd (run (server_step P) later s2))) (hf_sid frag) = Some (entry\<lparr>pe_assembler := Some asm\<rparr>) \<and>
    fst (server_step P (Datagram rnd' ck' pkt' from') (snd (run (server_step P) later s2))) = Handled (Inr ServerNone)"
proof -
  have step: "on_m1_fragment P rnd ck pkt from s0 = (Inr ServerNone, s2)"
    using assms(2-7) by (simp add: on_m1_fragment_def Let_def)
  let ?e = "entry\<lparr>pe_assembler := Some asm\<rparr>" and ?s = "snd (run (server_step P) later s2)"
  have inv2: "server_inv P s2" using on_m1_inv [OF assms(1), of rnd ck pkt "from"] step by simp
  have s2: "sv_cfg s2 = sv_cfg s0" "map_of (sv_pending s2) (hf_sid frag) = Some ?e"
    using rate_ok_keeps [OF assms(7)] by (simp_all add: pending_frame evict_frame)
  have w: "wedged (hf_sid frag) ?e s2"
    using s2(2) assms(5) add_fragment_completed [OF assms(6)] by (simp add: wedged_def)
  have wr: "wedged (hf_sid frag) ?e ?s" by (rule wedged_run [OF inv2 w]) (use assms(8) s2 in simp)
  have inv: "server_inv P ?s" by (rule server.run_inv [OF inv2])
  have "ck_evict ck' - pe_last_seen ?e < scf_pending_ttl (sv_cfg ?s)"
    using assms(9) s2(1) by (simp add: server_run_cfg)
  from wedged_handle [OF inv wr this] show ?thesis
    using step wr assms(10,11) by (auto simp: wedged_def case_prod_beta)
qed

theorem refused_completion_wedges_witness:
  "\<exists>s0 s2 pkt frag entry asm. \<exists>ck :: Clock. \<exists>src rnd. server_inv demo s0 \<and> from_datagram pkt = Inr frag \<and>
     on_m1_fragment demo rnd ck pkt src s0 = (Inr ServerNone, s2) \<and>
     add_fragment frag (the (pe_assembler entry)) = (Completed, asm) \<and>
     map_of (sv_pending (snd (run (server_step demo) [Datagram rnd ck pkt src] s2))) (hf_sid frag) =
       Some (entry\<lparr>pe_assembler := Some asm\<rparr>) \<and>
     fst (server_step demo (Datagram rnd ck pkt src) (snd (run (server_step demo) [Datagram rnd ck pkt src] s2))) =
       Handled (Inr ServerNone)"
proof -
  let ?sid = "replicate 8 (1 :: byte)" and ?src = "SocketAddrV4 [10, 0, 0, 2] 5000"
  let ?msg = "replicate M1_BODY_LEN (7 :: byte)"
  let ?ck = "\<lparr>ck_evict = 0, ck_rate = 0, ck_stamp = 0\<rparr>"
  let ?rnd = "\<lparr>sd_kem_seed = [], sd_x_seed = [], sd_encaps = []\<rparr>"
  let ?a = "\<lparr>fa_hs_type = HS_TYPE_CLIENT_HELLO, fa_total = M1_FRAG_COUNT, fa_received = [True, True, True, False, False],
    fa_buffer = replicate M1_BODY_LEN 0, fa_complete = False\<rparr>"
  let ?e = "pending_new ?src 0 ?a"
  let ?s0 = "\<lparr>sv_cfg = server_config_new [] [], sv_pending = [(?sid, ?e)],
    sv_rate_buckets = [(?src, \<lparr>rb_tokens = 0, rb_last_refill = 0\<rparr>)], sv_rate_order = [?src], sv_last_rate_prune = 0\<rparr>"
  let ?pkt = "WirePacket (hs_datagram HS_TYPE_CLIENT_HELLO PROTOCOL_VERSION ?sid ?msg M1_FRAG_COUNT 3)"
  let ?frag = "hs_fragment HS_TYPE_CLIENT_HELLO ?sid ?msg M1_FRAG_COUNT 3"
  let ?b = "copy_at 3804 (hf_body ?frag) (replicate M1_BODY_LEN 0)"
  let ?asm = "?a\<lparr>fa_received := [True, True, True, True, False], fa_buffer := ?b, fa_complete := True\<rparr>"
  have cfg: "scf_pending_ttl (server_config_new [] []) = from_secs 30" "scf_max_pending (server_config_new [] []) = 64"
    "scf_rate_limit_window (server_config_new [] []) = from_secs 10"
    by (simp_all add: server_config_new_def with_roster_limit_def Let_def)
  have sh: "hs_shape HS_TYPE_CLIENT_HELLO M1_FRAG_COUNT ?msg"
    by (simp add: hs_shape_def expected_frag_count_def message_body_len_def)
  have frag: "from_datagram ?pkt = Inr ?frag" by (rule from_datagram_fragment [OF sh]) (simp_all add: M1_FRAG_COUNT_def)
  have sid: "hf_sid ?frag = ?sid" by (simp add: hs_fragment_def)
  have "\<not> (\<forall>i < 4. [True, True, True, False, False] ! i)" by (intro notI) (drule spec [of _ 3], simp)
  then have "assembler_inv ?a"
    by (simp add: assembler_inv_def expected_frag_count_def message_body_len_def M1_FRAG_COUNT_def)
  then have "entry_ok demo ?sid ?e" by (simp add: entry_ok_def pending_new_def)
  then have inv: "server_inv demo ?s0"
    by (simp add: server_inv_def rate_inv_def pending_inv_def synced_def table_ok_def contains_key_def cfg MAX_RATE_BUCKETS_def)
  have live: "0 - pe_last_seen ?e < from_secs 30" by (simp add: pending_new_def from_secs_def)
  then have look: "evict_expired 0 ?s0 = ?s0" by (simp add: evict_expired_def cfg)
  have e: "pe_source ?e = ?src" "pe_state ?e = AwaitM1" "pe_assembler ?e = Some ?a" by (simp_all add: pending_new_def)
  have upd: "[True, True, True, False, False][3 := True] = [True, True, True, True, False]" by (simp add: numeral_3_eq_3)
  have add: "add_fragment ?frag ?a = (Completed, ?asm)"
    by (simp add: add_fragment_def hs_fragment_def M1_FRAG_COUNT_def hs_values length_block upd Let_def)
  let ?s2 = "pending_insert ?sid (?e\<lparr>pe_assembler := Some ?asm\<rparr>) ?s0"
  have rate: "rate_ok 0 ?src ?s2 = (False, ?s2)"
    by (simp add: rate_ok_def rate_prune_def pending_insert_def cfg from_secs_def Let_def)
  have "map_of (sv_pending (evict_expired (ck_evict ?ck) ?s0)) (hf_sid ?frag) = Some ?e" by (simp add: look sid)
  moreover have "rate_ok (ck_rate ?ck) ?src (pending_insert (hf_sid ?frag) (?e\<lparr>pe_assembler := Some ?asm\<rparr>)
      (evict_expired (ck_evict ?ck) ?s0)) = (False, ?s2)" using rate by (simp add: look sid)
  ultimately show ?thesis
    using refused_completion_wedges [OF inv frag _ e(1,2), of ?ck ?asm ?s2 "[Datagram ?rnd ?ck ?pkt ?src]" ?ck ?pkt ?frag ?rnd ?rnd ?src]
      add frag live e inv cfg
    by (intro exI [of _ ?s0] exI [of _ ?s2] exI [of _ ?pkt] exI [of _ ?frag] exI [of _ ?e] exI [of _ ?asm] exI [of _ ?ck]
        exI [of _ ?src] exI [of _ ?rnd]) simp
qed

end
