(* ===== verification/Handshake_Agreement.thy ===== *)
theory Handshake_Agreement
  imports Handshake_Client Handshake_Server
begin

text \<open>
  The two handshake machines together: an honest client and an honest server that exchange the
  datagrams of M1, M2 and M3 end with the same session keys, and neither completes without the
  other's signature. The lemmas follow the flights: the server collects M1, answers with M2, the
  client collects M2 and answers with M3, the server completes.
\<close>

section \<open>Rate allowance\<close>

text \<open>The source can be charged \<open>k\<close> more times.\<close>

definition allowance :: "SocketAddr \<Rightarrow> nat \<Rightarrow> ServerHandshake \<Rightarrow> bool" where
  "allowance from k s \<longleftrightarrow> k \<le> unat (scf_rate_limit_burst (sv_cfg s)) \<and>
     (\<forall>b. map_of (sv_rate_buckets s) from = Some b \<longrightarrow> k \<le> unat (rb_tokens b))"

lemma unat_pred: "Suc k \<le> unat n \<Longrightarrow> n \<noteq> 0 \<and> k \<le> unat (n - 1 :: u32)"
proof -
  assume a: "Suc k \<le> unat n"
  then have "n \<noteq> 0" by auto
  moreover from this have "unat (n - 1) = unat n - 1" by (rule unat_minus_one)
  ultimately show ?thesis using a by simp
qed

lemma rate_ok_allowance:
  assumes inv: "rate_inv s" and al: "allowance from (Suc k) s" and r: "rate_ok now from s = (ok, s1)"
  shows "ok" "allowance from k s1"
proof -
  let ?s = "rate_prune now s"
  have cfg: "sv_cfg s1 = sv_cfg s" using rate_ok_keeps [OF r] by simp
  have ok: "table_ok (sv_rate_buckets s)" using inv by (simp add: rate_inv_def synced_def)
  have look: "map_of (sv_rate_buckets ?s) from \<in> {None, map_of (sv_rate_buckets s) from}"
    using ok by (auto simp: rate_prune_def Let_def map_of_filter split: option.splits)
  note burst = unat_pred [of k "scf_rate_limit_burst (sv_cfg s)"]
  have "ok \<and> allowance from k s1"
  proof (cases "map_of (sv_rate_buckets ?s) from")
    case None
    then show ?thesis
      using r al burst cfg
      by (auto simp: rate_ok_def Let_def allowance_def rate_prune_frame table_simps word_neq_0_conv split: prod.splits)
  next
    case (Some b)
    then have "map_of (sv_rate_buckets s) from = Some b" using look by auto
    then have t: "Suc k \<le> unat (rb_tokens b)" using al by (simp add: allowance_def)
    show ?thesis
      using Some r al burst cfg unat_pred [OF t]
      by (auto simp: rate_ok_def Let_def allowance_def rate_prune_frame table_simps split: if_splits)
  qed
  then show "ok" "allowance from k s1" by simp_all
qed

lemma allowance_frame:
  "allowance from k (pending_insert sid e s) = allowance from k s"
  "allowance from k (pending_remove sid s) = allowance from k s"
  "allowance from k (evict_expired now s) = allowance from k s"
  by (simp_all add: allowance_def pending_insert_def pending_remove_def evict_expired_def)

section \<open>Flight 1: the server collects M1\<close>

text \<open>A clock reading that keeps entries stamped at \<open>t0\<close> or later alive.\<close>

definition live :: "instant \<Rightarrow> ServerHandshake \<Rightarrow> Clock \<Rightarrow> bool" where
  "live t0 s ck \<longleftrightarrow> t0 \<le> ck_stamp ck \<and> ck_evict ck - t0 < scf_pending_ttl (sv_cfg s)"

definition collecting :: "bytes \<Rightarrow> SocketAddr \<Rightarrow> instant \<Rightarrow> bytes \<Rightarrow> nat set \<Rightarrow> ServerHandshake \<Rightarrow> bool" where
  "collecting sid from t0 msg S s \<longleftrightarrow>
     (\<exists>e a. map_of (sv_pending s) sid = Some e \<and> pe_source e = from \<and> pe_state e = AwaitM1 \<and>
        pe_assembler e = Some a \<and> assembling HS_TYPE_CLIENT_HELLO M1_FRAG_COUNT msg S a \<and> t0 \<le> pe_last_seen e)"

lemma hs_packet_type: "length sid = 8 \<Longrightarrow> as_bytes (hs_packet t sid msg n i) ! (VERSION_LEN + SESSION_ID_LEN) = t"
  by (simp add: hs_packet_def hs_datagram_eq layout_simps nth_append)

lemma hs_packet_parse:
  assumes "hs_shape t n msg" "length sid = 8" "i < unat n"
  shows "from_datagram (hs_packet t sid msg n i) = Inr (hs_fragment t sid msg n i)"
  using from_datagram_fragment [OF assms] by (simp add: hs_packet_def)

lemma hs_fragment_fields: "hf_sid (hs_fragment t sid msg n i) = sid" "hf_frag_idx (hs_fragment t sid msg n i) = of_nat i"
  by (simp_all add: hs_fragment_def)

lemma still_live:
  assumes "server_inv P s" "map_of (sv_pending s) sid = Some e" "t0 \<le> pe_last_seen e" "live t0 s ck"
  shows "map_of (sv_pending (evict_expired (ck_evict ck) s)) sid = Some e"
proof -
  have "ck_evict ck - pe_last_seen e < scf_pending_ttl (sv_cfg s)" using assms(3,4) unfolding live_def by linarith
  then show ?thesis using assms(2) by (simp add: evict_expired_lookup [OF assms(1)])
qed

lemma m1_opens:
  assumes inv: "server_inv P s" and len: "length msg = M1_BODY_LEN" and sid: "length sid = 8"
    and free: "map_of (sv_pending s) sid = None" and room: "length (sv_pending s) < scf_max_pending (sv_cfg s)"
    and al: "allowance from (Suc k) s" and lv: "live t0 s ck"
  obtains s1 where "server_step P (Datagram rnd ck (hs_packet HS_TYPE_CLIENT_HELLO sid msg M1_FRAG_COUNT 0) from) s =
      (Handled (Inr ServerNone), s1)" "collecting sid from t0 msg {0} s1" "allowance from k s1" "sv_cfg s1 = sv_cfg s"
proof -
  let ?pkt = "hs_packet HS_TYPE_CLIENT_HELLO sid msg M1_FRAG_COUNT 0" and ?s = "evict_expired (ck_evict ck) s"
  let ?frag = "hs_fragment HS_TYPE_CLIENT_HELLO sid msg M1_FRAG_COUNT 0"
  note sh = hs_shape_m1 [OF len]
  have frag: "from_datagram ?pkt = Inr ?frag" by (rule hs_packet_parse [OF sh sid]) (simp add: M1_FRAG_COUNT_def)
  obtain ok s1 where r: "rate_ok (ck_rate ck) from ?s = (ok, s1)" by fastforce
  have ev: "server_inv P ?s" by (rule evict_expired_inv [OF inv])
  have ri: "rate_inv ?s" using ev by (simp add: server_inv_def)
  have al': "allowance from (Suc k) ?s" using al by (simp add: allowance_frame)
  note a1 = rate_ok_allowance [OF ri al' r]
  have keep: "sv_cfg s1 = sv_cfg s" "sv_pending s1 = sv_pending ?s"
    using rate_ok_keeps [OF r] by (simp_all add: evict_frame)
  have none: "map_of (sv_pending ?s) sid = None" using free by (simp add: evict_expired_lookup [OF inv])
  have rm: "length (sv_pending s1) < scf_max_pending (sv_cfg s1)"
    using room keep le_less_trans [OF length_filter_le] by (simp add: evict_expired_def)
  obtain a where a: "assembler_new HS_TYPE_CLIENT_HELLO = Some a" "assembling HS_TYPE_CLIENT_HELLO M1_FRAG_COUNT msg {} a"
    by (rule assembling_new [OF sh])
  let ?a1 = "snd (add_fragment ?frag a)"
  let ?s2 = "pending_insert sid (pending_new from (ck_stamp ck) ?a1) s1"
  have "assembling HS_TYPE_CLIENT_HELLO M1_FRAG_COUNT msg {0} ?a1"
    using assembling_step(1) [OF sh a(2), of 0 sid] by (simp add: M1_FRAG_COUNT_def)
  then have "collecting sid from t0 msg {0} ?s2"
    using lv by (auto simp: collecting_def pending_frame pending_new_def live_def)
  moreover have "server_step P (Datagram rnd ck ?pkt from) s = (Handled (Inr ServerNone), ?s2)"
    using frag none r a1(1) rm a(1) hs_packet_type [OF sid]
    by (simp add: server_handle_datagram_def on_m1_fragment_def Let_def hs_fragment_fields)
  ultimately show thesis using that a1(2) keep(1) by (simp add: allowance_frame pending_frame)
qed

lemma m1_collects:
  assumes inv: "server_inv P s" and len: "length msg = M1_BODY_LEN" and sid: "length sid = 8"
    and col: "collecting sid from t0 msg S s" and al: "allowance from k s" and lv: "live t0 s ck"
    and i: "i < unat M1_FRAG_COUNT" and more: "\<not> {..<unat M1_FRAG_COUNT} \<subseteq> insert i S"
  obtains s1 where "server_step P (Datagram rnd ck (hs_packet HS_TYPE_CLIENT_HELLO sid msg M1_FRAG_COUNT i) from) s =
      (Handled (Inr ServerNone), s1)" "collecting sid from t0 msg (insert i S) s1" "allowance from k s1" "sv_cfg s1 = sv_cfg s"
proof -
  let ?pkt = "hs_packet HS_TYPE_CLIENT_HELLO sid msg M1_FRAG_COUNT i" and ?s = "evict_expired (ck_evict ck) s"
  let ?frag = "hs_fragment HS_TYPE_CLIENT_HELLO sid msg M1_FRAG_COUNT i"
  note sh = hs_shape_m1 [OF len]
  have frag: "from_datagram ?pkt = Inr ?frag" by (rule hs_packet_parse [OF sh sid i])
  obtain e a where e: "map_of (sv_pending s) sid = Some e" "pe_source e = from" "pe_state e = AwaitM1"
    "pe_assembler e = Some a" "assembling HS_TYPE_CLIENT_HELLO M1_FRAG_COUNT msg S a" "t0 \<le> pe_last_seen e"
    using col unfolding collecting_def by blast
  have e1: "map_of (sv_pending ?s) sid = Some e" by (rule still_live [OF inv e(1,6) lv])
  obtain res a1 where add: "add_fragment ?frag a = (res, a1)" by fastforce
  have st: "assembling HS_TYPE_CLIENT_HELLO M1_FRAG_COUNT msg (insert i S) a1" "res \<noteq> Completed"
    using assembling_step [OF sh e(5) i, of sid] add more by (auto split: if_splits)
  let ?e1 = "e\<lparr>pe_assembler := Some a1\<rparr>"
  let ?s1 = "pending_insert sid ?e1 ?s"
  define s2 where "s2 = (if res = Advanced then pending_insert sid (?e1\<lparr>pe_last_seen := ck_stamp ck\<rparr>) ?s1 else ?s1)"
  have "server_step P (Datagram rnd ck ?pkt from) s = (Handled (Inr ServerNone), s2)"
    using frag e1 e(2-4) add st(2) hs_packet_type [OF sid]
    by (cases res) (simp_all add: server_handle_datagram_def on_m1_fragment_def Let_def hs_fragment_fields s2_def)
  moreover have "collecting sid from t0 msg (insert i S) s2"
    using e st lv by (auto simp: collecting_def s2_def pending_frame live_def)
  ultimately show thesis using that al by (simp add: s2_def allowance_frame pending_frame evict_frame)
qed

lemma m1_collects_run:
  assumes "server_inv P s" "length msg = M1_BODY_LEN" "length sid = 8" "collecting sid from t0 msg S s" "allowance from k s"
    and "\<forall>(rnd, ck, i) \<in> set xs. live t0 s ck \<and> i < unat M1_FRAG_COUNT"
    and "\<not> {..<unat M1_FRAG_COUNT} \<subseteq> S \<union> (snd \<circ> snd) ` set xs"
  shows "\<exists>s1. run (server_step P) (map (\<lambda>(rnd, ck, i). Datagram rnd ck (hs_packet HS_TYPE_CLIENT_HELLO sid msg M1_FRAG_COUNT i) from) xs) s =
      (replicate (length xs) (Handled (Inr ServerNone)), s1) \<and>
    collecting sid from t0 msg (S \<union> (snd \<circ> snd) ` set xs) s1 \<and> allowance from k s1 \<and> sv_cfg s1 = sv_cfg s \<and> server_inv P s1"
  using assms(1,4-7)
proof (induction xs arbitrary: s S)
  case Nil
  then show ?case by simp
next
  case (Cons x xs)
  obtain rnd ck i where x: "x = (rnd, ck, i)" by (metis prod_cases3)
  have lv: "live t0 s ck" "i < unat M1_FRAG_COUNT" using Cons.prems(4) x by auto
  have "\<not> {..<unat M1_FRAG_COUNT} \<subseteq> insert i S" using Cons.prems(5) x by auto
  then obtain s1 where s1: "server_step P (Datagram rnd ck (hs_packet HS_TYPE_CLIENT_HELLO sid msg M1_FRAG_COUNT i) from) s =
      (Handled (Inr ServerNone), s1)" "collecting sid from t0 msg (insert i S) s1" "allowance from k s1" "sv_cfg s1 = sv_cfg s"
    using m1_collects [OF Cons.prems(1) assms(2,3) Cons.prems(2,3) lv, of rnd] by blast
  have inv1: "server_inv P s1"
    using server_step_inv [OF Cons.prems(1), of "Datagram rnd ck (hs_packet HS_TYPE_CLIENT_HELLO sid msg M1_FRAG_COUNT i) from"] s1(1)
    by simp
  have "\<forall>(rnd, ck, i) \<in> set xs. live t0 s1 ck \<and> i < unat M1_FRAG_COUNT" using Cons.prems(4) s1(4) by (auto simp: live_def)
  moreover have "\<not> {..<unat M1_FRAG_COUNT} \<subseteq> insert i S \<union> (snd \<circ> snd) ` set xs" using Cons.prems(5) x by auto
  ultimately show ?case using Cons.IH [OF inv1 s1(2,3)] s1(1,4) x by auto
qed

lemma m1_completes:
  assumes inv: "server_inv P s" and len: "length msg = M1_BODY_LEN" and sid: "length sid = 8"
    and col: "collecting sid from t0 msg S s" and al: "allowance from (Suc k) s" and lv: "live t0 s ck"
    and i: "i < unat M1_FRAG_COUNT" "i \<notin> S" "{..<unat M1_FRAG_COUNT} \<subseteq> insert i S"
  obtains e s2 where "server_step P (Datagram rnd ck (hs_packet HS_TYPE_CLIENT_HELLO sid msg M1_FRAG_COUNT i) from) s =
      (let (r, s3) = complete_m1 P rnd ck sid msg from s2 in (Handled r, s3))" "map_of (sv_pending s2) sid = Some e"
    "pe_source e = from" "allowance from k s2" "sv_cfg s2 = sv_cfg s"
proof -
  let ?pkt = "hs_packet HS_TYPE_CLIENT_HELLO sid msg M1_FRAG_COUNT i" and ?s = "evict_expired (ck_evict ck) s"
  let ?frag = "hs_fragment HS_TYPE_CLIENT_HELLO sid msg M1_FRAG_COUNT i"
  note sh = hs_shape_m1 [OF len]
  have frag: "from_datagram ?pkt = Inr ?frag" by (rule hs_packet_parse [OF sh sid i(1)])
  obtain e a where e: "map_of (sv_pending s) sid = Some e" "pe_source e = from" "pe_state e = AwaitM1"
    "pe_assembler e = Some a" "assembling HS_TYPE_CLIENT_HELLO M1_FRAG_COUNT msg S a" "t0 \<le> pe_last_seen e"
    using col unfolding collecting_def by blast
  have e1: "map_of (sv_pending ?s) sid = Some e" by (rule still_live [OF inv e(1,6) lv])
  obtain res a1 where add: "add_fragment ?frag a = (res, a1)" by fastforce
  have st: "assembling HS_TYPE_CLIENT_HELLO M1_FRAG_COUNT msg (insert i S) a1" "res = Completed"
    using assembling_step [OF sh e(5) i(1), of sid] add i(1) i(2,3) by auto
  have msg: "assembled_message a1 = Some msg" using assembling_message [OF sh st(1)] i(3) by simp
  let ?s1 = "pending_insert sid (e\<lparr>pe_assembler := Some a1\<rparr>) ?s"
  obtain ok s2 where r: "rate_ok (ck_rate ck) from ?s1 = (ok, s2)" by fastforce
  have ri: "rate_inv ?s1" using evict_expired_inv [OF inv, of "ck_evict ck"] by (simp add: server_inv_def rate_inv_def pending_insert_def)
  have "allowance from (Suc k) ?s1" using al by (simp add: allowance_frame)
  note a1 = rate_ok_allowance [OF ri this r]
  note keep = rate_ok_keeps [OF r]
  have "server_step P (Datagram rnd ck ?pkt from) s = (let (r, s3) = complete_m1 P rnd ck sid msg from s2 in (Handled r, s3))"
    using frag e1 e(2-4) add st(2) r a1(1) msg hs_packet_type [OF sid]
    by (simp add: server_handle_datagram_def on_m1_fragment_def Let_def hs_fragment_fields)
  then show thesis
    by (rule that [of s2 "e\<lparr>pe_assembler := Some a1\<rparr>"]) (use keep e(2) a1(2) in \<open>simp_all add: pending_frame evict_frame\<close>)
qed

section \<open>Flight 2: the server answers with M2\<close>

definition server_ready :: "primitives \<Rightarrow> ServerConfig \<Rightarrow> ServerDraws \<Rightarrow> bool" where
  "server_ready P cfg rnd \<longleftrightarrow> scf_version cfg = PROTOCOL_VERSION \<and> length (scf_identity cfg) = 32 \<and>
     length (sd_kem_seed rnd) = 64 \<and> length (sd_x_seed rnd) = 32 \<and> length (sd_encaps rnd) = 32"

text \<open>The ServerHello a server signs in answer to an M1.\<close>

definition reply_of :: "primitives \<Rightarrow> ServerConfig \<Rightarrow> ServerDraws \<Rightarrow> ClientHello \<Rightarrow> ServerHello" where
  "reply_of P cfg rnd m1 =
     (let ek = mlkem_ek_of P (sd_kem_seed rnd); x = x25519_pk_of P (sd_x_seed rnd);
          ct2 = fst (mlkem_encaps P (ch_eph_pk_c m1) (sd_encaps rnd))
      in \<lparr>sh_version = scf_version cfg, sh_sid = ch_sid m1, sh_eph_pk_s = ek, sh_x_s = x, sh_ct2 = ct2,
          sh_server_sig = mldsa_sign P (scf_identity cfg)
            (the (th2_from_m1_m2 P (client_hello_encode m1) (encode_m2 (scf_version cfg) (ch_sid m1) ek x ct2 None)))\<rparr>)"

lemma reply_of_wf:
  assumes "client_ready P ccfg sid ks xs" "server_ready P cfg rnd"
  defines "m1 \<equiv> hello_of P ccfg sid ks xs"
  shows "server_hello_wf P (reply_of P cfg rnd m1)"
    "mldsa_verify P (mldsa_vk_of P (scf_identity cfg))
       (the (th2_from_m1_m2 P (client_hello_encode m1) (server_hello_encode (reply_of P cfg rnd m1))))
       (sh_server_sig (reply_of P cfg rnd m1))"
proof -
  note C = assms(1) [unfolded client_ready_def] and S = assms(2) [unfolded server_ready_def]
  have m1: "client_hello_wf P m1" unfolding m1_def by (rule hello_of_wf(1) [OF assms(1)])
  have ks: "ch_eph_pk_c m1 = mlkem_ek_of P ks" "ch_sid m1 = sid" by (simp_all add: m1_def hello_of_def)
  have k: "length (mlkem_ek_of P (sd_kem_seed rnd)) = 1184" "mlkem_ek_ok P (mlkem_ek_of P (sd_kem_seed rnd))"
    using kem_correctD(1,2) [of P "sd_kem_seed rnd" "sd_encaps rnd"] C S by simp_all
  have ct: "length (fst (mlkem_encaps P (ch_eph_pk_c m1) (sd_encaps rnd))) = 1088"
    using kem_correctD(3) [of P ks "sd_encaps rnd"] C S ks by simp
  have x: "length (x25519_pk_of P (sd_x_seed rnd)) = 32" using C S unfolding x25519_correct_def by blast
  have d: "length (mldsa_sign P (scf_identity cfg) msg) = 3309" "mldsa_sig_ok P (mldsa_sign P (scf_identity cfg) msg)"
    "mldsa_verify P (mldsa_vk_of P (scf_identity cfg)) msg (mldsa_sign P (scf_identity cfg) msg)" for msg
    using C S unfolding dsa_correct_def by blast+
  show wf: "server_hello_wf P (reply_of P cfg rnd m1)"
    using S C ks k ct x d by (simp add: server_hello_wf_def reply_of_def Let_def layout_simps)
  show "mldsa_verify P (mldsa_vk_of P (scf_identity cfg))
       (the (th2_from_m1_m2 P (client_hello_encode m1) (server_hello_encode (reply_of P cfg rnd m1))))
       (sh_server_sig (reply_of P cfg rnd m1))"
    using th2_eq [OF m1 wf] d(3) by (simp add: reply_of_def pre_m2_def Let_def)
qed

lemma complete_m1_honest:
  assumes cr: "client_ready P ccfg sid ks xs" and sr: "server_ready P (sv_cfg s) rnd"
    and roster: "mldsa_vk_of P (ccf_identity ccfg) \<in> set (scf_roster (sv_cfg s))"
    and e: "map_of (sv_pending s) sid = Some e"
  defines "m1 \<equiv> hello_of P ccfg sid ks xs"
  defines "m2 \<equiv> server_hello_encode (reply_of P (sv_cfg s) rnd m1)"
  obtains pk s1 where
    "complete_m1 P rnd ck sid (client_hello_encode m1) from s =
       (Inr (ServerEmit (map (hs_packet HS_TYPE_SERVER_HELLO sid m2 M2_FRAG_COUNT) [0..<unat M2_FRAG_COUNT]) from), s1)"
    "pk \<in> set (scf_roster (sv_cfg s))" "mldsa_verify P pk (the (th1_from_m1 P (client_hello_encode m1))) (ch_client_sig m1)"
    "s1 = pending_insert sid (e\<lparr>pe_state := AwaitM3, pe_m1_body := Some (client_hello_encode m1), pe_m2_cache := Some m2,
        pe_ss_a := snd (mlkem_encaps P (mlkem_ek_of P ks) (sd_encaps rnd)),
        pe_dh_cs := x25519_dh P (sd_x_seed rnd) (x25519_pk_of P xs),
        pe_sk_s := Some (sd_kem_seed rnd), pe_verified_client := Some pk, pe_assembler := None,
        pe_last_seen := ck_stamp ck\<rparr>) (pending_remove sid s)"
proof -
  note C = cr [unfolded client_ready_def] and S = sr [unfolded server_ready_def]
  let ?cfg = "sv_cfg s"
  have wf: "client_hello_wf P m1" unfolding m1_def by (rule hello_of_wf(1) [OF cr])
  have f: "ch_version m1 = PROTOCOL_VERSION" "ch_sid m1 = sid" "ch_eph_pk_c m1 = mlkem_ek_of P ks"
    "ch_x_c m1 = x25519_pk_of P xs" using C by (simp_all add: m1_def hello_of_def)
  have dec: "client_hello_decode P (client_hello_encode m1) = Inr m1" by (rule client_hello_decode_encode [OF wf])
  let ?d = "the (th1_from_m1 P (client_hello_encode m1))"
  have ver: "\<exists>pk \<in> set (scf_roster ?cfg). mldsa_verify P pk ?d (ch_client_sig m1)"
    using roster hello_of_wf(2) [OF cr] unfolding m1_def by blast
  then obtain matched where sc: "roster_scan P ?d (ch_client_sig m1) (scf_roster ?cfg) (False, None) = Inr (True, matched)"
    by (simp add: roster_scan_eq)
  then obtain pk where pk: "matched = Some pk" "pk \<in> set (scf_roster ?cfg)" "mldsa_verify P pk ?d (ch_client_sig m1)"
    by (rule roster_scan_matched)
  obtain ct2 ss_a where en: "mlkem_encaps P (mlkem_ek_of P ks) (sd_encaps rnd) = (ct2, ss_a)" by fastforce
  have dh: "diffie_hellman P (sd_x_seed rnd) (x25519_pk_of P xs) = Some (x25519_dh P (sd_x_seed rnd) (x25519_pk_of P xs))"
    using C S unfolding x25519_correct_def by (simp add: diffie_hellman_def)
  have wf2: "server_hello_wf P (reply_of P ?cfg rnd m1)" unfolding m1_def by (rule reply_of_wf(1) [OF cr sr])
  have fr: "fragment_message HS_TYPE_SERVER_HELLO PROTOCOL_VERSION sid m2 =
      Inr (map (hs_packet HS_TYPE_SERVER_HELLO sid m2 M2_FRAG_COUNT) [0..<unat M2_FRAG_COUNT])"
    using fragment_message_ok [OF hs_shape_m2 [OF server_hello_length [OF wf2]]] by (simp add: m2_def hs_packet_def)
  have m2: "server_hello_encode \<lparr>sh_version = PROTOCOL_VERSION, sh_sid = sid, sh_eph_pk_s = mlkem_ek_of P (sd_kem_seed rnd),
      sh_x_s = x25519_pk_of P (sd_x_seed rnd), sh_ct2 = ct2,
      sh_server_sig = mldsa_sign P (scf_identity ?cfg) (the (th2_from_m1_m2 P (client_hello_encode m1)
        (encode_m2 PROTOCOL_VERSION sid (mlkem_ek_of P (sd_kem_seed rnd)) (x25519_pk_of P (sd_x_seed rnd)) ct2 None)))\<rparr> = m2"
    using S f en by (simp add: m2_def reply_of_def Let_def)
  show thesis
    by (rule that [OF _ pk(2,3) refl])
      (use dec f S sc pk(1) en dh fr e in \<open>simp add: complete_m1_def kem_generate_def x25519_generate_def
         encapsulate_def dsa_sign_def Let_def m2\<close>)
qed

section \<open>Flight 3: the client collects M2 and confirms\<close>

definition client_collecting :: "bytes \<Rightarrow> nat set \<Rightarrow> ClientHandshake \<Rightarrow> bool" where
  "client_collecting msg S h \<longleftrightarrow>
     (\<exists>a n d. ch_state h = AwaitM2 a n d \<and> assembling HS_TYPE_SERVER_HELLO M2_FRAG_COUNT msg S a)"

lemma m2_step:
  assumes len: "length msg = M2_BODY_LEN" and sid: "length sid = 8" "ch_session h = sid"
    and col: "client_collecting msg S h" and i: "i < unat M2_FRAG_COUNT"
  obtains st where "client_collecting msg (insert i S) (h\<lparr>ch_state := st\<rparr>)"
    "client_step P (ClientDatagram rnd jit (hs_packet HS_TYPE_SERVER_HELLO sid msg M2_FRAG_COUNT i)) h =
       (if i \<notin> S \<and> {..<unat M2_FRAG_COUNT} \<subseteq> insert i S
        then on_complete_m2 P rnd jit msg (h\<lparr>ch_state := st\<rparr>) else (Inr ClientNone, h\<lparr>ch_state := st\<rparr>))"
proof -
  let ?pkt = "hs_packet HS_TYPE_SERVER_HELLO sid msg M2_FRAG_COUNT i"
  let ?frag = "hs_fragment HS_TYPE_SERVER_HELLO sid msg M2_FRAG_COUNT i"
  note sh = hs_shape_m2 [OF len]
  have frag: "from_datagram ?pkt = Inr ?frag" by (rule hs_packet_parse [OF sh sid(1) i])
  obtain a n d where a: "ch_state h = AwaitM2 a n d" "assembling HS_TYPE_SERVER_HELLO M2_FRAG_COUNT msg S a"
    using col unfolding client_collecting_def by blast
  obtain res a1 where add: "add_fragment ?frag a = (res, a1)" by fastforce
  have st: "assembling HS_TYPE_SERVER_HELLO M2_FRAG_COUNT msg (insert i S) a1"
    "res = Completed \<longleftrightarrow> i \<notin> S \<and> {..<unat M2_FRAG_COUNT} \<subseteq> insert i S"
    using assembling_step [OF sh a(2) i, of sid] add i by (auto split: if_splits)
  have msg: "assembled_message a1 = Some msg" if "res = Completed"
    using assembling_message [OF sh st(1)] st(2) that by simp
  show thesis
  proof (rule that [of "AwaitM2 a1 n d"])
    show "client_collecting msg (insert i S) (h\<lparr>ch_state := AwaitM2 a1 n d\<rparr>)" using st(1) by (simp add: client_collecting_def)
    show "client_step P (ClientDatagram rnd jit ?pkt) h =
       (if i \<notin> S \<and> {..<unat M2_FRAG_COUNT} \<subseteq> insert i S
        then on_complete_m2 P rnd jit msg (h\<lparr>ch_state := AwaitM2 a1 n d\<rparr>) else (Inr ClientNone, h\<lparr>ch_state := AwaitM2 a1 n d\<rparr>))"
      using frag a(1) add msg hs_packet_type [OF sid(1)] sid(2) st(2)
      by (simp add: client_handle_datagram_def Let_def hs_fragment_fields)
  qed
qed

lemma m2_run:
  assumes "length msg = M2_BODY_LEN" "length sid = 8" "ch_session h = sid" "client_collecting msg S h"
    and "\<forall>(rnd, jit, i) \<in> set ys. i < unat M2_FRAG_COUNT"
    and "\<not> {..<unat M2_FRAG_COUNT} \<subseteq> S \<union> (snd \<circ> snd) ` set ys"
  shows "\<exists>st. run (client_step P) (map (\<lambda>(rnd, jit, i). ClientDatagram rnd jit (hs_packet HS_TYPE_SERVER_HELLO sid msg M2_FRAG_COUNT i)) ys) h =
      (replicate (length ys) (Inr ClientNone), h\<lparr>ch_state := st\<rparr>) \<and>
    client_collecting msg (S \<union> (snd \<circ> snd) ` set ys) (h\<lparr>ch_state := st\<rparr>)"
  using assms(3-6)
proof (induction ys arbitrary: h S)
  case Nil
  then show ?case by (auto intro!: exI [of _ "ch_state h"])
next
  case (Cons y ys)
  obtain rnd jit i where y: "y = (rnd, jit, i)" by (metis prod_cases3)
  have i: "i < unat M2_FRAG_COUNT" using Cons.prems(3) y by simp
  obtain st where st: "client_collecting msg (insert i S) (h\<lparr>ch_state := st\<rparr>)"
    "client_step P (ClientDatagram rnd jit (hs_packet HS_TYPE_SERVER_HELLO sid msg M2_FRAG_COUNT i)) h =
       (if i \<notin> S \<and> {..<unat M2_FRAG_COUNT} \<subseteq> insert i S
        then on_complete_m2 P rnd jit msg (h\<lparr>ch_state := st\<rparr>) else (Inr ClientNone, h\<lparr>ch_state := st\<rparr>))"
    by (rule m2_step [OF assms(1,2) Cons.prems(1,2) i])
  have "\<not> {..<unat M2_FRAG_COUNT} \<subseteq> insert i S" using Cons.prems(4) y by auto
  then have step: "client_step P (ClientDatagram rnd jit (hs_packet HS_TYPE_SERVER_HELLO sid msg M2_FRAG_COUNT i)) h =
      (Inr ClientNone, h\<lparr>ch_state := st\<rparr>)" using st(2) by simp
  have "ch_session (h\<lparr>ch_state := st\<rparr>) = sid" using Cons.prems(1) by simp
  moreover have "\<forall>(rnd, jit, i) \<in> set ys. i < unat M2_FRAG_COUNT"
    "\<not> {..<unat M2_FRAG_COUNT} \<subseteq> insert i S \<union> (snd \<circ> snd) ` set ys" using Cons.prems(3,4) y by auto
  ultimately show ?case using Cons.IH [OF _ st(1)] step y by auto
qed

text \<open>The client's state for an honest exchange, whatever it has received.\<close>

definition honest_client :: "primitives \<Rightarrow> ClientConfig \<Rightarrow> bytes \<Rightarrow> bytes \<Rightarrow> bytes \<Rightarrow> ClientHandshake \<Rightarrow> bool" where
  "honest_client P cfg sid ks xs h \<longleftrightarrow> ch_cfg h = cfg \<and> ch_session h = sid \<and> kem_secret (ch_kp_mlkem h) = ks \<and>
     x_secret (ch_kp_x h) = xs \<and> ch_m1 h = hello_of P cfg sid ks xs"

lemma agreed_confirm_wf:
  assumes "agreed P r3 h m2 m3 out" "kem_correct P" "hash_sized P" "length r3 = 32"
    "sh_eph_pk_s m2 = mlkem_ek_of P dk" "length dk = 64" "ccf_version (ch_cfg h) = PROTOCOL_VERSION" "length (ch_session h) = 8"
  shows "client_confirm_wf m3"
proof -
  have "length (fst (mlkem_encaps P (sh_eph_pk_s m2) r3)) = 1088" using kem_correctD(3) [of P dk r3] assms by simp
  moreover have "length (compute_client_finished P fk th3) = 16" for fk th3
    using assms(3) by (simp add: compute_client_finished_def hash_sized_def)
  moreover obtain fk th3 where "m3 = confirm_for h (fst (mlkem_encaps P (sh_eph_pk_s m2) r3)) (compute_client_finished P fk th3)"
    using assms(1) unfolding agreed_def by blast
  ultimately show ?thesis using assms(7,8) by (simp add: client_confirm_wf_def confirm_for_def layout_simps)
qed

lemma derive_finished_key_ok:
  assumes "hkdf_correct P"
  obtains fk where "derive_finished_key P master v sid = Inr fk"
  unfolding derive_finished_key_def by (rule kdf_derive_to_bytes_ok [OF assms, of 32]) simp_all

lemma confirm_honest:
  assumes P: "hkdf_correct P" "hash_sized P" and cr: "client_ready P cfg sid ks xs" and sr: "server_ready P scfg rnd"
    and pin: "ccf_server_identity cfg = mldsa_vk_of P (scf_identity scfg)"
    and h: "honest_client P cfg sid ks xs h" and r3: "length r3 = 32"
  defines "m2 \<equiv> reply_of P scfg rnd (hello_of P cfg sid ks xs)"
  obtains m3 out st where "agreed P r3 h m2 m3 out" "client_confirm_wf m3"
    "on_complete_m2 P r3 jit (server_hello_encode m2) h =
       (Inr (ClientM3Sent [hs_packet HS_TYPE_CLIENT_CONFIRM sid (client_confirm_encode m3) M3_FRAG_COUNT 0] out), h\<lparr>ch_state := st\<rparr>)"
proof -
  note C = cr [unfolded client_ready_def] and S = sr [unfolded server_ready_def] and H = h [unfolded honest_client_def]
  let ?m1 = "hello_of P cfg sid ks xs"
  have wf2: "server_hello_wf P m2" unfolding m2_def by (rule reply_of_wf(1) [OF cr sr])
  have dec: "server_hello_decode P (server_hello_encode m2) = Inr m2" by (rule server_hello_decode_encode [OF wf2])
  have f: "sh_sid m2 = sid" "sh_version m2 = PROTOCOL_VERSION" "sh_eph_pk_s m2 = mlkem_ek_of P (sd_kem_seed rnd)"
    "sh_x_s m2 = x25519_pk_of P (sd_x_seed rnd)"
    using C S by (simp_all add: m2_def reply_of_def hello_of_def Let_def)
  have ver: "mldsa_verify P (ccf_server_identity cfg) (the (th2_from_m1_m2 P (client_hello_encode ?m1) (server_hello_encode m2)))
      (sh_server_sig m2)" using reply_of_wf(2) [OF cr sr] pin by (simp add: m2_def)
  have dh: "diffie_hellman P xs (sh_x_s m2) = Some (x25519_dh P xs (sh_x_s m2))"
    using C S f unfolding x25519_correct_def by (simp add: diffie_hellman_def)
  obtain ct3 ss_b where en: "mlkem_encaps P (sh_eph_pk_s m2) r3 = (ct3, ss_b)" by fastforce
  define th3 where "th3 = the (th3_from_m1_m2_m3 P (client_hello_encode ?m1) (server_hello_encode m2)
    (encode_m3 PROTOCOL_VERSION sid ct3 None))"
  obtain master where dm: "derive_master P (mlkem_decaps P ks (sh_ct2 m2)) ss_b (x25519_dh P xs (sh_x_s m2)) PROTOCOL_VERSION sid th3 = Inr master"
    by (rule derive_master_ok [OF P(1)])
  obtain fk where fk: "derive_finished_key P master PROTOCOL_VERSION sid = Inr fk"
    by (rule derive_finished_key_ok [OF P(1)])
  let ?m3 = "confirm_for h ct3 (compute_client_finished P fk th3)"
  let ?out = "\<lparr>ho_master = master, ho_session_id = sid, ho_peer_identity = ccf_server_identity cfg, ho_handshake_duration = 0\<rparr>"
  have ag: "agreed P r3 h m2 ?m3 ?out"
    using H C wf2 f ver dh en dm fk unfolding agreed_def by (simp add: confirm_for_def pre_m3_def th3_def)
  have wf3: "client_confirm_wf ?m3"
    by (rule agreed_confirm_wf [OF ag _ P(2) r3 f(3)]) (use C S H in simp_all)
  have sh: "hs_shape HS_TYPE_CLIENT_CONFIRM M3_FRAG_COUNT (client_confirm_encode ?m3)"
    by (rule hs_shape_m3 [OF client_confirm_length [OF wf3]])
  have fr: "fragment_message HS_TYPE_CLIENT_CONFIRM PROTOCOL_VERSION sid (client_confirm_encode ?m3) =
      Inr [hs_packet HS_TYPE_CLIENT_CONFIRM sid (client_confirm_encode ?m3) M3_FRAG_COUNT 0]"
    using fragment_message_ok [OF sh] by (simp add: hs_packet_def M3_FRAG_COUNT_def)
  have m3: "\<lparr>cc_version = PROTOCOL_VERSION, cc_sid = sid, cc_ct3 = ct3, cc_client_finished = compute_client_finished P fk th3\<rparr> = ?m3"
    using H C by (simp add: confirm_for_def)
  show thesis
    by (rule that [OF ag wf3])
      (use dec f ver dh en dm fk fr H C in \<open>simp add: on_complete_m2_def Let_def dsa_verify_def decapsulate_def
         encapsulate_def th3_def [symmetric] m3\<close>)
qed

section \<open>The server completes\<close>

lemma m3_completes:
  assumes inv: "server_inv P s" and cr: "client_ready P cfg sid ks xs" and sr: "server_ready P (sv_cfg s) rnd"
    and h: "honest_client P cfg sid ks xs h" and m3: "agreed P r3 h m2 m3 out" "client_confirm_wf m3" "length r3 = 32"
    and m2: "m2 = reply_of P (sv_cfg s) rnd (hello_of P cfg sid ks xs)"
    and al: "allowance from (Suc k) s" and lv: "live t0 s ck"
    and e: "map_of (sv_pending s) sid = Some e" "pe_source e = from" "pe_state e = AwaitM3" "t0 \<le> pe_last_seen e"
      "pe_m1_body e = Some (client_hello_encode (hello_of P cfg sid ks xs))" "pe_m2_cache e = Some (server_hello_encode m2)"
      "pe_ss_a e = snd (mlkem_encaps P (mlkem_ek_of P ks) (sd_encaps rnd))"
      "pe_dh_cs e = x25519_dh P (sd_x_seed rnd) (x25519_pk_of P xs)" "pe_sk_s e = Some (sd_kem_seed rnd)"
      "pe_verified_client e = Some pk" and roster: "pk \<in> set (scf_roster (sv_cfg s))"
  obtains out_s s1 where "server_step P (Datagram rnd3 ck (hs_packet HS_TYPE_CLIENT_CONFIRM sid (client_confirm_encode m3) M3_FRAG_COUNT 0) from) s =
      (Handled (Inr (ServerComplete out_s)), s1)" "ho_master out_s = ho_master out" "ho_session_id out_s = sid" "ho_peer_identity out_s = pk"
proof -
  note C = cr [unfolded client_ready_def] and S = sr [unfolded server_ready_def] and H = h [unfolded honest_client_def]
  let ?m1 = "hello_of P cfg sid ks xs" and ?body = "client_confirm_encode m3" and ?s = "evict_expired (ck_evict ck) s"
  let ?pkt = "hs_packet HS_TYPE_CLIENT_CONFIRM sid ?body M3_FRAG_COUNT 0"
  let ?frag = "hs_fragment HS_TYPE_CLIENT_CONFIRM sid ?body M3_FRAG_COUNT 0"
  have sh: "hs_shape HS_TYPE_CLIENT_CONFIRM M3_FRAG_COUNT ?body" by (rule hs_shape_m3 [OF client_confirm_length [OF m3(2)]])
  have sid: "length sid = 8" using C by simp
  have frag: "from_datagram ?pkt = Inr ?frag" by (rule hs_packet_parse [OF sh sid]) (simp add: M3_FRAG_COUNT_def)
  have body: "hf_body ?frag = ?body" using client_confirm_length [OF m3(2)] by (simp add: hs_fragment_def block_def hs_values)
  have wf: "client_hello_wf P ?m1" "server_hello_wf P m2"
    using hello_of_wf(1) [OF cr] reply_of_wf(1) [OF cr sr] m2 by simp_all
  obtain dh th3 fk where A: "diffie_hellman P xs (sh_x_s m2) = Some dh"
    "th3 = the (th3_from_m1_m2_m3 P (client_hello_encode ?m1) (server_hello_encode m2) (pre_m3 m3))"
    "derive_master P (mlkem_decaps P ks (sh_ct2 m2)) (snd (mlkem_encaps P (sh_eph_pk_s m2) r3)) dh PROTOCOL_VERSION sid th3 = Inr (ho_master out)"
    "derive_finished_key P (ho_master out) PROTOCOL_VERSION sid = Inr fk"
    "m3 = confirm_for h (fst (mlkem_encaps P (sh_eph_pk_s m2) r3)) (compute_client_finished P fk th3)"
  proof -
    have v: "ccf_version (ch_cfg h) = PROTOCOL_VERSION" "ch_session h = sid" "kem_secret (ch_kp_mlkem h) = ks"
      "x_secret (ch_kp_x h) = xs" "ch_m1 h = ?m1" using H C by simp_all
    show thesis using m3(1) that unfolding agreed_def v by blast
  qed
  have th: "the (th3_from_m1_m2_m3 P (client_hello_encode ?m1) (server_hello_encode m2) ?body) = th3"
    using A(2) th3_eq [OF wf m3(2)] by simp
  have f: "sh_ct2 m2 = fst (mlkem_encaps P (mlkem_ek_of P ks) (sd_encaps rnd))" "sh_eph_pk_s m2 = mlkem_ek_of P (sd_kem_seed rnd)"
    "sh_x_s m2 = x25519_pk_of P (sd_x_seed rnd)" by (simp_all add: m2 reply_of_def hello_of_def Let_def)
  have ssa: "mlkem_decaps P ks (sh_ct2 m2) = pe_ss_a e" using kem_correctD(4) [of P ks "sd_encaps rnd"] C S f e(7) by simp
  have ssb: "mlkem_decaps P (sd_kem_seed rnd) (cc_ct3 m3) = snd (mlkem_encaps P (sh_eph_pk_s m2) r3)"
    using kem_correctD(4) [of P "sd_kem_seed rnd" r3] C S f m3(3) A(5) by (simp add: confirm_for_def)
  have dhe: "dh = pe_dh_cs e"
    using A(1) C S f e(8) unfolding x25519_correct_def by (auto simp: diffie_hellman_def split: if_splits)
  have c3: "cc_version m3 = PROTOCOL_VERSION" "cc_sid m3 = sid" "cc_client_finished m3 = compute_client_finished P fk th3"
    using A(5) H C by (simp_all add: confirm_for_def)
  have dec: "client_confirm_decode ?body = Inr m3" by (rule client_confirm_decode_encode [OF m3(2)])
  have e1: "map_of (sv_pending ?s) sid = Some e" by (rule still_live [OF inv e(1,4) lv])
  obtain ok s1 where r: "rate_ok (ck_rate ck) from ?s = (ok, s1)" by fastforce
  have "rate_inv ?s" "allowance from (Suc k) ?s" using evict_expired_inv [OF inv, of "ck_evict ck"] al
    by (simp_all add: server_inv_def allowance_frame)
  note ok = rate_ok_allowance(1) [OF this r]
  have cfg: "sv_cfg s1 = sv_cfg s" using rate_ok_keeps [OF r] by (simp add: evict_frame)
  have ro: "roster_contains pk s1" using roster cfg by (auto simp: roster_contains_def list_ex_iff)
  have ne: "HS_TYPE_CLIENT_CONFIRM \<noteq> HS_TYPE_CLIENT_HELLO" by (simp add: hs_types)
  have "server_step P (Datagram rnd3 ck ?pkt from) s =
      (Handled (Inr (ServerComplete \<lparr>ho_master = ho_master out, ho_session_id = sid, ho_peer_identity = pk,
         ho_handshake_duration = ck_stamp ck - pe_started e\<rparr>)), pending_remove sid s1)"
    using frag body e1 e(2,3,5,6,9,10) r ok dec c3 S cfg ssb A(3,4) ssa dhe th ro ne hs_packet_type [OF sid]
    by (simp add: server_handle_datagram_def on_m3_fragment_def Let_def hs_fragment_fields decapsulate_def)
  then show thesis by (rule that) simp_all
qed

section \<open>The whole exchange\<close>

text \<open>The hypotheses of an honest exchange. Indices with their draws and clocks schedule the
  fragments: \<open>ms\<close> starts with fragment 0 (no entry is opened for another one) and misses exactly
  \<open>i\<close>; \<open>ys\<close> misses exactly \<open>j\<close>; either may repeat fragments in any order.\<close>

definition m1_schedule :: "instant \<Rightarrow> ServerHandshake \<Rightarrow> (ServerDraws \<times> Clock \<times> nat) list \<Rightarrow> nat \<Rightarrow> bool" where
  "m1_schedule t0 s ms i \<longleftrightarrow> ms \<noteq> [] \<and> snd (snd (hd ms)) = 0 \<and> (\<forall>(rnd, ck, l) \<in> set ms. live t0 s ck \<and> l < unat M1_FRAG_COUNT) \<and>
     i < unat M1_FRAG_COUNT \<and> i \<notin> (snd \<circ> snd) ` set ms \<and> {..<unat M1_FRAG_COUNT} \<subseteq> insert i ((snd \<circ> snd) ` set ms)"

definition m2_schedule :: "(bytes \<times> u64 option \<times> nat) list \<Rightarrow> nat \<Rightarrow> bool" where
  "m2_schedule ys j \<longleftrightarrow> (\<forall>(rnd, jit, l) \<in> set ys. l < unat M2_FRAG_COUNT) \<and> j < unat M2_FRAG_COUNT \<and>
     j \<notin> (snd \<circ> snd) ` set ys \<and> {..<unat M2_FRAG_COUNT} \<subseteq> insert j ((snd \<circ> snd) ` set ys)"

definition can_admit :: "bytes \<Rightarrow> SocketAddr \<Rightarrow> ServerHandshake \<Rightarrow> bool" where
  "can_admit sid from s \<longleftrightarrow> map_of (sv_pending s) sid = None \<and> length (sv_pending s) < scf_max_pending (sv_cfg s) \<and>
     allowance from 3 s"

lemma live_cfg: "sv_cfg s1 = sv_cfg s \<Longrightarrow> live t0 s1 ck = live t0 s ck"
  by (simp add: live_def)

lemma m1_flight:
  assumes inv: "server_inv P s" and cr: "client_ready P cfg sid ks xs" and sr: "server_ready P (sv_cfg s) rnd"
    and roster: "mldsa_vk_of P (ccf_identity cfg) \<in> set (scf_roster (sv_cfg s))" and adm: "can_admit sid from s"
    and sched: "m1_schedule t0 s ms i" and lv: "live t0 s ck"
  defines "m1 \<equiv> hello_of P cfg sid ks xs"
  defines "m2 \<equiv> server_hello_encode (reply_of P (sv_cfg s) rnd m1)"
  obtains pk s1 e where
    "run (server_step P) (map (\<lambda>(rnd, ck, l). Datagram rnd ck (hs_packet HS_TYPE_CLIENT_HELLO sid (client_hello_encode m1) M1_FRAG_COUNT l) from)
        (ms @ [(rnd, ck, i)])) s =
      (replicate (length ms) (Handled (Inr ServerNone)) @
       [Handled (Inr (ServerEmit (map (hs_packet HS_TYPE_SERVER_HELLO sid m2 M2_FRAG_COUNT) [0..<unat M2_FRAG_COUNT]) from))], s1)"
    "server_inv P s1" "sv_cfg s1 = sv_cfg s" "allowance from 1 s1" "pk \<in> set (scf_roster (sv_cfg s))"
    "mldsa_verify P pk (the (th1_from_m1 P (client_hello_encode m1))) (ch_client_sig m1)"
    "map_of (sv_pending s1) sid = Some e" "pe_source e = from" "pe_state e = AwaitM3" "t0 \<le> pe_last_seen e"
    "pe_m1_body e = Some (client_hello_encode m1)" "pe_m2_cache e = Some m2"
    "pe_ss_a e = snd (mlkem_encaps P (mlkem_ek_of P ks) (sd_encaps rnd))"
    "pe_dh_cs e = x25519_dh P (sd_x_seed rnd) (x25519_pk_of P xs)" "pe_sk_s e = Some (sd_kem_seed rnd)"
    "pe_verified_client e = Some pk"
proof -
  let ?msg = "client_hello_encode m1"
  let ?dg = "\<lambda>(rnd, ck, l). Datagram rnd ck (hs_packet HS_TYPE_CLIENT_HELLO sid ?msg M1_FRAG_COUNT l) from"
  have len: "length ?msg = M1_BODY_LEN" unfolding m1_def by (rule client_hello_length [OF hello_of_wf(1) [OF cr]])
  have sid: "length sid = 8" using cr by (simp add: client_ready_def)
  obtain rnd0 ck0 ms' where ms: "ms = (rnd0, ck0, 0) # ms'"
    using sched unfolding m1_schedule_def by (cases ms) auto
  have lv0: "live t0 s ck0" using sched ms by (simp add: m1_schedule_def)
  have al: "allowance from (Suc 2) s" "map_of (sv_pending s) sid = None" "length (sv_pending s) < scf_max_pending (sv_cfg s)"
    using adm by (simp_all add: can_admit_def)
  obtain sa where sa: "server_step P (?dg (rnd0, ck0, 0)) s = (Handled (Inr ServerNone), sa)" "collecting sid from t0 ?msg {0} sa"
    "allowance from 2 sa" "sv_cfg sa = sv_cfg s"
    using m1_opens [OF inv len sid al(2,3,1) lv0, of rnd0] by auto
  have inva: "server_inv P sa" using server_step_inv [OF inv, of "?dg (rnd0, ck0, 0)"] sa(1) by simp
  have idx: "{0} \<union> (snd \<circ> snd) ` set ms' = (snd \<circ> snd) ` set ms" by (simp add: ms)
  have lvs: "\<forall>(rnd, ck, l) \<in> set ms'. live t0 sa ck \<and> l < unat M1_FRAG_COUNT"
    using sched ms sa(4) by (auto simp: m1_schedule_def live_cfg [OF sa(4)])
  have miss: "\<not> {..<unat M1_FRAG_COUNT} \<subseteq> {0} \<union> (snd \<circ> snd) ` set ms'"
    unfolding idx using sched unfolding m1_schedule_def by blast
  obtain sb where sb: "run (server_step P) (map ?dg ms') sa = (replicate (length ms') (Handled (Inr ServerNone)), sb)"
    "collecting sid from t0 ?msg ((snd \<circ> snd) ` set ms) sb" "allowance from 2 sb" "sv_cfg sb = sv_cfg s" "server_inv P sb"
    using m1_collects_run [OF inva len sid sa(2,3) lvs miss] unfolding idx sa(4) by blast
  have al2: "allowance from (Suc 1) sb" using sb(3) by (simp add: numeral_2_eq_2)
  have i: "i < unat M1_FRAG_COUNT" "i \<notin> (snd \<circ> snd) ` set ms" "{..<unat M1_FRAG_COUNT} \<subseteq> insert i ((snd \<circ> snd) ` set ms)"
    using sched by (simp_all add: m1_schedule_def)
  have lvb: "live t0 sb ck" using lv by (simp add: live_cfg [OF sb(4)])
  obtain e0 sc where sc: "server_step P (?dg (rnd, ck, i)) sb = (let (r, s3) = complete_m1 P rnd ck sid ?msg from sc in (Handled r, s3))"
    "map_of (sv_pending sc) sid = Some e0" "pe_source e0 = from" "allowance from 1 sc" "sv_cfg sc = sv_cfg s"
    using m1_completes [OF sb(5) len sid sb(2) al2 lvb i, of rnd] unfolding sb(4) prod.case by blast
  have sr': "server_ready P (sv_cfg sc) rnd" and ro': "mldsa_vk_of P (ccf_identity cfg) \<in> set (scf_roster (sv_cfg sc))"
    using sr roster sc(5) by simp_all
  obtain pk s1 where s1: "complete_m1 P rnd ck sid ?msg from sc =
       (Inr (ServerEmit (map (hs_packet HS_TYPE_SERVER_HELLO sid m2 M2_FRAG_COUNT) [0..<unat M2_FRAG_COUNT]) from), s1)"
    "pk \<in> set (scf_roster (sv_cfg s))" "mldsa_verify P pk (the (th1_from_m1 P ?msg)) (ch_client_sig m1)"
    "s1 = pending_insert sid (e0\<lparr>pe_state := AwaitM3, pe_m1_body := Some ?msg, pe_m2_cache := Some m2,
        pe_ss_a := snd (mlkem_encaps P (mlkem_ek_of P ks) (sd_encaps rnd)),
        pe_dh_cs := x25519_dh P (sd_x_seed rnd) (x25519_pk_of P xs),
        pe_sk_s := Some (sd_kem_seed rnd), pe_verified_client := Some pk, pe_assembler := None,
        pe_last_seen := ck_stamp ck\<rparr>) (pending_remove sid sc)"
    using complete_m1_honest [OF cr sr' ro' sc(2), of ck "from"] unfolding sc(5) m1_def m2_def by blast
  have step: "server_step P (?dg (rnd, ck, i)) sb =
      (Handled (Inr (ServerEmit (map (hs_packet HS_TYPE_SERVER_HELLO sid m2 M2_FRAG_COUNT) [0..<unat M2_FRAG_COUNT]) from)), s1)"
    unfolding sc(1) s1(1) by simp
  have inv1: "server_inv P s1" using server_step_inv [OF sb(5), of "?dg (rnd, ck, i)"] unfolding step by simp
  have "run (server_step P) (map ?dg (ms @ [(rnd, ck, i)])) s = (replicate (length ms) (Handled (Inr ServerNone)) @
       [Handled (Inr (ServerEmit (map (hs_packet HS_TYPE_SERVER_HELLO sid m2 M2_FRAG_COUNT) [0..<unat M2_FRAG_COUNT]) from))], s1)"
    unfolding ms using sa(1) sb(1) step by (simp add: run_append del: server_step.simps)
  from that [OF this inv1 _ _ s1(2,3)] show thesis
    using lv sc s1(4) by (simp add: pending_frame allowance_frame live_def)
qed

lemma honest_exchange:
  assumes P: "hkdf_correct P" "hash_sized P" and inv: "server_inv P s"
    and cr: "client_ready P cfg sid ks xs" and sr: "server_ready P (sv_cfg s) rnd" and r3: "length r3 = 32"
    and roster: "mldsa_vk_of P (ccf_identity cfg) \<in> set (scf_roster (sv_cfg s))"
    and pin: "ccf_server_identity cfg = mldsa_vk_of P (scf_identity (sv_cfg s))"
    and new: "client_new P ks xs jit cfg sid = Inr h0" and adm: "can_admit sid from s"
    and sched: "m1_schedule t0 s ms i" "m2_schedule ys j" and lv: "live t0 s ck" "live t0 s ck3"
  obtains m2s s1 m3 out_c h1 out_s s2 where
    "run (server_step P) (map (\<lambda>(rnd, ck, l). Datagram rnd ck (ch_m1_frags h0 ! l) from) (ms @ [(rnd, ck, i)])) s =
       (replicate (length ms) (Handled (Inr ServerNone)) @ [Handled (Inr (ServerEmit m2s from))], s1)"
    "run (client_step P) (map (\<lambda>(rnd, jit, l). ClientDatagram rnd jit (m2s ! l)) (ys @ [(r3, jit3, j)])) h0 =
       (replicate (length ys) (Inr ClientNone) @ [Inr (ClientM3Sent [m3] out_c)], h1)"
    "server_step P (Datagram rnd3 ck3 m3 from) s1 = (Handled (Inr (ServerComplete out_s)), s2)"
    "ho_master out_c = ho_master out_s" "ho_session_id out_c = sid" "ho_session_id out_s = sid"
    "ho_peer_identity out_c = mldsa_vk_of P (scf_identity (sv_cfg s))"
    "ho_peer_identity out_s \<in> set (scf_roster (sv_cfg s))"
    "mldsa_verify P (ho_peer_identity out_s) (the (th1_from_m1 P (client_hello_encode (ch_m1 h0)))) (ch_client_sig (ch_m1 h0))"
    "length m2s = unat M2_FRAG_COUNT" "\<forall>p \<in> set m2s. is_handshake_fragment p"
proof -
  let ?m1 = "hello_of P cfg sid ks xs"
  let ?m2 = "reply_of P (sv_cfg s) rnd ?m1"
  let ?b2 = "server_hello_encode ?m2"
  let ?m2s = "map (hs_packet HS_TYPE_SERVER_HELLO sid ?b2 M2_FRAG_COUNT) [0..<unat M2_FRAG_COUNT]"
  obtain a d where h0: "h0 = \<lparr>ch_cfg = cfg, ch_session = sid, ch_kp_mlkem = \<lparr>kem_public = mlkem_ek_of P ks, kem_secret = ks\<rparr>,
     ch_kp_x = \<lparr>x_public = x25519_pk_of P xs, x_secret = xs\<rparr>, ch_m1 = ?m1,
     ch_m1_frags = map (hs_packet HS_TYPE_CLIENT_HELLO sid (client_hello_encode ?m1) M1_FRAG_COUNT) [0..<unat M1_FRAG_COUNT],
     ch_state = AwaitM2 a 0 d\<rparr>" "assembler_new HS_TYPE_SERVER_HELLO = Some a"
    using client_new_ok [OF cr, of jit] new by (metis sum.inject(2))
  obtain pk s1 e where one:
    "run (server_step P) (map (\<lambda>(rnd, ck, l). Datagram rnd ck (hs_packet HS_TYPE_CLIENT_HELLO sid (client_hello_encode ?m1) M1_FRAG_COUNT l) from)
        (ms @ [(rnd, ck, i)])) s = (replicate (length ms) (Handled (Inr ServerNone)) @ [Handled (Inr (ServerEmit ?m2s from))], s1)"
    "server_inv P s1" "sv_cfg s1 = sv_cfg s" "allowance from 1 s1" "pk \<in> set (scf_roster (sv_cfg s))"
    "mldsa_verify P pk (the (th1_from_m1 P (client_hello_encode ?m1))) (ch_client_sig ?m1)"
    "map_of (sv_pending s1) sid = Some e" "pe_source e = from" "pe_state e = AwaitM3" "t0 \<le> pe_last_seen e"
    "pe_m1_body e = Some (client_hello_encode ?m1)" "pe_m2_cache e = Some ?b2"
    "pe_ss_a e = snd (mlkem_encaps P (mlkem_ek_of P ks) (sd_encaps rnd))"
    "pe_dh_cs e = x25519_dh P (sd_x_seed rnd) (x25519_pk_of P xs)" "pe_sk_s e = Some (sd_kem_seed rnd)"
    "pe_verified_client e = Some pk"
    by (rule m1_flight [OF inv cr sr roster adm sched(1) lv(1)])
  have l1: "\<forall>(rnd, ck, l) \<in> set (ms @ [(rnd, ck, i)]). l < unat M1_FRAG_COUNT" using sched(1) by (auto simp: m1_schedule_def)
  have d1: "map (\<lambda>(rnd, ck, l). Datagram rnd ck (ch_m1_frags h0 ! l) from) (ms @ [(rnd, ck, i)]) =
      map (\<lambda>(rnd, ck, l). Datagram rnd ck (hs_packet HS_TYPE_CLIENT_HELLO sid (client_hello_encode ?m1) M1_FRAG_COUNT l) from)
        (ms @ [(rnd, ck, i)])"
    by (rule map_cong [OF refl]) (use l1 in \<open>auto simp: h0(1)\<close>)
  have wf2: "server_hello_wf P ?m2" by (rule reply_of_wf(1) [OF cr sr])
  have len2: "length ?b2 = M2_BODY_LEN" by (rule server_hello_length [OF wf2])
  have sid: "length sid = 8" "ch_session h0 = sid" using cr h0 by (simp_all add: client_ready_def)
  have col: "client_collecting ?b2 {} h0"
    using assembling_new [OF hs_shape_m2 [OF len2]] h0 by (auto simp: client_collecting_def)
  have y: "\<forall>(rnd, jit, l) \<in> set ys. l < unat M2_FRAG_COUNT" "\<not> {..<unat M2_FRAG_COUNT} \<subseteq> {} \<union> (snd \<circ> snd) ` set ys"
    "j < unat M2_FRAG_COUNT" "j \<notin> (snd \<circ> snd) ` set ys" "{..<unat M2_FRAG_COUNT} \<subseteq> insert j ((snd \<circ> snd) ` set ys)"
    using sched(2) by (auto simp: m2_schedule_def)
  let ?dg = "\<lambda>(rnd, jit, l). ClientDatagram rnd jit (hs_packet HS_TYPE_SERVER_HELLO sid ?b2 M2_FRAG_COUNT l)"
  obtain st where two: "run (client_step P) (map ?dg ys) h0 = (replicate (length ys) (Inr ClientNone), h0\<lparr>ch_state := st\<rparr>)"
    "client_collecting ?b2 ((snd \<circ> snd) ` set ys) (h0\<lparr>ch_state := st\<rparr>)"
    using m2_run [OF len2 sid col y(1,2), of P] by auto
  have sid2: "ch_session (h0\<lparr>ch_state := st\<rparr>) = sid" using sid(2) by simp
  have "\<exists>st2. client_step P (?dg (r3, jit3, j)) (h0\<lparr>ch_state := st\<rparr>) = on_complete_m2 P r3 jit3 ?b2 (h0\<lparr>ch_state := st2\<rparr>)"
    by (rule m2_step [OF len2 sid(1) sid2 two(2) y(3), of P r3 jit3]) (use y(4,5) in \<open>auto simp del: client_step.simps\<close>)
  then obtain st2 where three: "client_step P (?dg (r3, jit3, j)) (h0\<lparr>ch_state := st\<rparr>) = on_complete_m2 P r3 jit3 ?b2 (h0\<lparr>ch_state := st2\<rparr>)" ..
  have hc: "honest_client P cfg sid ks xs (h0\<lparr>ch_state := st2\<rparr>)" by (simp add: honest_client_def h0(1))
  obtain m3 out st3 where four: "agreed P r3 (h0\<lparr>ch_state := st2\<rparr>) ?m2 m3 out" "client_confirm_wf m3"
    "on_complete_m2 P r3 jit3 ?b2 (h0\<lparr>ch_state := st2\<rparr>) =
       (Inr (ClientM3Sent [hs_packet HS_TYPE_CLIENT_CONFIRM sid (client_confirm_encode m3) M3_FRAG_COUNT 0] out), h0\<lparr>ch_state := st3\<rparr>)"
    by (rule confirm_honest [OF P cr sr pin hc r3, of jit3]) simp
  have d2: "map (\<lambda>(rnd, jit, l). ClientDatagram rnd jit (?m2s ! l)) (ys @ [(r3, jit3, j)]) = map ?dg (ys @ [(r3, jit3, j)])"
    by (rule map_cong [OF refl]) (use y(1,3) in auto)
  have r2: "run (client_step P) (map ?dg (ys @ [(r3, jit3, j)])) h0 = (replicate (length ys) (Inr ClientNone) @
      [Inr (ClientM3Sent [hs_packet HS_TYPE_CLIENT_CONFIRM sid (client_confirm_encode m3) M3_FRAG_COUNT 0] out)], h0\<lparr>ch_state := st3\<rparr>)"
    using two(1) three four(3) by (simp add: run_append del: client_step.simps)
  have sr1: "server_ready P (sv_cfg s1) rnd" and lv3: "live t0 s1 ck3" and al1: "allowance from (Suc 0) s1"
    using sr lv(2) one(3,4) by (simp_all add: live_cfg [OF one(3)])
  have m2eq: "?m2 = reply_of P (sv_cfg s1) rnd ?m1" and ro: "pk \<in> set (scf_roster (sv_cfg s1))" using one(3,5) by simp_all
  obtain out_s s2 where five: "server_step P (Datagram rnd3 ck3 (hs_packet HS_TYPE_CLIENT_CONFIRM sid (client_confirm_encode m3) M3_FRAG_COUNT 0) from) s1 =
      (Handled (Inr (ServerComplete out_s)), s2)" "ho_master out_s = ho_master out" "ho_session_id out_s = sid" "ho_peer_identity out_s = pk"
    by (rule m3_completes [OF one(2) cr sr1 hc four(1,2) r3 m2eq al1 lv3 one(7-16) ro, of rnd3])
  have out: "ho_session_id out = sid" "ho_peer_identity out = ccf_server_identity cfg"
    using four(1) h0(1) unfolding agreed_def by simp_all
  have m1: "ch_m1 h0 = ?m1" by (simp add: h0(1))
  have hs: "\<forall>p \<in> set ?m2s. is_handshake_fragment p"
  proof
    fix p assume that: "p \<in> set ?m2s"
    have "p \<in> hs_packet HS_TYPE_SERVER_HELLO sid ?b2 M2_FRAG_COUNT ` set [0..<unat M2_FRAG_COUNT]" using that by (simp only: set_map)
    then obtain l where "p = hs_packet HS_TYPE_SERVER_HELLO sid ?b2 M2_FRAG_COUNT l" by (rule imageE)
    then show "is_handshake_fragment p" using hs_packet_type [OF sid(1)] by (simp add: is_handshake_fragment_def)
  qed
  show thesis
    by (rule that [OF one(1) [folded d1] r2 [folded d2] five(1) _ _ _ _ _ _ _ hs]) (use five(2-4) out pin one(5,6) in \<open>simp_all add: m1\<close>)
qed

section \<open>A concrete exchange\<close>

definition demo_server :: ServerHandshake where
  "demo_server = server_new 0 (server_config_new (replicate 32 4) [mldsa_vk_of demo (replicate 32 3)])"

definition demo_draws :: ServerDraws where
  "demo_draws = \<lparr>sd_kem_seed = replicate 64 6, sd_x_seed = replicate 32 7, sd_encaps = replicate 32 8\<rparr>"

definition demo_clock :: Clock where
  "demo_clock = \<lparr>ck_evict = 5, ck_rate = 5, ck_stamp = 5\<rparr>"

definition demo_m1_order :: "(ServerDraws \<times> Clock \<times> nat) list" where
  "demo_m1_order = [(demo_draws, demo_clock, 0), (demo_draws, demo_clock, 2), (demo_draws, demo_clock, 2), (demo_draws, demo_clock, 1)]"

definition demo_m2_order :: "(bytes \<times> u64 option \<times> nat) list" where
  "demo_m2_order = [([], None, 4), ([], None, 0), ([], None, 2), ([], None, 1)]"

definition demo_addr :: SocketAddr where "demo_addr = SocketAddrV4 [10, 0, 0, 9] 40000"

lemma demo_server_cfg:
  "sv_cfg demo_server = server_config_new (replicate 32 4) [mldsa_vk_of demo (replicate 32 3)]"
  by (simp add: demo_server_def server_new_def server_config_new_def with_roster_limit_def DEFAULT_MAX_ROSTER_SIZE_def Let_def)

lemma demo_server_ready:
  "server_inv demo demo_server" "server_ready demo (sv_cfg demo_server) demo_draws" "can_admit (replicate 8 5) demo_addr demo_server"
  "mldsa_vk_of demo (ccf_identity demo_client_cfg) \<in> set (scf_roster (sv_cfg demo_server))"
  "ccf_server_identity demo_client_cfg = mldsa_vk_of demo (scf_identity (sv_cfg demo_server))"
  "live 0 demo_server demo_clock"
proof -
  show "server_inv demo demo_server" unfolding demo_server_def by (rule server_new_inv)
  have c: "scf_version (sv_cfg demo_server) = PROTOCOL_VERSION" "scf_identity (sv_cfg demo_server) = replicate 32 4"
    "scf_roster (sv_cfg demo_server) = [mldsa_vk_of demo (replicate 32 3)]" "scf_max_pending (sv_cfg demo_server) = 64"
    "scf_rate_limit_burst (sv_cfg demo_server) = 16" "scf_pending_ttl (sv_cfg demo_server) = from_secs 30"
    unfolding demo_server_cfg
    by (simp_all add: server_config_new_def with_roster_limit_def DEFAULT_MAX_ROSTER_SIZE_def Let_def)
  show "server_ready demo (sv_cfg demo_server) demo_draws" using c by (simp add: server_ready_def demo_draws_def)
  show "can_admit (replicate 8 5) demo_addr demo_server"
    unfolding can_admit_def allowance_def c by (simp add: demo_server_def server_new_def Let_def)
  show "mldsa_vk_of demo (ccf_identity demo_client_cfg) \<in> set (scf_roster (sv_cfg demo_server))"
    "ccf_server_identity demo_client_cfg = mldsa_vk_of demo (scf_identity (sv_cfg demo_server))"
    using c by (simp_all add: demo_client_cfg_def client_config_new_def)
  show "live 0 demo_server demo_clock" using c by (simp add: live_def demo_clock_def from_secs_def)
qed

lemma demo_schedules: "m1_schedule 0 demo_server demo_m1_order 3" "m2_schedule demo_m2_order 3"
proof -
  have "{..<4 :: nat} = {0, 1, 2, 3}" "{..<5 :: nat} = {0, 1, 2, 3, 4}" by auto
  then show "m1_schedule 0 demo_server demo_m1_order 3" "m2_schedule demo_m2_order 3"
    using demo_server_ready(6)
    by (simp_all add: m1_schedule_def m2_schedule_def demo_m1_order_def demo_m2_order_def M1_FRAG_COUNT_def M2_FRAG_COUNT_def)
qed

lemma demo_new:
  obtains h0 where "client_new demo (replicate 64 1) (replicate 32 2) None demo_client_cfg (replicate 8 5) = Inr h0"
  using client_new_ok [OF demo_client_ready] by metis

lemmas demo_honest = demo_hkdf demo_hash demo_server_ready(1) demo_client_ready demo_server_ready(2)

section \<open>Properties\<close>



text \<open>C4: whatever datagrams and timers a client sees, it confirms a session only on a ServerHello for its
  own session id whose signature over TH2 verifies under the pinned server identity; the outcome names
  that identity, the master and the Finished MAC of the M3 it sends are the ones derived from that
  transcript (\<open>agreed\<close>), and it never confirms a second time.\<close>

theorem client_authenticates_server:
  assumes "client_new P ks xs jit cfg sid = Inr h0"
    and "client_step P i (snd (run (client_step P) is h0)) = (Inr (ClientM3Sent ps out), h1)"
  shows "(\<exists>rnd m2 m3. agreed P rnd h0 m2 m3 out \<and> sh_sid m2 = sid \<and>
      mldsa_verify P (ccf_server_identity cfg)
        (the (th2_from_m1_m2 P (client_hello_encode (ch_m1 h0)) (server_hello_encode m2))) (sh_server_sig m2) \<and>
      fragment_message HS_TYPE_CLIENT_CONFIRM (ccf_version cfg) sid (client_confirm_encode m3) = Inr ps) \<and>
    ho_peer_identity out = ccf_server_identity cfg \<and> ho_session_id out = sid \<and>
    (\<forall>ks' ps' out'. Inr (ClientM3Sent ps' out') \<notin> set (fst (run (client_step P) ks' h1)))"
proof -
  have c: "ch_cfg h0 = cfg" "ch_session h0 = sid"
    using assms(1) by (auto simp: client_new_def Let_def split: sum.splits)
  have inv0: "client_inv P h0" by (rule client_new_inv [OF assms(1)])
  let ?h = "snd (run (client_step P) is h0)"
  obtain st where h: "?h = h0\<lparr>ch_state := st\<rparr>" using client_run_fixed [OF inv0] by blast
  have inv: "client_inv P ?h" by (rule client.run_inv [OF inv0])
  note m = client_step_moves [OF inv assms(2)]
  obtain rnd m2 m3 where a: "agreed P rnd h0 m2 m3 out"
    "fragment_message HS_TYPE_CLIENT_CONFIRM (ccf_version cfg) sid (client_confirm_encode m3) = Inr ps"
    "is_m3_sent (ch_state h1)"
    using m [THEN conjunct1]
  proof (cases rule: client_moves.cases)
    case (accept rnd m2 m3 a n d d1)
    then show thesis using that c by (simp add: h)
  qed blast+
  have "client_inv P h1" using client_step_inv [OF inv, of i] assms(2) by simp
  then have "\<forall>ks' ps' out'. Inr (ClientM3Sent ps' out') \<notin> set (fst (run (client_step P) ks' h1))"
    using m3_sent_final a(3) by blast
  then show ?thesis using a(1,2) c unfolding agreed_def by blast
qed

theorem client_authenticates_server_witness:
  "\<exists>h0 is i ps out h1. client_new demo (replicate 64 1) (replicate 32 2) None demo_client_cfg (replicate 8 5) = Inr h0 \<and>
     client_step demo i (snd (run (client_step demo) is h0)) = (Inr (ClientM3Sent ps out), h1) \<and>
     ho_peer_identity out = mldsa_vk_of demo (replicate 32 4)"
proof -
  obtain h0 where h0: "client_new demo (replicate 64 1) (replicate 32 2) None demo_client_cfg (replicate 8 5) = Inr h0"
    by (rule demo_new)
  have r3: "length (replicate 32 (9 :: byte)) = 32" by simp
  obtain m2s s1 m3 out_c h1 where x:
    "run (client_step demo) (map (\<lambda>(rnd, jit, l). ClientDatagram rnd jit (m2s ! l)) (demo_m2_order @ [(replicate 32 9, None, 3)])) h0 =
      (replicate (length demo_m2_order) (Inr ClientNone) @ [Inr (ClientM3Sent [m3] out_c)], h1)"
    by (rule honest_exchange [OF demo_honest r3 demo_server_ready(4,5) h0 demo_server_ready(3) demo_schedules demo_server_ready(6,6),
          of None demo_draws])
  let ?is = "map (\<lambda>(rnd, jit, l). ClientDatagram rnd jit (m2s ! l)) demo_m2_order"
  let ?i = "ClientDatagram (replicate 32 9) None (m2s ! 3)"
  have st: "client_step demo ?i (snd (run (client_step demo) ?is h0)) = (Inr (ClientM3Sent [m3] out_c), h1)"
    using x unfolding map_append run_append by (auto simp: case_prod_beta prod_eq_iff simp del: client_step.simps)
  have "ccf_server_identity demo_client_cfg = mldsa_vk_of demo (replicate 32 4)"
    by (simp add: demo_client_cfg_def client_config_new_def)
  then have "ho_peer_identity out_c = mldsa_vk_of demo (replicate 32 4)"
    using client_authenticates_server [OF h0 st] by simp
  then show ?thesis using h0 st by blast
qed

text \<open>C3: the server completes a handshake only with proof of the client's identity, over every sequence of
  datagrams and roster swaps: the peer it reports is on the roster in force, a well-formed ClientHello
  for that session carries a signature over TH1 that verifies under the peer's key, the M3 just
  received carries the Finished MAC under the key derived from the reported master over the transcript
  with that ClientHello, the pending entry is consumed, and replaying the datagram does not complete again.\<close>

theorem server_authenticates_client:
  assumes "server_step P i (snd (run (server_step P) is (server_new now cfg))) = (Handled (Inr (ServerComplete out)), s1)"
  shows "roster_contains (ho_peer_identity out) s1 \<and> map_of (sv_pending s1) (ho_session_id out) = None \<and>
    (\<forall>out'. fst (server_step P i s1) \<noteq> Handled (Inr (ServerComplete out'))) \<and>
    (\<exists>rnd ck pkt from frag m1 m2 m3 fk. i = Datagram rnd ck pkt from \<and> from_datagram pkt = Inr frag \<and>
       hf_sid frag = ho_session_id out \<and> client_hello_wf P m1 \<and> ch_sid m1 = ho_session_id out \<and>
       mldsa_verify P (ho_peer_identity out) (the (th1_from_m1 P (client_hello_encode m1))) (ch_client_sig m1) \<and>
       client_confirm_decode (hf_body frag) = Inr m3 \<and> length m2 = M2_BODY_LEN \<and>
       derive_finished_key P (ho_master out) (cc_version m3) (ho_session_id out) = Inr fk \<and>
       cc_client_finished m3 =
         compute_client_finished P fk (the (th3_from_m1_m2_m3 P (client_hello_encode m1) m2 (hf_body frag))))"
proof -
  let ?s = "snd (run (server_step P) is (server_new now cfg))"
  have inv: "server_inv P ?s" by (rule server.run_inv [OF server_new_inv])
  obtain rnd ck pkt "from" where i: "i = Datagram rnd ck pkt from" using assms by (cases i) (auto simp: case_prod_beta)
  have t: "as_bytes pkt ! (VERSION_LEN + SESSION_ID_LEN) = HS_TYPE_CLIENT_CONFIRM"
    "as_bytes pkt ! (VERSION_LEN + SESSION_ID_LEN) \<noteq> HS_TYPE_CLIENT_HELLO"
    "on_m3_fragment P ck pkt from ?s = (Inr (ServerComplete out), s1)"
    using assms on_m1_not_complete [of P rnd ck pkt "from" ?s out]
    by (auto simp: i server_handle_datagram_def Let_def case_prod_beta hs_types prod_eq_iff split: if_splits)
  have ev: "server_inv P (evict_expired (ck_evict ck) ?s)" by (rule evict_expired_inv [OF inv])
  show ?thesis
  proof (cases rule: on_m3_cases [of P ck pkt "from" ?s])
    case (completed frag entry m3 sk ss_b master fk s2)
    obtain m1 m2 pk where e: "pe_m1_body entry = Some (client_hello_encode m1)" "client_hello_wf P m1" "ch_sid m1 = hf_sid frag"
      "pe_m2_cache entry = Some m2" "length m2 = M2_BODY_LEN" "pe_verified_client entry = Some pk"
      "mldsa_verify P pk (the (th1_from_m1 P (client_hello_encode m1))) (ch_client_sig m1)"
      using pending_invD(3) [OF server_inv_pending [OF ev] completed(2)] completed(4) by (auto simp: entry_ok_def)
    have s1: "s1 = pending_remove (hf_sid frag) s2" and out: "ho_master out = master" "ho_session_id out = hf_sid frag" "ho_peer_identity out = pk"
      using t(3) completed(15) e(6) by auto
    have inv1: "server_inv P s1" using on_m3_inv [OF inv, of ck pkt "from"] t(3) by simp
    have none: "map_of (sv_pending s1) (hf_sid frag) = None" by (simp add: s1 pending_frame)
    have "map_of (sv_pending (evict_expired (ck_evict ck) s1)) (hf_sid frag) = None"
      using none by (simp add: evict_expired_lookup [OF inv1])
    then have "fst (server_step P i s1) = Handled (Inr ServerNone)"
      using completed(1) t(1,2) by (simp add: i server_handle_datagram_def on_m3_fragment_def Let_def)
    moreover have "roster_contains (ho_peer_identity out) s1"
      using completed(14) e(6) out by (simp add: roster_contains_def s1 pending_frame)
    ultimately show ?thesis
      using i completed(1,6,12,13) e none out
      by (intro conjI exI [of _ rnd] exI [of _ ck] exI [of _ pkt] exI [of _ "from"] exI [of _ frag] exI [of _ m1] exI [of _ m2]
          exI [of _ m3] exI [of _ fk]) (simp_all add: m3_transcript_def)
  next
    case (refused r ok s2)
    then have "r = Inr (ServerComplete out)" using t(3) by simp
    then show ?thesis using refused(3) by blast
  qed (use t(3) in simp_all)
qed

theorem server_authenticates_client_witness:
  "\<exists>i is out s1. server_step demo i (snd (run (server_step demo) is (server_new 0
       (server_config_new (replicate 32 4) [mldsa_vk_of demo (replicate 32 3)])))) = (Handled (Inr (ServerComplete out)), s1) \<and>
     roster_contains (ho_peer_identity out) s1 \<and> map_of (sv_pending s1) (ho_session_id out) = None"
proof -
  obtain h0 where h0: "client_new demo (replicate 64 1) (replicate 32 2) None demo_client_cfg (replicate 8 5) = Inr h0"
    by (rule demo_new)
  have r3: "length (replicate 32 (9 :: byte)) = 32" by simp
  obtain m2s s1 m3 out_s s2 where x:
    "run (server_step demo) (map (\<lambda>(rnd, ck, l). Datagram rnd ck (ch_m1_frags h0 ! l) demo_addr)
        (demo_m1_order @ [(demo_draws, demo_clock, 3)])) demo_server =
      (replicate (length demo_m1_order) (Handled (Inr ServerNone)) @ [Handled (Inr (ServerEmit m2s demo_addr))], s1)"
    "server_step demo (Datagram demo_draws demo_clock m3 demo_addr) s1 = (Handled (Inr (ServerComplete out_s)), s2)"
    by (rule honest_exchange [OF demo_honest r3 demo_server_ready(4,5) h0 demo_server_ready(3) demo_schedules demo_server_ready(6,6),
          of None demo_draws])
  have "server_step demo (Datagram demo_draws demo_clock m3 demo_addr)
      (snd (run (server_step demo) (map (\<lambda>(rnd, ck, l). Datagram rnd ck (ch_m1_frags h0 ! l) demo_addr)
        (demo_m1_order @ [(demo_draws, demo_clock, 3)])) (server_new 0
       (server_config_new (replicate 32 4) [mldsa_vk_of demo (replicate 32 3)])))) = (Handled (Inr (ServerComplete out_s)), s2)"
    unfolding demo_server_def [symmetric] x(1) snd_conv by (rule x(2))
  from server_authenticates_client [OF this] this show ?thesis by blast
qed

end
