(* ===== verification/Manager_Common.thy ===== *)
theory Manager_Common
  imports Handshake_Agreement
begin

text \<open>
  What the two session managers of \<open>pq-tunnel-core/src/session_manager.rs\<close> share: the limits with
  their validation, the events and errors, the per-source failure gate, and the bounded
  retransmission of \<open>Close\<close> packets. The gate is the second interpretation of \<open>fifo_table\<close>.
\<close>

section \<open>Limits\<close>

record SessionLimits =
  sl_max_sessions :: nat
  sl_idle_timeout :: "duration option"
  sl_lifetime_cap :: "duration option"
  sl_confirm_timeout :: "duration option"
  sl_liveness_probe_interval :: duration
  sl_liveness_rounds :: u32
  sl_handshake_timeout :: "duration option"
  sl_fail_burst :: u32
  sl_fail_window :: duration
  sl_max_fail_buckets :: nat
  sl_slot_interval :: duration

definition session_limits_default :: SessionLimits where
  "session_limits_default = \<lparr>sl_max_sessions = 64, sl_idle_timeout = Some (from_secs (5 * 60)), sl_lifetime_cap = None,
     sl_confirm_timeout = Some (from_secs 30), sl_liveness_probe_interval = from_secs 5, sl_liveness_rounds = 3,
     sl_handshake_timeout = Some (from_secs 30), sl_fail_burst = 64, sl_fail_window = from_secs 10,
     sl_max_fail_buckets = 4096, sl_slot_interval = from_millis 5\<rparr>"

datatype ManagerError =
    MgrHandshake HandshakeV2Error
  | MgrSession SessionError
  | NoSession
  | InvalidState string
  | MgrInvalidConfig string
  | AppClosed

text \<open>A duration as \<open>{:?}\<close> prints it: the largest unit with a non-zero integer part, the fraction
  without trailing zeros; the micro sign is its two UTF-8 bytes.\<close>

definition zero_padded :: "nat \<Rightarrow> nat \<Rightarrow> string" where
  "zero_padded width n = (let d = decimal n in replicate (width - length d) CHR ''0'' @ d)"

definition fmt_decimal :: "nat \<Rightarrow> nat \<Rightarrow> nat \<Rightarrow> string \<Rightarrow> string" where
  "fmt_decimal int_part fraction width suffix =
     (let digits = rev (dropWhile (\<lambda>c. c = CHR ''0'') (rev (zero_padded width fraction)))
      in decimal int_part @ (if fraction = 0 then '''' else ''.'' @ digits) @ suffix)"

definition duration_debug :: "duration \<Rightarrow> string" where
  "duration_debug d =
     (if d \<ge> 1000000000 then fmt_decimal (d div 1000000000) (d mod 1000000000) 9 ''s''
      else if d \<ge> 1000000 then fmt_decimal (d div 1000000) (d mod 1000000) 6 ''ms''
      else if d \<ge> 1000 then fmt_decimal (d div 1000) (d mod 1000) 3 [CHR 0xC2, CHR 0xB5, CHR ''s'']
      else fmt_decimal d 0 1 ''ns'')"

definition session_limits_validate :: "SessionLimits \<Rightarrow> ManagerError + unit" where
  "session_limits_validate l =
     (if (case sl_idle_timeout l of Some idle \<Rightarrow> idle \<le> sl_liveness_probe_interval l | None \<Rightarrow> False)
      then Inl (MgrInvalidConfig (''idle_timeout ('' @ duration_debug (the (sl_idle_timeout l)) @
             '') must be strictly greater than liveness_probe_interval ('' @
             duration_debug (sl_liveness_probe_interval l) @ '')''))
      else if sl_liveness_rounds l = 0 then Inl (MgrInvalidConfig ''liveness_rounds must be at least 1'')
      else if sl_slot_interval l = 0 then Inl (MgrInvalidConfig ''slot_interval must be non-zero'')
      else Inr ())"

section \<open>Events\<close>

datatype CloseReason =
    CR_IdleTimeout
  | CR_LifetimeCap
  | CR_NonceExhausted
  | CR_NotConfirmed
  | CR_PeerUnresponsive
  | CR_HandshakeTimeout
  | CR_Capacity
  | CR_PeerClosed
  | CR_UserClosed

datatype ManagerEvent =
    ME_Send "WirePacket list" SocketAddr
  | ME_SendPacket WirePacket SocketAddr
  | ME_Established bytes SocketAddr
  | ME_AppData bytes InnerPlaintext
  | ME_Closed bytes CloseReason
  | ME_OutboundDropped u64
  | ME_None

datatype DataResult =
    DR_Payload InnerPlaintext
  | DR_Control InnerPlaintext
  | DR_PeerClose
  | DR_SessionDead CloseReason
  | DR_Failed
  | DR_Rejected

text \<open>The error arms of the two \<open>on_data_packet\<close>; \<open>Inl\<close> is the early return.\<close>

fun classify_error :: "SessionError \<Rightarrow> SessionError + DataResult" where
  "classify_error SE_RekeyRequired = Inr (DR_SessionDead CR_NonceExhausted)"
| "classify_error (SE_Codec Rejected) = Inr DR_Rejected"
| "classify_error (SE_Codec DecryptionFailed) = Inr DR_Failed"
| "classify_error (SE_Codec (NonceExhausted c)) = Inr (DR_SessionDead CR_NonceExhausted)"
| "classify_error (SE_Codec e) = Inr DR_Failed"
| "classify_error e = Inl e"

definition CONTROL_PROBE :: byte where "CONTROL_PROBE = 0x01"
definition CONTROL_ACK :: byte where "CONTROL_ACK = 0x02"

definition control_payload :: "byte \<Rightarrow> bytes" where
  "control_payload sub = (replicate PAYLOAD_LEN 0)[0 := sub]"

section \<open>Failure gate\<close>

record FailBucket =
  fb_tokens :: u32
  fb_last_refill :: instant

record FailGate =
  fg_buckets :: "(SocketAddr, FailBucket) table"
  fg_order :: "SocketAddr list"
  fg_last_sweep :: instant

definition fail_gate_new :: "instant \<Rightarrow> FailGate" where
  "fail_gate_new now = \<lparr>fg_buckets = [], fg_order = [], fg_last_sweep = now\<rparr>"

definition fail_peek :: "SocketAddr \<Rightarrow> instant \<Rightarrow> SessionLimits \<Rightarrow> FailGate \<Rightarrow> bool" where
  "fail_peek from now l g =
     (if sl_max_fail_buckets l = 0 then False
      else case map_of (fg_buckets g) from of
        None \<Rightarrow> True
      | Some b \<Rightarrow> if now - fb_last_refill b \<ge> sl_fail_window l then True else fb_tokens b > 0)"

fun fail_evict ::
  "nat \<Rightarrow> (SocketAddr, FailBucket) table \<Rightarrow> SocketAddr list \<Rightarrow> (SocketAddr, FailBucket) table \<times> SocketAddr list" where
  "fail_evict cap buckets [] = (buckets, [])"
| "fail_evict cap buckets (victim # order) =
     (if length buckets \<ge> cap then fail_evict cap (AList.delete victim buckets) order
      else (buckets, victim # order))"

definition fail_consume :: "SocketAddr \<Rightarrow> instant \<Rightarrow> SessionLimits \<Rightarrow> FailGate \<Rightarrow> FailGate" where
  "fail_consume from now l g =
     (if sl_max_fail_buckets l = 0 then g
      else case map_of (fg_buckets g) from of
        Some b0 \<Rightarrow>
          let b = (if now - fb_last_refill b0 \<ge> sl_fail_window l
                   then b0\<lparr>fb_tokens := sl_fail_burst l, fb_last_refill := now\<rparr> else b0)
          in g\<lparr>fg_buckets := AList.update from (b\<lparr>fb_tokens := saturating_sub (fb_tokens b) 1\<rparr>) (fg_buckets g)\<rparr>
      | None \<Rightarrow>
          let (buckets, order) = fail_evict (sl_max_fail_buckets l) (fg_buckets g) (fg_order g)
          in g\<lparr>fg_buckets := AList.update from
                 \<lparr>fb_tokens = saturating_sub (sl_fail_burst l) 1, fb_last_refill = now\<rparr> buckets,
               fg_order := order @ [from]\<rparr>)"

definition fail_sweep :: "instant \<Rightarrow> SessionLimits \<Rightarrow> FailGate \<Rightarrow> FailGate" where
  "fail_sweep now l g =
     (if fg_buckets g = [] then g
      else if now - fg_last_sweep g < sl_fail_window l then g
      else
        let buckets = filter (\<lambda>(_, b). now - fb_last_refill b < sl_fail_window l) (fg_buckets g)
        in g\<lparr>fg_last_sweep := now, fg_buckets := buckets,
             fg_order := filter (\<lambda>k. contains_key k buckets) (fg_order g)\<rparr>)"

section \<open>Close retransmission\<close>

record PendingClose =
  pc_session :: WireSession
  pc_peer :: SocketAddr
  pc_attempts_left :: u32
  pc_next_at :: instant

definition CLOSE_RETRANSMIT_TOTAL :: u32 where "CLOSE_RETRANSMIT_TOTAL = 3"
definition CLOSE_RETRANSMIT_BASE :: duration where "CLOSE_RETRANSMIT_BASE = from_secs 1"

definition retransmit_one :: "primitives \<Rightarrow> instant \<Rightarrow> PendingClose \<Rightarrow> ManagerEvent option \<times> PendingClose" where
  "retransmit_one P now pc =
     (if pc_attempts_left pc = 0 \<or> now < pc_next_at pc then (None, pc)
      else
        let (res, session) = wire_encrypt P Close (replicate PAYLOAD_LEN 0) (pc_session pc);
            pc1 = pc\<lparr>pc_attempts_left := pc_attempts_left pc - 1, pc_next_at := now + CLOSE_RETRANSMIT_BASE * 2,
                     pc_session := session\<rparr>
        in (case res of
              Inr packet \<Rightarrow> (Some (ME_SendPacket packet (pc_peer pc)), pc1)
            | Inl _ \<Rightarrow> (None, pc1\<lparr>pc_attempts_left := 0\<rparr>)))"

definition retransmit_closes ::
  "primitives \<Rightarrow> instant \<Rightarrow> PendingClose list \<Rightarrow> ManagerEvent list \<times> PendingClose list" where
  "retransmit_closes P now pcs =
     (let rs = map (retransmit_one P now) pcs
      in (List.map_filter fst rs,
          filter (\<lambda>pc. pc_attempts_left pc > 0 \<and> now < pc_next_at pc) (map snd rs)))"

section \<open>The gate stays bounded\<close>

interpretation gate: fifo_table "fail_evict cap" cap for cap
  by unfold_locales simp_all

definition gate_inv :: "SessionLimits \<Rightarrow> FailGate \<Rightarrow> bool" where
  "gate_inv l g \<longleftrightarrow> synced (fg_buckets g) (fg_order g) \<and> length (fg_buckets g) \<le> sl_max_fail_buckets l"

lemma gate_new_inv: "gate_inv l (fail_gate_new now)"
  by (simp add: gate_inv_def fail_gate_new_def)

lemma fail_consume_inv:
  assumes "gate_inv l g"
  shows "gate_inv l (fail_consume from now l g)"
proof -
  have inv: "synced (fg_buckets g) (fg_order g)" "length (fg_buckets g) \<le> sl_max_fail_buckets l"
    using assms by (simp_all add: gate_inv_def)
  consider (off) "sl_max_fail_buckets l = 0" | (known) b where "sl_max_fail_buckets l \<noteq> 0" "map_of (fg_buckets g) from = Some b"
    | (fresh) "sl_max_fail_buckets l \<noteq> 0" "map_of (fg_buckets g) from = None" by (cases "map_of (fg_buckets g) from") auto
  then show ?thesis
  proof cases
    case off
    then show ?thesis using assms by (simp add: fail_consume_def)
  next
    case (known b)
    then have c: "contains_key from (fg_buckets g)" by (simp add: contains_key_def)
    show ?thesis
      using known inv(2) c synced_overwrite [OF inv(1) c]
      by (simp add: fail_consume_def Let_def gate_inv_def length_update)
  next
    case fresh
    then have c: "\<not> contains_key from (fg_buckets g)" by (simp add: contains_key_def)
    obtain bs ord where e: "fail_evict (sl_max_fail_buckets l) (fg_buckets g) (fg_order g) = (bs, ord)" by fastforce
    show ?thesis
      using fresh e gate.insert_new [OF _ inv(1) c e] by (simp add: fail_consume_def Let_def gate_inv_def)
  qed
qed

lemma fail_sweep_inv: "gate_inv l g \<Longrightarrow> gate_inv l (fail_sweep now l g)"
  by (auto simp: gate_inv_def fail_sweep_def Let_def synced_retain intro: le_trans [OF length_filter_le])

text \<open>Sweeping changes no decision at or after the sweep.\<close>

lemma fail_peek_sweep:
  assumes "gate_inv l g" "now \<le> now'"
  shows "fail_peek from now' l (fail_sweep now l g) = fail_peek from now' l g"
proof -
  have ok: "table_ok (fg_buckets g)" using assms(1) by (simp add: gate_inv_def synced_def)
  have "now - t \<ge> w \<Longrightarrow> now' - t \<ge> w" for t w using assms(2) by linarith
  then show ?thesis
    using ok by (auto simp: fail_peek_def fail_sweep_def Let_def map_of_filter not_less split: option.splits)
qed

text \<open>The budget a failure at \<open>now\<close> is charged to: a full one for a new source or in a new window.\<close>

definition failure_budget :: "SocketAddr \<Rightarrow> instant \<Rightarrow> SessionLimits \<Rightarrow> FailGate \<Rightarrow> FailBucket" where
  "failure_budget from now l g =
     (case map_of (fg_buckets g) from of
        Some b \<Rightarrow> if now - fb_last_refill b < sl_fail_window l then b else \<lparr>fb_tokens = sl_fail_burst l, fb_last_refill = now\<rparr>
      | None \<Rightarrow> \<lparr>fb_tokens = sl_fail_burst l, fb_last_refill = now\<rparr>)"

text \<open>A failure takes one token of its own source. The bucket of another source goes only when a new source
  needs its place in a full table, and then it is the one tracked longest.\<close>

lemma fail_consume_effect:
  assumes inv: "gate_inv l g" and on: "sl_max_fail_buckets l \<noteq> 0"
  shows "map_of (fg_buckets (fail_consume from now l g)) src =
    (if src = from then Some ((failure_budget from now l g)\<lparr>fb_tokens := fb_tokens (failure_budget from now l g) -
         (if fb_tokens (failure_budget from now l g) = 0 then 0 else 1)\<rparr>)
     else if \<not> contains_key from (fg_buckets g) \<and> length (fg_buckets g) = sl_max_fail_buckets l \<and> src = hd (fg_order g)
     then None else map_of (fg_buckets g) src)"
proof -
  have sat: "saturating_sub t 1 = t - (if t = 0 then 0 else 1)" for t :: u32
    using unat_gt_0 [of t] by (auto simp: saturating_sub_def word_le_nat_alt Suc_le_eq)
  show ?thesis
  proof (cases "map_of (fg_buckets g) from")
    case (Some b)
    then show ?thesis
      using on by (auto simp: fail_consume_def failure_budget_def Let_def table_simps contains_key_def sat not_less)
  next
    case None
    have s: "synced (fg_buckets g) (fg_order g)" "length (fg_buckets g) \<le> sl_max_fail_buckets l" using inv by (simp_all add: gate_inv_def)
    have "fail_evict (sl_max_fail_buckets l) (fg_buckets g) (fg_order g) =
        (if length (fg_buckets g) = sl_max_fail_buckets l then (AList.delete (hd (fg_order g)) (fg_buckets g), tl (fg_order g))
         else (fg_buckets g, fg_order g))"
      using gate.evict_full [OF s(1), of "sl_max_fail_buckets l"] gate.evict_idle [of "fg_buckets g" "sl_max_fail_buckets l"] s(2) on
      by (cases "length (fg_buckets g) = sl_max_fail_buckets l") simp_all
    then show ?thesis
      using None on by (simp add: fail_consume_def failure_budget_def Let_def table_simps contains_key_def sat)
  qed
qed

section \<open>Close packets are bounded\<close>

definition closes_left :: "PendingClose list \<Rightarrow> nat" where
  "closes_left pcs = (\<Sum>pc \<leftarrow> pcs. unat (pc_attempts_left pc))"

lemma unat_decrement: "(n :: u32) \<noteq> 0 \<Longrightarrow> Suc (unat (n - 1)) = unat n"
  by (simp add: unat_minus_one unat_gt_0)

lemma retransmit_one_budget:
  "(if fst (retransmit_one P now pc) = None then 0 else 1) + unat (pc_attempts_left (snd (retransmit_one P now pc)))
     \<le> unat (pc_attempts_left pc)"
  using unat_decrement [of "pc_attempts_left pc"]
  by (auto simp: retransmit_one_def Let_def split: prod.splits sum.splits)

lemma retransmit_closes_budget:
  "length (fst (retransmit_closes P now pcs)) + closes_left (snd (retransmit_closes P now pcs)) \<le> closes_left pcs"
proof (induction pcs)
  case Nil
  then show ?case by (simp add: retransmit_closes_def closes_left_def map_filter_def)
next
  case (Cons pc pcs)
  then show ?case
    using retransmit_one_budget [of P now pc]
    by (auto simp: retransmit_closes_def closes_left_def map_filter_def Let_def split: if_splits)
qed

section \<open>Sessions a manager holds\<close>

definition session_ok :: "Role \<Rightarrow> bytes \<Rightarrow> WireSession \<Rightarrow> bool" where
  "session_ok role sid s \<longleftrightarrow> wire_inv s \<and> ws_state s = Established \<and> ws_role s = role \<and> ws_session_id s = sid"

lemma established_session_ok:
  assumes "wire_established P now role outcome = Inr s" "length (ho_session_id outcome) = 8"
  shows "session_ok role (ho_session_id outcome) s"
  using wire_established_inv [OF assms] assms(1)
  by (auto simp: session_ok_def wire_established_def split: sum.splits)

lemma encrypt_session_ok:
  assumes "session_ok role sid s" "wire_encrypt P mt payload s = (res, s1)" "res \<noteq> Inl SE_RekeyRequired"
  shows "session_ok role sid s1"
proof -
  have "wire_inv s1" using wire_encrypt_inv [of s P mt payload] assms by (simp add: session_ok_def)
  then show ?thesis
    using assms by (cases rule: wire_encrypt_cases [of s P mt payload]) (auto simp: session_ok_def)
qed

lemma cover_session_ok:
  assumes "session_ok role sid s" "wire_cover P rnd s = (res, s1)" "res \<noteq> Inl SE_RekeyRequired"
  shows "session_ok role sid s1"
  using assms encrypt_session_ok [OF assms(1)] by (cases rnd) (auto simp: wire_cover_eq)

lemma decrypt_session_ok:
  assumes "session_ok role sid s" "wire_decrypt P pkt s = (res, s1)" "res \<noteq> Inl SE_RekeyRequired"
  shows "session_ok role sid s1"
proof -
  have "wire_inv s1" using wire_decrypt_inv [of s P pkt] assms by (simp add: session_ok_def)
  then show ?thesis
    using assms by (cases rule: wire_decrypt_cases [of s P pkt]) (auto simp: session_ok_def)
qed

text \<open>The outcomes of a decryption on a held session.\<close>

lemma decrypt_codec_errors:
  assumes "cipher_decrypt P pkt c = (Inl e, c1)"
  shows "e \<in> {Rejected, DecryptionFailed} \<or> (\<exists>n. e = NonceExhausted n)"
  using assms
  by (auto simp: cipher_decrypt_def Let_def split: sum.splits if_splits prod.splits)

lemma held_decrypt_cases:
  assumes "session_ok role sid s"
  obtains (ok) inner c where "cipher_decrypt P pkt (ws_cipher s) = (Inr inner, c)"
      "wire_decrypt P pkt s = (Inr inner, s\<lparr>ws_cipher := c, ws_metrics := count_received (ws_metrics s)\<rparr>)"
  | (unauthentic) "wire_decrypt P pkt s = (Inl (SE_Codec DecryptionFailed), s)"
      "cipher_decrypt P pkt (ws_cipher s) = (Inl DecryptionFailed, ws_cipher s)"
  | (rejected) c where "cipher_decrypt P pkt (ws_cipher s) = (Inl Rejected, c)"
      "wire_decrypt P pkt s = (Inl (SE_Codec Rejected), s\<lparr>ws_cipher := c\<rparr>)"
  | (exhausted) s1 where "wire_decrypt P pkt s = (Inl SE_RekeyRequired, s1)"
proof (cases rule: wire_decrypt_cases [of s P pkt])
  case blocked
  then show thesis using assms by (simp add: session_ok_def)
next
  case (received inner c)
  then show thesis using ok by blast
next
  case (rekey n c)
  then show thesis using exhausted by blast
next
  case (failed e c)
  note k = decrypt_codec_errors [OF failed(2)]
  have ne: "e \<noteq> NonceExhausted n" for n
    using failed by (auto simp: wire_decrypt_def require_established_def)
  show thesis
  proof (cases "e = Rejected")
    case True
    then show thesis using rejected failed by blast
  next
    case False
    then have e: "e = DecryptionFailed" using k ne by blast
    then have "c = ws_cipher s" using failed(2) decrypt_state [of P pkt "ws_cipher s"]
      by (auto simp: cipher_decrypt_def Let_def split: sum.splits if_splits prod.splits)
    then show thesis using unauthentic failed e by simp
  qed
qed

section \<open>Results of one event\<close>

fun one_event :: "(ManagerError + ManagerEvent) \<times> 's \<Rightarrow> (ManagerError + ManagerEvent list) \<times> 's" where
  "one_event (Inl e, m) = (Inl e, m)"
| "one_event (Inr ev, m) = (Inr [ev], m)"

lemma snd_one_event [simp]: "snd (one_event r) = snd r"
  by (cases r rule: one_event.cases) simp_all

section \<open>Pending closes\<close>

definition close_ok :: "PendingClose \<Rightarrow> bool" where
  "close_ok pc \<longleftrightarrow> wire_inv (pc_session pc) \<and> unat (pc_attempts_left pc) \<le> 2"

lemma retransmit_one_ok: "close_ok pc \<Longrightarrow> close_ok (snd (retransmit_one P now pc))"
proof -
  assume ok: "close_ok pc"
  obtain res s1 where w: "wire_encrypt P Close (replicate PAYLOAD_LEN 0) (pc_session pc) = (res, s1)" by fastforce
  have "wire_inv s1" using wire_encrypt_inv [of "pc_session pc" P Close "replicate PAYLOAD_LEN 0"] ok w by (simp add: close_ok_def)
  then show ?thesis
    using ok w unat_decrement [of "pc_attempts_left pc"]
    by (auto simp: retransmit_one_def close_ok_def Let_def split: sum.splits)
qed

lemma retransmit_closes_ok:
  "(\<And>pc. pc \<in> set pcs \<Longrightarrow> close_ok pc) \<Longrightarrow> pc \<in> set (snd (retransmit_closes P now pcs)) \<Longrightarrow> close_ok pc"
  by (auto simp: retransmit_closes_def Let_def retransmit_one_ok)

lemma first_close_ok:
  assumes "wire_inv s" "wire_encrypt P Close payload s = (res, s1)"
  shows "close_ok \<lparr>pc_session = s1, pc_peer = peer, pc_attempts_left = CLOSE_RETRANSMIT_TOTAL - 1, pc_next_at = at\<rparr>"
  using wire_encrypt_inv [OF assms(1), of P Close payload] assms(2) by (simp add: close_ok_def CLOSE_RETRANSMIT_TOTAL_def)

section \<open>Demultiplexing\<close>

text \<open>The dispatcher inspects the first byte of the packet nonce.\<close>

lemma to_be_head: "to_be 8 (c :: u64) ! 0 = ucast (drop_bit 56 c)"
  by (simp add: to_be_def rev_nth)

lemma low_nonce_not_fragment:
  assumes "as_bytes pkt ! 9 = to_be 8 c ! 0" "unat (c :: u64) < 2 ^ 60"
  shows "\<not> is_handshake_fragment pkt"
proof -
  have "unat (drop_bit 56 c) = unat c div 2 ^ 56" unfolding unat_drop_bit_eq by (rule drop_bit_eq_div)
  then have lt: "unat (drop_bit 56 c) < 16" using assms(2) by (simp add: less_mult_imp_div_less)
  have "unat (as_bytes pkt ! 9) < 16"
    unfolding assms(1) to_be_head using lt by (simp add: unsigned_ucast_eq take_bit_nat_eq_self)
  then show ?thesis by (auto simp: is_handshake_fragment_def layout_simps hs_types)
qed

lemma header_nonce_byte:
  "length sid = 8 \<Longrightarrow> as_bytes (WirePacket (header_encode (header_new sid c) @ ct)) ! 9 = to_be 8 c ! 0"
  by (simp add: header_encode_eq header_new_def nth_append)

lemma sealed_not_fragment:
  assumes "cipher_wf s" "cipher_encrypt P mt payload s = (Inr pkt, s1)" "unat (cs_send_counter s) < 2 ^ 60"
  shows "\<not> is_handshake_fragment pkt"
proof -
  obtain ct where pkt: "pkt = WirePacket (header_encode (sealed_header s) @ ct)"
    using encrypt_okD(4) [OF assms(1,2)] by blast
  have "length (cs_session_id s) = 8" using assms(1) by (simp add: cipher_wf_def)
  from low_nonce_not_fragment [OF header_nonce_byte [OF this] assms(3)] show ?thesis by (simp add: pkt)
qed

lemma fragments_recognised:
  assumes "fragment_message t v sid msg = Inr pkts" "length sid = 8" "p \<in> set pkts"
  shows "is_handshake_fragment p"
proof -
  obtain n where sh: "hs_shape t n msg"
    using assms(1) by (auto simp: fragment_message_def hs_shape_def split: option.splits if_splits)
  have "pkts = map (\<lambda>i. WirePacket (hs_datagram t v sid msg n i)) [0..<unat n]"
    using assms(1) fragment_message_ok [OF sh, of v sid] by simp
  then have "p \<in> (\<lambda>i. WirePacket (hs_datagram t v sid msg n i)) ` set [0..<unat n]"
    using assms(3) by (simp only: set_map)
  then obtain i where "p = WirePacket (hs_datagram t v sid msg n i)" by (rule imageE)
  then have "as_bytes p ! 9 = t" using assms(2) by (simp add: hs_datagram_eq nth_append)
  then show ?thesis using sh
    by (auto simp: is_handshake_fragment_def hs_shape_def expected_frag_count_def layout_simps split: if_splits)
qed

end
