(* ===== verification/Transport.thy ===== *)
theory Transport
  imports Manager_Common
begin

text \<open>
  The UDP transport of \<open>pq-tunnel-core/src/udp.rs\<close>, its use as \<open>HandshakeTransport\<close>
  (\<open>handshake_v2.rs\<close>), and the effects the drivers of \<open>session_manager.rs\<close> perform on it and on the
  application channel. The socket is not modelled: what \<open>recv_from\<close> wrote into the buffer and what
  \<open>send_to\<close> answered are arguments. A driver keeps the effects it has performed; whether the next one
  succeeds is asked of an environment indexed by their number.
\<close>

section \<open>UDP (\<open>udp.rs\<close>)\<close>

text \<open>The parts of an \<open>io::Error\<close> the code looks at: its kind, its OS code and its text.\<close>

datatype ErrorKind = ConnectionReset | ConnectionRefused | OtherKind

record IoError =
  io_kind :: ErrorKind
  io_raw_os_error :: "int option"
  io_text :: string

datatype UdpError =
    UdpIo IoError
  | UdpNoPeer
  | UdpWrongSize nat nat

definition udp_error_text :: "UdpError \<Rightarrow> string" where
  "udp_error_text e =
     (case e of
        UdpIo err \<Rightarrow> ''udp io: '' @ io_text err
      | UdpNoPeer \<Rightarrow> ''no remote peer configured''
      | UdpWrongSize expected got \<Rightarrow>
          ''datagram size mismatch: expected '' @ decimal expected @ '', got '' @ decimal got)"

definition is_recoverable_reset :: "UdpError \<Rightarrow> bool" where
  "is_recoverable_reset e =
     (case e of UdpIo err \<Rightarrow> io_kind err = ConnectionReset \<or> io_kind err = ConnectionRefused | _ \<Rightarrow> False)"

text \<open>The transport keeps the address of its peer; the socket itself is the argument \<open>sock\<close> of the senders.
  \<open>bound\<close> is the answer of the operating system to the bind, \<open>connect_local\<close> the address a client binds.\<close>

record UdpTransport =
  ut_peer :: "SocketAddr option"

definition udp_bind :: "IoError + unit \<Rightarrow> IoError + UdpTransport" where
  "udp_bind bound = (case bound of Inl e \<Rightarrow> Inl e | Inr _ \<Rightarrow> Inr \<lparr>ut_peer = None\<rparr>)"

definition connect_local :: "SocketAddr \<Rightarrow> string" where
  "connect_local remote = (case remote of SocketAddrV4 _ _ \<Rightarrow> ''0.0.0.0:0'' | SocketAddrV6 _ _ _ _ \<Rightarrow> ''[::]:0'')"

definition udp_connect :: "(string \<Rightarrow> IoError + unit) \<Rightarrow> SocketAddr \<Rightarrow> IoError + UdpTransport" where
  "udp_connect bind remote =
     (case bind (connect_local remote) of Inl e \<Rightarrow> Inl e | Inr _ \<Rightarrow> Inr \<lparr>ut_peer = Some remote\<rparr>)"

definition set_peer :: "SocketAddr \<Rightarrow> UdpTransport \<Rightarrow> UdpTransport" where
  "set_peer peer t = t\<lparr>ut_peer := Some peer\<rparr>"

definition udp_send_to :: "(bytes \<Rightarrow> SocketAddr \<Rightarrow> IoError + nat) \<Rightarrow> WirePacket \<Rightarrow> SocketAddr \<Rightarrow> UdpError + unit" where
  "udp_send_to sock packet peer =
     (case sock (as_bytes packet) peer of
        Inl e \<Rightarrow> Inl (UdpIo e)
      | Inr n \<Rightarrow> if n \<noteq> PACKET_SIZE then Inl (UdpWrongSize PACKET_SIZE n) else Inr ())"

definition udp_send ::
  "(bytes \<Rightarrow> SocketAddr \<Rightarrow> IoError + nat) \<Rightarrow> WirePacket \<Rightarrow> UdpTransport \<Rightarrow> UdpError + unit" where
  "udp_send sock packet t =
     (case ut_peer t of None \<Rightarrow> Inl UdpNoPeer | Some peer \<Rightarrow> udp_send_to sock packet peer)"

text \<open>\<open>recv_from\<close> writes the datagram into a buffer of \<open>PACKET_SIZE + 1\<close> bytes; the \<open>expect\<close> on the
  parsed packet cannot fail.\<close>

definition udp_recv :: "IoError + (bytes \<times> SocketAddr) \<Rightarrow> UdpError + (WirePacket \<times> SocketAddr)" where
  "udp_recv got =
     (case got of
        Inl e \<Rightarrow>
          if io_raw_os_error e = Some 10040 then Inl (UdpWrongSize PACKET_SIZE (PACKET_SIZE + 1)) else Inl (UdpIo e)
      | Inr (data, from) \<Rightarrow>
          let buf = copy_at 0 data (replicate (PACKET_SIZE + 1) 0); n = length data
          in if n \<noteq> PACKET_SIZE then Inl (UdpWrongSize PACKET_SIZE n)
             else Inr (projr (packet_from_bytes (take PACKET_SIZE buf)), from))"

section \<open>\<open>HandshakeTransport\<close> for UDP (\<open>handshake_v2.rs\<close>)\<close>

definition transport_send_to ::
  "(bytes \<Rightarrow> SocketAddr \<Rightarrow> IoError + nat) \<Rightarrow> WirePacket \<Rightarrow> SocketAddr \<Rightarrow> HandshakeV2Error + unit" where
  "transport_send_to sock packet peer =
     (case udp_send_to sock packet peer of Inl e \<Rightarrow> Inl (HE_Transport (udp_error_text e)) | Inr u \<Rightarrow> Inr u)"

definition transport_recv :: "IoError + (bytes \<times> SocketAddr) \<Rightarrow> HandshakeV2Error + (WirePacket \<times> SocketAddr)" where
  "transport_recv got =
     (case udp_recv got of
        Inr v \<Rightarrow> Inr v
      | Inl (UdpWrongSize _ _) \<Rightarrow> Inl HE_DatagramRejected
      | Inl e \<Rightarrow> if is_recoverable_reset e then Inl HE_TransportReset else Inl (HE_Transport (udp_error_text e)))"

text \<open>A datagram reaches the protocol exactly when it has the packet size; a longer one is recognised by
  the spare byte of the buffer although the kernel cut it.\<close>

lemma transport_recv_datagram:
  "transport_recv (Inr (take (PACKET_SIZE + 1) data, from)) =
     (if length data = PACKET_SIZE then Inr (WirePacket data, from) else Inl HE_DatagramRejected)"
  by (auto simp: transport_recv_def udp_recv_def packet_from_bytes_def copy_at_def layout_values Let_def)

lemma transport_recv_wf:
  assumes "transport_recv got = Inr (pkt, from)"
  shows "packet_wf pkt"
  using assms
  by (auto simp: transport_recv_def udp_recv_def packet_from_bytes_def packet_wf_def Let_def copy_at_def
      split: sum.splits prod.splits UdpError.splits if_splits)

lemma transport_recv_error:
  "transport_recv (Inl e) =
     (if io_raw_os_error e = Some 10040 then Inl HE_DatagramRejected
      else if io_kind e = ConnectionReset \<or> io_kind e = ConnectionRefused then Inl HE_TransportReset
      else Inl (HE_Transport (''udp io: '' @ io_text e)))"
  by (simp add: transport_recv_def udp_recv_def is_recoverable_reset_def udp_error_text_def)

section \<open>Effects of a driver\<close>

datatype ManagerNotification =
    MN_Established bytes SocketAddr
  | MN_Ready bytes
  | MN_Data bytes InnerPlaintext
  | MN_Closed bytes CloseReason
  | MN_OutboundDropped u64

datatype effect = Sent WirePacket SocketAddr | Notified ManagerNotification

text \<open>The part of a driver's state every effect extends.\<close>

record Effects =
  ef_log :: "effect list"

record Environment =
  env_send :: "nat \<Rightarrow> HandshakeV2Error option"
  env_app_closed :: "nat \<Rightarrow> bool"

text \<open>\<open>transport.send_to(p, peer).await?\<close> and
  \<open>app_tx.send(n).await.map_err(|_| ManagerError::AppClosed)?\<close>.\<close>

definition send_packet ::
  "Environment \<Rightarrow> WirePacket \<Rightarrow> SocketAddr \<Rightarrow> 'a Effects_scheme \<Rightarrow> (ManagerError + unit) \<times> 'a Effects_scheme" where
  "send_packet E packet peer d =
     (case env_send E (length (ef_log d)) of
        Some e \<Rightarrow> (Inl (MgrHandshake e), d)
      | None \<Rightarrow> (Inr (), d\<lparr>ef_log := ef_log d @ [Sent packet peer]\<rparr>))"

fun send_packets ::
  "Environment \<Rightarrow> WirePacket list \<Rightarrow> SocketAddr \<Rightarrow> 'a Effects_scheme \<Rightarrow> (ManagerError + unit) \<times> 'a Effects_scheme" where
  "send_packets E [] peer d = (Inr (), d)"
| "send_packets E (p # ps) peer d =
     (case send_packet E p peer d of
        (Inl e, d1) \<Rightarrow> (Inl e, d1)
      | (Inr _, d1) \<Rightarrow> send_packets E ps peer d1)"

definition notify_app ::
  "Environment \<Rightarrow> ManagerNotification \<Rightarrow> 'a Effects_scheme \<Rightarrow> (ManagerError + unit) \<times> 'a Effects_scheme" where
  "notify_app E n d =
     (if env_app_closed E (length (ef_log d)) then (Inl AppClosed, d)
      else (Inr (), d\<lparr>ef_log := ef_log d @ [Notified n]\<rparr>))"

text \<open>The \<open>?\<close> operator between two effectful parts.\<close>

definition and_then ::
  "('e + 'a) \<times> 'd \<Rightarrow> ('a \<Rightarrow> 'd \<Rightarrow> ('e + 'b) \<times> 'd) \<Rightarrow> ('e + 'b) \<times> 'd" where
  "and_then r f = (case r of (Inl e, d) \<Rightarrow> (Inl e, d) | (Inr a, d) \<Rightarrow> f a d)"

datatype flow = Continue | Finished

lemma and_then_simps [simp]: "and_then (Inl e, d) f = (Inl e, d)" "and_then (Inr a, d) f = f a d"
  by (simp_all add: and_then_def)

lemma and_then_snd:
  assumes "\<And>a d. fst r = Inr a \<Longrightarrow> d = snd r \<Longrightarrow> Q (snd (f a d))" "Q (snd r)"
  shows "Q (snd (and_then r f))"
  using assms by (cases r; cases "fst r") (auto simp: and_then_def)

text \<open>An environment in which every effect succeeds.\<close>

definition working :: "Environment \<Rightarrow> bool" where
  "working E \<longleftrightarrow> (\<forall>n. env_send E n = None \<and> \<not> env_app_closed E n)"

lemma working_send [simp]:
  "working E \<Longrightarrow> send_packet E p peer d = (Inr (), d\<lparr>ef_log := ef_log d @ [Sent p peer]\<rparr>)"
  by (simp add: working_def send_packet_def)

lemma working_sends [simp]:
  "working E \<Longrightarrow> send_packets E ps peer d = (Inr (), d\<lparr>ef_log := ef_log d @ map (\<lambda>p. Sent p peer) ps\<rparr>)"
  by (induction ps arbitrary: d) simp_all

lemma working_notify [simp]:
  "working E \<Longrightarrow> notify_app E n d = (Inr (), d\<lparr>ef_log := ef_log d @ [Notified n]\<rparr>)"
  by (simp add: working_def notify_app_def)

text \<open>Effects only extend the log.\<close>

lemma send_packet_log: "\<exists>es. snd (send_packet E p peer d) = d\<lparr>ef_log := ef_log d @ es\<rparr>"
proof (cases "env_send E (length (ef_log d))")
  case None
  then show ?thesis by (intro exI [of _ "[Sent p peer]"]) (simp add: send_packet_def)
qed (auto simp: send_packet_def intro: exI [of _ "[]"])

lemma send_packets_log: "\<exists>es. snd (send_packets E ps peer d) = d\<lparr>ef_log := ef_log d @ es\<rparr>"
proof (induction ps arbitrary: d)
  case (Cons p ps)
  obtain r d1 where s: "send_packet E p peer d = (r, d1)" by fastforce
  obtain es where d1: "d1 = d\<lparr>ef_log := ef_log d @ es\<rparr>" using send_packet_log [of E p peer d] s by auto
  show ?case
  proof (cases r)
    case (Inr u)
    obtain fs where "snd (send_packets E ps peer d1) = d1\<lparr>ef_log := ef_log d1 @ fs\<rparr>" using Cons by blast
    then show ?thesis using s Inr d1 by (intro exI [of _ "es @ fs"]) simp
  qed (use s d1 in auto)
qed (auto intro: exI [of _ "[]"])

lemma notify_app_log: "\<exists>es. snd (notify_app E n d) = d\<lparr>ef_log := ef_log d @ es\<rparr>"
proof (cases "env_app_closed E (length (ef_log d))")
  case False
  then show ?thesis by (intro exI [of _ "[Notified n]"]) (simp add: notify_app_def)
qed (auto simp: notify_app_def intro: exI [of _ "[]"])

section \<open>Loops\<close>

text \<open>A driver loop: one \<open>select!\<close> per input, until an arm returns.\<close>

fun drive :: "('i \<Rightarrow> 'd \<Rightarrow> (ManagerError + flow) \<times> 'd) \<Rightarrow> 'i list \<Rightarrow> 'd \<Rightarrow> (ManagerError + flow) \<times> 'd" where
  "drive arm [] d = (Inr Continue, d)"
| "drive arm (i # is) d =
     (case arm i d of
        (Inr Continue, d1) \<Rightarrow> drive arm is d1
      | (Inr Finished, d1) \<Rightarrow> (Inr Finished, d1)
      | (Inl e, d1) \<Rightarrow> (Inl e, d1))"

text \<open>An invariant of the arms holds as long as the driver has not failed.\<close>

lemma drive_inv:
  assumes "\<And>i d f d1. i \<in> set is \<Longrightarrow> Q d \<Longrightarrow> arm i d = (Inr f, d1) \<Longrightarrow> Q d1" "Q d" "drive arm is d = (Inr f, d1)"
  shows "Q d1"
  using assms
proof (induction "is" arbitrary: d)
  case (Cons i "is")
  obtain r d2 where a: "arm i d = (r, d2)" by fastforce
  show ?case
  proof (cases r)
    case (Inr g)
    have Q: "Q d2" using Cons.prems(1,2) a Inr by (metis list.set_intros(1))
    show ?thesis
    proof (cases g)
      case Continue
      show ?thesis by (rule Cons.IH [OF Cons.prems(1) Q]) (use Cons.prems(3) a Inr Continue in auto)
    qed (use Cons.prems(3) a Inr Q in simp)
  qed (use Cons.prems(3) a in simp)
qed simp

text \<open>A driver whose arms keep an invariant and go on keeps going on.\<close>

lemma drive_continues:
  assumes "\<And>i d. i \<in> set is \<Longrightarrow> Q d \<Longrightarrow> fst (arm i d) = Inr Continue \<and> Q (snd (arm i d))" "Q d"
  shows "fst (drive arm is d) = Inr Continue \<and> Q (snd (drive arm is d))"
  using assms
proof (induction "is" arbitrary: d)
  case (Cons i "is")
  obtain r d1 where a: "arm i d = (r, d1)" by fastforce
  have "r = Inr Continue" "Q d1" using Cons.prems(1) [of i d] Cons.prems(2) a by auto
  then show ?case using Cons.IH [of d1] Cons.prems(1) a by simp
qed simp

end
