(* ===== verification/Scheduler.thy ===== *)
theory Scheduler
  imports Codec
begin

text \<open>
  The cover-traffic schedule of \<open>pq-tunnel-core/src/scheduler.rs\<close>: a pure periodic deadline that
  never bursts. The rate arithmetic is at its width (\<open>u64\<close>); instants are naturals.
\<close>

section \<open>Rates and intervals\<close>

definition DEFAULT_COVER_RATE_BPS :: u64 where "DEFAULT_COVER_RATE_BPS = 2000000"
definition MIN_COVER_INTERVAL_NANOS :: u64 where "MIN_COVER_INTERVAL_NANOS = 21762"
definition MAX_COVER_RATE_BPS :: u64 where
  "MAX_COVER_RATE_BPS = of_nat PACKET_SIZE * 8 * 1000000000 div MIN_COVER_INTERVAL_NANOS"

record CoverPolicy =
  cp_enabled :: bool
  cp_interval :: duration

definition interval_from_rate_bps :: "u64 \<Rightarrow> duration" where
  "interval_from_rate_bps rate_bps =
     (let bits_per_packet = of_nat PACKET_SIZE * 8 :: u64;
          nanos = saturating_mul bits_per_packet 1000000000 div max rate_bps 1
      in unat (max nanos MIN_COVER_INTERVAL_NANOS))"

definition cover_policy_default :: CoverPolicy where
  "cover_policy_default =
     \<lparr>cp_enabled = True, cp_interval = interval_from_rate_bps DEFAULT_COVER_RATE_BPS\<rparr>"

section \<open>The scheduler\<close>

record CoverScheduler =
  sch_policy :: CoverPolicy
  sch_next :: "instant option"

definition scheduler_new :: "CoverPolicy \<Rightarrow> CoverScheduler" where
  "scheduler_new policy = \<lparr>sch_policy = policy, sch_next = None\<rparr>"

definition scheduler_start :: "instant \<Rightarrow> CoverScheduler \<Rightarrow> CoverScheduler" where
  "scheduler_start now s =
     (if sch_next s = None \<and> cp_enabled (sch_policy s)
      then s\<lparr>sch_next := Some (now + cp_interval (sch_policy s))\<rparr> else s)"

definition scheduler_stop :: "CoverScheduler \<Rightarrow> CoverScheduler" where
  "scheduler_stop s = s\<lparr>sch_next := None\<rparr>"

definition on_deadline :: "instant \<Rightarrow> CoverScheduler \<Rightarrow> bool \<times> CoverScheduler" where
  "on_deadline now s =
     (if \<not> cp_enabled (sch_policy s) then (False, s\<lparr>sch_next := None\<rparr>)
      else case sch_next s of
        None \<Rightarrow> (False, s)
      | Some due \<Rightarrow>
          if now \<ge> due then (True, s\<lparr>sch_next := Some (now + cp_interval (sch_policy s))\<rparr>)
          else (False, s))"

section \<open>Interval arithmetic\<close>

lemma interval_nat:
  "interval_from_rate_bps r = max (10240000000000 div max (unat r) 1) 21762"
proof -
  have sat: "saturating_mul (of_nat PACKET_SIZE * 8) 1000000000 = (10240000000000 :: u64)"
    by (simp add: saturating_mul_def layout_values)
  have mx: "unat (max a b) = max (unat a) (unat b)" for a b :: u64
    by (simp add: max_def word_le_nat_alt)
  show ?thesis
    by (simp add: interval_from_rate_bps_def sat mx unat_div MIN_COVER_INTERVAL_NANOS_def Let_def)
qed

lemma max_cover_rate: "unat MAX_COVER_RATE_BPS = 470544986"
  by (simp add: MAX_COVER_RATE_BPS_def MIN_COVER_INTERVAL_NANOS_def layout_values unat_div)

section \<open>Runs\<close>

text \<open>The times at which a sequence of wake-ups emits.\<close>

fun emissions :: "instant list \<Rightarrow> CoverScheduler \<Rightarrow> instant list" where
  "emissions [] s = []"
| "emissions (now # ts) s =
     (case on_deadline now s of (e, s1) \<Rightarrow> if e then now # emissions ts s1 else emissions ts s1)"

lemma on_deadline_policy [simp]: "sch_policy (snd (on_deadline now s)) = sch_policy s"
  by (simp add: on_deadline_def split: option.splits)

text \<open>Two emissions are never closer than one interval, and none comes before the armed deadline,
  however irregular the wake-ups.\<close>

lemma emissions_spaced:
  assumes "sorted ts" "sch_next s = Some due"
  shows "sorted_wrt (\<lambda>a b. a + cp_interval (sch_policy s) \<le> b) (emissions ts s) \<and>
    (\<forall>t \<in> set (emissions ts s). due \<le> t)"
  using assms
proof (induction ts arbitrary: s due)
  case Nil
  then show ?case by simp
next
  case (Cons now ts)
  let ?iv = "cp_interval (sch_policy s)"
  have st: "sorted ts" using Cons.prems(1) by simp
  show ?case
  proof (cases "cp_enabled (sch_policy s)")
    case False
    have "emissions ts s' = []" if "sch_next s' = None" for s'
      using that by (induction ts arbitrary: s') (auto simp: on_deadline_def)
    then show ?thesis using False by (simp add: on_deadline_def)
  next
    case True
    let ?s1 = "s\<lparr>sch_next := Some (now + ?iv)\<rparr>"
    show ?thesis
    proof (cases "due \<le> now")
      case late: True
      have "on_deadline now s = (True, ?s1)" using True late Cons.prems(2) by (simp add: on_deadline_def)
      then show ?thesis using Cons.IH [OF st, of ?s1 "now + ?iv"] late by fastforce
    next
      case False
      then have "on_deadline now s = (False, s)" using True Cons.prems(2) by (simp add: on_deadline_def)
      then show ?thesis using Cons.IH [OF st Cons.prems(2)] by simp
    qed
  qed
qed

lemma scheduler_unscheduled: "sch_next s = None \<Longrightarrow> emissions ts s = []"
  by (induction ts arbitrary: s) (auto simp: on_deadline_def)

text \<open>In a span of time there is room for one emission per interval and one more.\<close>

lemma spaced_count:
  assumes "sorted_wrt (\<lambda>a b. a + iv \<le> b) (ts :: nat list)" "ts \<noteq> []"
  shows "hd ts + iv * (length ts - 1) \<le> last ts"
  using assms
proof (induction ts rule: rev_induct)
  case Nil
  then show ?case by simp
next
  case (snoc t ts)
  show ?case
  proof (cases "ts = []")
    case False
    then have "last ts + iv \<le> t" using snoc.prems(1) by (auto simp: sorted_wrt_append)
    moreover have "hd ts + iv * (length ts - 1) \<le> last ts"
      using snoc False by (simp add: sorted_wrt_append)
    moreover have "iv * length ts = iv * (length ts - 1) + iv"
      using False by (cases ts) simp_all
    ultimately show ?thesis using False by simp
  qed simp
qed

section \<open>Properties\<close>

text \<open>Once started, an enabled scheduler polled at any non-decreasing instants emits cover packets
  at least one interval apart, the first one no earlier than one interval after the start, so a
  run of emissions spans at least one interval per packet after the first: the emission rate never
  exceeds the policy's.\<close>

lemma cover_emissions_spaced:
  assumes "sorted ts" "cp_enabled policy"
  shows "sorted_wrt (\<lambda>a b. a + cp_interval policy \<le> b) (emissions ts (scheduler_start now (scheduler_new policy))) \<and>
    (\<forall>t \<in> set (emissions ts (scheduler_start now (scheduler_new policy))). now + cp_interval policy \<le> t) \<and>
    (emissions ts (scheduler_start now (scheduler_new policy)) \<noteq> [] \<longrightarrow>
       hd (emissions ts (scheduler_start now (scheduler_new policy))) +
         cp_interval policy * (length (emissions ts (scheduler_start now (scheduler_new policy))) - 1)
       \<le> last (emissions ts (scheduler_start now (scheduler_new policy))))"
proof -
  let ?s = "scheduler_start now (scheduler_new policy)"
  have s: "sch_next ?s = Some (now + cp_interval policy)" "sch_policy ?s = policy"
    using assms(2) by (simp_all add: scheduler_start_def scheduler_new_def)
  note sp = emissions_spaced [OF assms(1) s(1), unfolded s(2)]
  show ?thesis using sp spaced_count by blast
qed

text \<open>For every 64-bit rate the interval is the exact quotient of a packet's 10240 bits by the rate,
  in nanoseconds, raised to the 21762 ns floor: neither the saturating product nor a zero rate
  distorts it, and no policy computed from a rate is faster than the floor.\<close>

lemma cover_interval_exact:
  "interval_from_rate_bps r = max (1280 * 8 * 1000000000 div max (unat r) 1) 21762"
  using interval_nat [of r] by simp

end
