(* ===== verification/Lru_Table.thy ===== *)
theory Lru_Table
  imports Prelude
begin

text \<open>
  Tables bounded by evicting their least recently used entry. The eviction loop is the operation of the
  interface, which the bindings of the client relay (\<open>relay.rs\<close>) provide; the server's session table
  (\<open>session_manager.rs\<close>) shares the iteration order and the search for the minimum. The loop may be
  restricted to the entries of one owner.
\<close>

section \<open>Iteration and minima\<close>

text \<open>The entries of a hash map in the order its iterator yields them: the keys named by \<open>order\<close>
  first, then the others. Every argument gives an enumeration of the table, and every enumeration
  is given by some argument.\<close>

definition iterate :: "'k list \<Rightarrow> ('k, 'v) table \<Rightarrow> ('k \<times> 'v) list" where
  "iterate order t =
     (let named = remdups (filter (\<lambda>k. contains_key k t) order);
          others = filter (\<lambda>k. k \<notin> set order) (map fst t)
      in map (\<lambda>k. (k, the (map_of t k))) (named @ others))"

text \<open>\<open>min_by_key\<close> keeps the first of equal minima.\<close>

fun min_from :: "('a \<Rightarrow> nat) \<Rightarrow> 'a \<Rightarrow> 'a list \<Rightarrow> 'a" where
  "min_from f best [] = best"
| "min_from f best (x # xs) = min_from f (if f x < f best then x else best) xs"

definition min_by_key :: "('a \<Rightarrow> nat) \<Rightarrow> 'a list \<Rightarrow> 'a option" where
  "min_by_key f xs = (case xs of [] \<Rightarrow> None | x # xs \<Rightarrow> Some (min_from f x xs))"

lemma iterate_set:
  assumes "table_ok t"
  shows "set (iterate order t) = set t"
proof -
  have "set (iterate order t) = (\<lambda>k. (k, the (map_of t k))) ` (fst ` set t)"
    by (auto simp: iterate_def Let_def contains_key_iff)
  also have "\<dots> = set t" using assms by (force simp: table_ok_def)
  finally show ?thesis .
qed

lemma iterate_keys:
  assumes "table_ok t"
  shows "distinct (map fst (iterate order t))"
  using assms by (auto simp: iterate_def Let_def table_ok_def comp_def)

lemma iterate_nonempty: "table_ok t \<Longrightarrow> t \<noteq> [] \<Longrightarrow> iterate order t \<noteq> []"
  using iterate_set [of t order] by auto

lemma min_from_least: "min_from f x xs \<in> set (x # xs) \<and> (\<forall>y \<in> set (x # xs). f (min_from f x xs) \<le> f y)"
proof (induction xs arbitrary: x)
  case (Cons y ys)
  let ?z = "if f y < f x then y else x"
  have m: "min_from f ?z ys \<in> set (?z # ys)" "\<forall>v \<in> set (?z # ys). f (min_from f ?z ys) \<le> f v" using Cons.IH [of ?z] by blast+
  have "f (min_from f ?z ys) \<le> f ?z" using m(2) by simp
  then have "f (min_from f ?z ys) \<le> f x" "f (min_from f ?z ys) \<le> f y" by (auto split: if_splits)
  then show ?case using m by (auto split: if_splits)
qed simp

lemma min_by_key_None [simp]: "min_by_key f xs = None \<longleftrightarrow> xs = []"
  by (simp add: min_by_key_def split: list.split)

lemma min_by_key_least:
  assumes "min_by_key f xs = Some m"
  shows "m \<in> set xs" "\<And>y. y \<in> set xs \<Longrightarrow> f m \<le> f y"
proof -
  obtain x ys where xs: "xs = x # ys" "m = min_from f x ys" using assms by (auto simp: min_by_key_def split: list.splits)
  then show "m \<in> set xs" "\<And>y. y \<in> set xs \<Longrightarrow> f m \<le> f y" using min_from_least [of f x ys] by blast+
qed

section \<open>The eviction loop\<close>

text \<open>\<open>owned p t\<close> are the entries of the owner the loop looks at.\<close>

definition owned :: "('k \<Rightarrow> bool) \<Rightarrow> ('k, 'v) table \<Rightarrow> ('k, 'v) table" where
  "owned p t = filter (\<lambda>e. p (fst e)) t"

lemma owned_length: "length (owned p t) \<le> length t"
  by (simp add: owned_def)

lemma owned_all [simp]: "owned (\<lambda>_. True) t = t"
  by (simp add: owned_def)

lemma owned_delete: "owned p (AList.delete k t) = AList.delete k (owned p t)"
  by (simp add: owned_def AList.delete_eq filter_filter conj_commute)

lemma owned_update_length:
  "length (owned p (AList.update k v t)) = (if p k \<and> \<not> contains_key k t then Suc (length (owned p t)) else length (owned p t))"
  by (induction t) (auto simp: owned_def contains_key_def)

lemma owned_contains: "contains_key k (owned p t) \<longleftrightarrow> p k \<and> contains_key k t"
  by (auto simp: owned_def contains_key_iff)

lemma table_ok_owned [simp]: "table_ok t \<Longrightarrow> table_ok (owned p t)"
  by (simp add: owned_def)

locale lru_table =
  fixes evict :: "('k, 'v) table \<Rightarrow> ('k, 'v) table"
    and pick :: "('k, 'v) table \<Rightarrow> 'k option"
    and mine :: "'k \<Rightarrow> bool"
    and used :: "'v \<Rightarrow> instant"
    and cap :: nat
  assumes evict_loop: "evict t =
      (if length (owned mine t) > cap then (case pick t of None \<Rightarrow> t | Some k \<Rightarrow> evict (AList.delete k t)) else t)"
    and pick_none: "table_ok t \<Longrightarrow> pick t = None \<Longrightarrow> owned mine t = []"
    and pick_oldest: "table_ok t \<Longrightarrow> pick t = Some k \<Longrightarrow>
      mine k \<and> (\<exists>v. map_of t k = Some v \<and> (\<forall>k' v'. map_of t k' = Some v' \<longrightarrow> mine k' \<longrightarrow> used v \<le> used v'))"
begin

lemma evict_idle: "length (owned mine t) \<le> cap \<Longrightarrow> evict t = t"
  by (subst evict_loop) simp

lemma evict_step:
  assumes ok: "table_ok t" and full: "length (owned mine t) > cap"
  obtains k v where "evict t = evict (AList.delete k t)" "mine k" "map_of t k = Some v"
    "\<forall>k' v'. map_of t k' = Some v' \<longrightarrow> mine k' \<longrightarrow> used v \<le> used v'"
    "length (owned mine (AList.delete k t)) < length (owned mine t)"
proof -
  obtain k where k: "pick t = Some k" using pick_none [OF ok] full by (cases "pick t") auto
  obtain v where v: "mine k" "map_of t k = Some v" "\<forall>k' v'. map_of t k' = Some v' \<longrightarrow> mine k' \<longrightarrow> used v \<le> used v'"
    using pick_oldest [OF ok k] by blast
  have e: "evict t = evict (AList.delete k t)" using full k by (subst evict_loop) simp
  have "contains_key k (owned mine t)" unfolding owned_contains using v(1,2) by (simp add: contains_key_def)
  then have "length (owned mine (AList.delete k t)) < length (owned mine t)"
    using length_delete_mem [OF table_ok_owned [OF ok]] full by (simp add: owned_delete)
  with e v show thesis by (rule that)
qed

lemma evict_spec:
  "table_ok t \<Longrightarrow> table_ok (evict t) \<and> length (owned mine (evict t)) \<le> cap \<and> length (evict t) \<le> length t \<and>
     (\<forall>k v. map_of (evict t) k = Some v \<longrightarrow> map_of t k = Some v) \<and>
     (\<forall>k v. map_of t k = Some v \<longrightarrow> map_of (evict t) k = None \<longrightarrow>
        mine k \<and> (\<forall>k' v'. map_of (evict t) k' = Some v' \<longrightarrow> mine k' \<longrightarrow> used v \<le> used v'))"
proof (induction "length (owned mine t)" arbitrary: t rule: less_induct)
  case less
  show ?case
  proof (cases "length (owned mine t) > cap")
    case False
    then show ?thesis using less.prems evict_idle by simp
  next
    case True
    obtain k v where k: "evict t = evict (AList.delete k t)" "mine k" "map_of t k = Some v"
      "\<forall>k' v'. map_of t k' = Some v' \<longrightarrow> mine k' \<longrightarrow> used v \<le> used v'"
      "length (owned mine (AList.delete k t)) < length (owned mine t)"
      by (rule evict_step [OF less.prems True])
    let ?t = "AList.delete k t"
    have ok: "table_ok ?t" using less.prems by simp
    note ih = less.hyps [OF k(5) ok]
    have len: "length ?t \<le> length t" by (simp add: length_delete_le)
    have sub: "map_of (evict t) k' = Some v' \<Longrightarrow> map_of t k' = Some v'" for k' v'
    proof -
      assume "map_of (evict t) k' = Some v'"
      then have "map_of ?t k' = Some v'" using ih k(1) by metis
      then show ?thesis by (simp add: table_simps split: if_splits)
    qed
    have old: "mine a \<and> (\<forall>k' v'. map_of (evict t) k' = Some v' \<longrightarrow> mine k' \<longrightarrow> used b \<le> used v')"
      if "map_of t a = Some b" "map_of (evict t) a = None" for a b
    proof (cases "a = k")
      case True
      then show ?thesis using k(2-4) that(1) sub by auto
    next
      case False
      then have "map_of ?t a = Some b" using that(1) by (simp add: table_simps)
      then show ?thesis using ih k(1) that(2) by metis
    qed
    show ?thesis using ih k(1) len sub old by auto
  qed
qed

text \<open>What the loop leaves: at most the cap of the owner's entries, everything else untouched, and no evicted
  entry was used later than one that was kept.\<close>

lemma evict_ok: "table_ok t \<Longrightarrow> table_ok (evict t)"
  using evict_spec by blast

lemma evict_bound: "table_ok t \<Longrightarrow> length (owned mine (evict t)) \<le> cap"
  using evict_spec by blast

lemma evict_shrinks: "table_ok t \<Longrightarrow> length (evict t) \<le> length t"
  using evict_spec by blast

lemma evict_lookup: "table_ok t \<Longrightarrow> map_of (evict t) k = Some v \<Longrightarrow> map_of t k = Some v"
  using evict_spec by blast

lemma evict_others:
  assumes "table_ok t" "\<not> mine k"
  shows "map_of (evict t) k = map_of t k"
proof (cases "map_of t k")
  case None
  then show ?thesis using evict_lookup [OF assms(1), of k] by (cases "map_of (evict t) k") auto
next
  case (Some v)
  then show ?thesis using evict_spec [OF assms(1)] assms(2) by (cases "map_of (evict t) k") (auto dest: evict_lookup [OF assms(1)])
qed

lemma evict_least_recent:
  "table_ok t \<Longrightarrow> map_of t k = Some v \<Longrightarrow> map_of (evict t) k = None \<Longrightarrow> map_of (evict t) k' = Some v' \<Longrightarrow> mine k' \<Longrightarrow>
     used v \<le> used v'"
  using evict_spec by blast

end

end
