(* ===== verification/Server_Manager.thy ===== *)
theory Server_Manager
  imports Manager_Common Lru_Table "HOL-Library.List_Lexorder"
begin

text \<open>
  \<open>ServerSessionManager\<close> of \<open>pq-tunnel-core/src/session_manager.rs\<close>: the handshake machine, the table
  of established sessions, the failure gate and the pending \<open>Close\<close> notifications. A hash map is
  iterated in an unspecified order, so the operations that iterate take the order of the keys as an
  argument, and the theorems hold for every order. The instants of a call and its random draws are
  arguments.
\<close>

section \<open>State\<close>

record SessionEntry =
  se_session :: WireSession
  se_peer :: SocketAddr
  se_last_activity :: instant
  se_established_at :: instant

record ServerSessionManager =
  mg_limits :: SessionLimits
  mg_hs :: ServerHandshake
  mg_sessions :: "(bytes, SessionEntry) table"
  mg_fail_gate :: FailGate
  mg_pending_closed :: "ManagerEvent list"
  mg_pending_closes :: "PendingClose list"

text \<open>\<open>now_hs\<close> and \<open>now\<close> are the clock readings of \<open>ServerHandshake::new\<close> and of the gate.\<close>

definition manager_new :: "instant \<Rightarrow> instant \<Rightarrow> ServerConfig \<Rightarrow> SessionLimits \<Rightarrow> ManagerError + ServerSessionManager" where
  "manager_new now_hs now cfg limits =
     (case server_config_validate cfg of
        Inl (HE_InvalidConfig msg) \<Rightarrow> Inl (MgrInvalidConfig msg)
      | Inl e \<Rightarrow> Inl (MgrHandshake e)
      | Inr _ \<Rightarrow>
          (case session_limits_validate limits of
             Inl e \<Rightarrow> Inl e
           | Inr _ \<Rightarrow>
               Inr \<lparr>mg_limits = limits, mg_hs = server_new now_hs cfg, mg_sessions = [],
                    mg_fail_gate = fail_gate_new now, mg_pending_closed = [], mg_pending_closes = []\<rparr>))"

definition manager_set_roster ::
  "bytes list \<Rightarrow> ServerSessionManager \<Rightarrow> (ManagerError + unit) \<times> ServerSessionManager" where
  "manager_set_roster roster m =
     (let (res, hs) = set_roster roster (mg_hs m); m1 = m\<lparr>mg_hs := hs\<rparr>
      in (case res of Inl e \<Rightarrow> (Inl (MgrHandshake e), m1) | Inr u \<Rightarrow> (Inr u, m1)))"

section \<open>Session table\<close>

definition stalest :: "(bytes \<times> SessionEntry) list \<Rightarrow> bytes option" where
  "stalest xs = map_option fst (min_by_key (\<lambda>e. se_last_activity (snd e)) xs)"

definition session_put :: "bytes \<Rightarrow> SessionEntry \<Rightarrow> ServerSessionManager \<Rightarrow> ServerSessionManager" where
  "session_put sid e m = m\<lparr>mg_sessions := AList.update sid e (mg_sessions m)\<rparr>"

definition session_drop :: "bytes \<Rightarrow> ServerSessionManager \<Rightarrow> ServerSessionManager" where
  "session_drop sid m = m\<lparr>mg_sessions := AList.delete sid (mg_sessions m)\<rparr>"

section \<open>Handshake path\<close>

text \<open>\<open>created\<close> is the clock reading of \<open>WireSession::established\<close>.\<close>

definition on_handshake_complete ::
  "primitives \<Rightarrow> bytes list \<Rightarrow> instant \<Rightarrow> instant \<Rightarrow> HandshakeOutcome \<Rightarrow> SocketAddr \<Rightarrow> ServerSessionManager \<Rightarrow>
   (ManagerError + ManagerEvent) \<times> ServerSessionManager" where
  "on_handshake_complete P order created now outcome from m =
     (let sid = ho_session_id outcome in
      if contains_key sid (mg_sessions m) then (Inr ME_None, m)
      else
        let m1 = (if length (mg_sessions m) \<ge> sl_max_sessions (mg_limits m)
                  then (case stalest (iterate order (mg_sessions m)) of
                          Some stale \<Rightarrow>
                            (session_drop stale m)\<lparr>mg_pending_closed := mg_pending_closed m @ [ME_Closed stale CR_Capacity]\<rparr>
                        | None \<Rightarrow> m)
                  else m)
        in (case wire_established P created Server outcome of
              Inl e \<Rightarrow> (Inl (MgrSession e), m1)
            | Inr session \<Rightarrow>
                (Inr (ME_Established sid from),
                 session_put sid \<lparr>se_session = session, se_peer = from, se_last_activity = now,
                   se_established_at = now\<rparr> m1)))"

section \<open>Data path\<close>

definition packet_sid :: "WirePacket \<Rightarrow> bytes" where
  "packet_sid pkt = slice 1 (1 + SESSION_ID_LEN) (as_bytes pkt)"

definition send_encrypted ::
  "primitives \<Rightarrow> bytes \<Rightarrow> MessageType \<Rightarrow> bytes \<Rightarrow> ServerSessionManager \<Rightarrow>
   (ManagerError + ManagerEvent) \<times> ServerSessionManager" where
  "send_encrypted P sid msg_type payload m =
     (case map_of (mg_sessions m) sid of
        None \<Rightarrow> (Inl NoSession, m)
      | Some entry \<Rightarrow>
          let (res, session) = wire_encrypt P msg_type payload (se_session entry);
              m1 = session_put sid (entry\<lparr>se_session := session\<rparr>) m
          in (case res of
                Inr packet \<Rightarrow> (Inr (ME_SendPacket packet (se_peer entry)), m1)
              | Inl SE_RekeyRequired \<Rightarrow> (Inr (ME_Closed sid CR_NonceExhausted), session_drop sid m1)
              | Inl e \<Rightarrow> (Inl (MgrSession e), m1)))"

definition on_control_message ::
  "primitives \<Rightarrow> bytes \<Rightarrow> InnerPlaintext \<Rightarrow> ServerSessionManager \<Rightarrow>
   (ManagerError + ManagerEvent) \<times> ServerSessionManager" where
  "on_control_message P sid inner m =
     (if ip_payload inner ! 0 = CONTROL_PROBE then
        (case map_of (mg_sessions m) sid of
           None \<Rightarrow> (Inr ME_None, m)
         | Some entry \<Rightarrow>
             let (res, session) = wire_encrypt P Handshake (control_payload CONTROL_ACK) (se_session entry);
                 m1 = session_put sid (entry\<lparr>se_session := session\<rparr>) m
             in (case res of
                   Inr packet \<Rightarrow> (Inr (ME_SendPacket packet (se_peer entry)), m1)
                 | Inl SE_RekeyRequired \<Rightarrow> (Inr (ME_Closed sid CR_NonceExhausted), session_drop sid m1)
                 | Inl e \<Rightarrow> (Inl (MgrSession e), m1)))
      else (Inr ME_None, m))"

fun classify_inner :: "InnerPlaintext \<Rightarrow> DataResult" where
  "classify_inner inner =
     (case ip_msg_type inner of
        Data \<Rightarrow> DR_Payload inner
      | Cover \<Rightarrow> DR_Payload inner
      | TunData \<Rightarrow> DR_Payload inner
      | Close \<Rightarrow> DR_PeerClose
      | Handshake \<Rightarrow> DR_Control inner)"

definition on_data_packet ::
  "primitives \<Rightarrow> instant \<Rightarrow> WirePacket \<Rightarrow> SocketAddr \<Rightarrow> ServerSessionManager \<Rightarrow>
   (ManagerError + ManagerEvent) \<times> ServerSessionManager" where
  "on_data_packet P now pkt from m =
     (let sid = packet_sid pkt in
      case map_of (mg_sessions m) sid of
        None \<Rightarrow> (Inr ME_None, m)
      | Some entry \<Rightarrow>
          if \<not> fail_peek from now (mg_limits m) (mg_fail_gate m) then (Inr ME_None, m)
          else
            let (res, session) = wire_decrypt P pkt (se_session entry) in
            (case (case res of Inr inner \<Rightarrow> Inr (classify_inner inner) | Inl e \<Rightarrow> classify_error e) of
               Inl e \<Rightarrow> (Inl (MgrSession e), session_put sid (entry\<lparr>se_session := session\<rparr>) m)
             | Inr result \<Rightarrow>
                 let entry1 = (case res of
                         Inr _ \<Rightarrow> entry\<lparr>se_session := session, se_last_activity := now, se_peer := from\<rparr>
                       | Inl _ \<Rightarrow> entry\<lparr>se_session := session\<rparr>);
                     m1 = session_put sid entry1 m
                 in (case result of
                       DR_Payload inner \<Rightarrow>
                         (case ip_msg_type inner of
                            Data \<Rightarrow> (Inr (ME_AppData sid inner), m1)
                          | TunData \<Rightarrow> (Inr (ME_AppData sid inner), m1)
                          | _ \<Rightarrow> (Inr ME_None, m1))
                     | DR_Control inner \<Rightarrow> on_control_message P sid inner m1
                     | DR_PeerClose \<Rightarrow> (Inr (ME_Closed sid CR_PeerClosed), session_drop sid m1)
                     | DR_SessionDead reason \<Rightarrow> (Inr (ME_Closed sid reason), session_drop sid m1)
                     | DR_Failed \<Rightarrow>
                         (Inr ME_None, m1\<lparr>mg_fail_gate := fail_consume from now (mg_limits m) (mg_fail_gate m)\<rparr>)
                     | DR_Rejected \<Rightarrow> (Inr ME_None, m1))))"

text \<open>The readings of one call: the handshake machine's, the new session's, the manager's.\<close>

record ManagerClock =
  mc_hs :: Clock
  mc_created :: instant
  mc_now :: instant

definition manager_handle_datagram ::
  "primitives \<Rightarrow> ServerDraws \<Rightarrow> bytes list \<Rightarrow> ManagerClock \<Rightarrow> WirePacket \<Rightarrow> SocketAddr \<Rightarrow> ServerSessionManager \<Rightarrow>
   (ManagerError + ManagerEvent) \<times> ServerSessionManager" where
  "manager_handle_datagram P rnd order ck pkt from m =
     (if is_handshake_fragment pkt then
        let (res, hs) = server_handle_datagram P rnd (mc_hs ck) pkt from (mg_hs m); m1 = m\<lparr>mg_hs := hs\<rparr>
        in (case res of
              Inl e \<Rightarrow> (Inl (MgrHandshake e), m1)
            | Inr (ServerEmit packets peer) \<Rightarrow> (Inr (ME_Send packets peer), m1)
            | Inr (ServerComplete outcome) \<Rightarrow>
                on_handshake_complete P order (mc_created ck) (mc_now ck) outcome from m1
            | Inr ServerNone \<Rightarrow> (Inr ME_None, m1))
      else on_data_packet P (mc_now ck) pkt from m)"

section \<open>Outbound path\<close>

definition app_outbound ::
  "primitives \<Rightarrow> bytes \<Rightarrow> bytes \<Rightarrow> ServerSessionManager \<Rightarrow> (ManagerError + ManagerEvent) \<times> ServerSessionManager" where
  "app_outbound P sid payload m =
     (if length payload > PAYLOAD_LEN
      then (Inl (MgrSession (SE_Codec (WrongLength ''payload'' PAYLOAD_LEN (length payload)))), m)
      else send_encrypted P sid Data (copy_at 0 payload (replicate PAYLOAD_LEN 0)) m)"

definition tun_outbound ::
  "primitives \<Rightarrow> bytes \<Rightarrow> bytes \<Rightarrow> ServerSessionManager \<Rightarrow> (ManagerError + ManagerEvent) \<times> ServerSessionManager" where
  "tun_outbound P sid payload m =
     (if length payload \<noteq> PAYLOAD_LEN
      then (Inl (MgrSession (SE_Codec (WrongLength ''payload'' PAYLOAD_LEN (length payload)))), m)
      else send_encrypted P sid TunData (copy_at 0 payload (replicate PAYLOAD_LEN 0)) m)"

definition cover_packet ::
  "primitives \<Rightarrow> string + bytes \<Rightarrow> bytes \<Rightarrow> ServerSessionManager \<Rightarrow>
   (ManagerError + ManagerEvent) \<times> ServerSessionManager" where
  "cover_packet P rnd sid m =
     (case map_of (mg_sessions m) sid of
        None \<Rightarrow> (Inl NoSession, m)
      | Some entry \<Rightarrow>
          let (res, session) = wire_cover P rnd (se_session entry);
              m1 = session_put sid (entry\<lparr>se_session := session\<rparr>) m
          in (case res of
                Inr packet \<Rightarrow> (Inr (ME_SendPacket packet (se_peer entry)), m1)
              | Inl SE_RekeyRequired \<Rightarrow> (Inr (ME_Closed sid CR_NonceExhausted), session_drop sid m1)
              | Inl e \<Rightarrow> (Inl (MgrSession e), m1)))"

text \<open>The random fill is drawn once per session, so the draws are a function of the session id.\<close>

fun cover_each ::
  "primitives \<Rightarrow> (bytes \<Rightarrow> string + bytes) \<Rightarrow> bytes list \<Rightarrow> ServerSessionManager \<Rightarrow>
   (ManagerError + ManagerEvent list) \<times> ServerSessionManager" where
  "cover_each P rnd [] m = (Inr [], m)"
| "cover_each P rnd (sid # sids) m =
     (case cover_packet P (rnd sid) sid m of
        (Inl e, m1) \<Rightarrow> (Inl e, m1)
      | (Inr ev, m1) \<Rightarrow>
          (case cover_each P rnd sids m1 of
             (Inl e, m2) \<Rightarrow> (Inl e, m2)
           | (Inr out, m2) \<Rightarrow> (Inr (if ev = ME_None then out else ev # out), m2)))"

definition cover_packet_all ::
  "primitives \<Rightarrow> (bytes \<Rightarrow> string + bytes) \<Rightarrow> ServerSessionManager \<Rightarrow>
   (ManagerError + ManagerEvent list) \<times> ServerSessionManager" where
  "cover_packet_all P rnd m = cover_each P rnd (sort (map fst (mg_sessions m))) m"

section \<open>Closing and the timer\<close>

definition begin_close ::
  "primitives \<Rightarrow> SessionEntry \<Rightarrow> instant \<Rightarrow> ServerSessionManager \<Rightarrow> ManagerEvent \<times> ServerSessionManager" where
  "begin_close P entry now m =
     (case wire_encrypt P Close (replicate PAYLOAD_LEN 0) (se_session entry) of
        (Inl _, _) \<Rightarrow> (ME_None, m)
      | (Inr packet, session) \<Rightarrow>
          (ME_SendPacket packet (se_peer entry),
           m\<lparr>mg_pending_closes := mg_pending_closes m @
               [\<lparr>pc_session = session, pc_peer = se_peer entry, pc_attempts_left = CLOSE_RETRANSMIT_TOTAL - 1,
                 pc_next_at = now + CLOSE_RETRANSMIT_BASE\<rparr>]\<rparr>))"

definition close_session ::
  "primitives \<Rightarrow> instant \<Rightarrow> bytes \<Rightarrow> ServerSessionManager \<Rightarrow> (ManagerError + ManagerEvent) \<times> ServerSessionManager" where
  "close_session P now sid m =
     (case map_of (mg_sessions m) sid of
        None \<Rightarrow> (Inl NoSession, m)
      | Some entry \<Rightarrow>
          let m1 = (session_drop sid m)\<lparr>mg_pending_closed := mg_pending_closed m @ [ME_Closed sid CR_UserClosed]\<rparr>;
              (ev, m2) = begin_close P entry now m1
          in (Inr ev, m2))"

definition expired_reason :: "instant \<Rightarrow> SessionLimits \<Rightarrow> SessionEntry \<Rightarrow> CloseReason option" where
  "expired_reason now l e =
     (let idle_ok = (case sl_idle_timeout l of None \<Rightarrow> True | Some t \<Rightarrow> now - se_last_activity e < t);
          life_ok = (case sl_lifetime_cap l of None \<Rightarrow> True | Some t \<Rightarrow> now - se_established_at e < t)
      in if idle_ok \<and> life_ok then None
         else if \<not> life_ok then Some CR_LifetimeCap else Some CR_IdleTimeout)"

fun close_expired ::
  "primitives \<Rightarrow> instant \<Rightarrow> (bytes \<times> CloseReason) list \<Rightarrow> ServerSessionManager \<Rightarrow>
   ManagerEvent list \<times> ServerSessionManager" where
  "close_expired P now [] m = ([], m)"
| "close_expired P now ((sid, reason) # xs) m =
     (let (evs, m1) =
            (case map_of (mg_sessions m) sid of
               Some entry \<Rightarrow>
                 let (ev, m1) = begin_close P entry now (session_drop sid m)
                 in (if ev = ME_None then [] else [ev], m1)
             | None \<Rightarrow> ([], m));
          (out, m2) = close_expired P now xs m1
      in (evs @ ME_Closed sid reason # out, m2))"

definition manager_tick ::
  "primitives \<Rightarrow> bytes list \<Rightarrow> instant \<Rightarrow> ServerSessionManager \<Rightarrow> ManagerEvent list \<times> ServerSessionManager" where
  "manager_tick P order now m =
     (let expired = List.map_filter (\<lambda>(sid, e). map_option (Pair sid) (expired_reason now (mg_limits m) e))
                      (iterate order (mg_sessions m));
          (out, m1) = close_expired P now expired m;
          drained = mg_pending_closed m1;
          m2 = m1\<lparr>mg_pending_closed := []\<rparr>;
          (resent, closes) = retransmit_closes P now (mg_pending_closes m2);
          m3 = m2\<lparr>mg_pending_closes := closes\<rparr>
      in (out @ drained @ resent,
          m3\<lparr>mg_fail_gate := fail_sweep now (mg_limits m3) (mg_fail_gate m3)\<rparr>))"

section \<open>Tables\<close>

lemma update_same: "map_of t k = Some v \<Longrightarrow> AList.update k v t = t"
  by (induction t) (auto split: if_splits)

lemma delete_update: "AList.delete k (AList.update k v t) = AList.delete k t"
  by (induction t) auto

text \<open>The eviction victim is a least recently active session.\<close>

lemma stalest_min:
  assumes ok: "table_ok t" and st: "stalest (iterate order t) = Some sid"
  obtains e where "map_of t sid = Some e" "\<And>sid' e'. map_of t sid' = Some e' \<Longrightarrow> se_last_activity e \<le> se_last_activity e'"
proof -
  obtain e where e: "min_by_key (\<lambda>e. se_last_activity (snd e)) (iterate order t) = Some (sid, e)"
    using st by (auto simp: stalest_def)
  note m = min_by_key_least [OF e]
  show thesis
  proof (rule that)
    show "map_of t sid = Some e" using m(1) ok by (simp add: iterate_set table_ok_def)
    show "se_last_activity e \<le> se_last_activity e'" if "map_of t sid' = Some e'" for sid' e'
      using m(2) [of "(sid', e')"] map_of_SomeD [OF that] ok by (simp add: iterate_set)
  qed
qed

lemma stalest_some: "table_ok t \<Longrightarrow> t \<noteq> [] \<Longrightarrow> \<exists>sid. stalest (iterate order t) = Some sid"
  using iterate_nonempty [of t order]
  by (cases "min_by_key (\<lambda>e. se_last_activity (snd e)) (iterate order t)") (auto simp: stalest_def)

lemma stalest_none: "stalest (iterate order []) = None"
  by (simp add: stalest_def iterate_def contains_key_def min_by_key_def)

section \<open>Invariant\<close>

definition entry_held :: "bytes \<Rightarrow> SessionEntry \<Rightarrow> bool" where
  "entry_held sid e \<longleftrightarrow> session_ok Server sid (se_session e)"

definition manager_inv :: "primitives \<Rightarrow> ServerSessionManager \<Rightarrow> bool" where
  "manager_inv P m \<longleftrightarrow> server_inv P (mg_hs m) \<and> gate_inv (mg_limits m) (mg_fail_gate m) \<and>
     table_ok (mg_sessions m) \<and> length (mg_sessions m) \<le> max 1 (sl_max_sessions (mg_limits m)) \<and>
     (\<forall>sid e. map_of (mg_sessions m) sid = Some e \<longrightarrow> entry_held sid e) \<and>
     (\<forall>pc \<in> set (mg_pending_closes m). close_ok pc)"

lemma manager_invD:
  assumes "manager_inv P m"
  shows "server_inv P (mg_hs m)" "gate_inv (mg_limits m) (mg_fail_gate m)" "table_ok (mg_sessions m)"
    "length (mg_sessions m) \<le> max 1 (sl_max_sessions (mg_limits m))"
    "map_of (mg_sessions m) sid = Some e \<Longrightarrow> entry_held sid e" "pc \<in> set (mg_pending_closes m) \<Longrightarrow> close_ok pc"
  using assms unfolding manager_inv_def by blast+

lemma session_put_inv:
  "manager_inv P m \<Longrightarrow> map_of (mg_sessions m) sid = Some e0 \<Longrightarrow> entry_held sid e \<Longrightarrow> manager_inv P (session_put sid e m)"
  unfolding manager_inv_def session_put_def
  by (auto simp: table_simps length_update contains_key_def split: if_splits)

lemma session_drop_inv: "manager_inv P m \<Longrightarrow> manager_inv P (session_drop sid m)"
  unfolding manager_inv_def session_drop_def
  by (auto simp: table_simps intro: le_trans [OF length_delete_le] split: if_splits)

lemma session_drop_put: "session_drop sid (session_put sid e m) = session_drop sid m"
  by (simp add: session_drop_def session_put_def delete_update)

lemma manager_inv_frame [simp]:
  "manager_inv P (m\<lparr>mg_pending_closed := evs\<rparr>) = manager_inv P m"
  "manager_inv P m \<Longrightarrow> server_inv P hs \<Longrightarrow> manager_inv P (m\<lparr>mg_hs := hs\<rparr>)"
  "manager_inv P m \<Longrightarrow> gate_inv (mg_limits m) g \<Longrightarrow> manager_inv P (m\<lparr>mg_fail_gate := g\<rparr>)"
  by (auto simp: manager_inv_def)

lemma manager_new_inv: "manager_new now_hs now cfg limits = Inr m \<Longrightarrow> manager_inv P m"
  by (auto simp: manager_new_def manager_inv_def server_new_inv gate_new_inv split: sum.splits HandshakeV2Error.splits)

section \<open>Every operation keeps the invariant\<close>

text \<open>The three senders share their last step.\<close>

lemma emit_inv:
  assumes "manager_inv P m" "map_of (mg_sessions m) sid = Some e"
    and "res \<noteq> Inl SE_RekeyRequired \<Longrightarrow> session_ok Server sid s1"
  shows "manager_inv P (snd (case res of
      Inr packet \<Rightarrow> (Inr (ME_SendPacket packet peer), session_put sid (e\<lparr>se_session := s1\<rparr>) m)
    | Inl SE_RekeyRequired \<Rightarrow> (Inr (ME_Closed sid CR_NonceExhausted), session_drop sid (session_put sid (e\<lparr>se_session := s1\<rparr>) m))
    | Inl err \<Rightarrow> (Inl (MgrSession err), session_put sid (e\<lparr>se_session := s1\<rparr>) m)))"
proof (cases "res = Inl SE_RekeyRequired")
  case True
  then show ?thesis using session_drop_inv [OF assms(1)] by (simp add: session_drop_put)
next
  case False
  then have "entry_held sid (e\<lparr>se_session := s1\<rparr>)" using assms(3) by (simp add: entry_held_def)
  from session_put_inv [OF assms(1,2) this] show ?thesis
    using False by (auto split: sum.splits SessionError.splits)
qed

lemma held: "manager_inv P m \<Longrightarrow> map_of (mg_sessions m) sid = Some e \<Longrightarrow> session_ok Server sid (se_session e)"
  using manager_invD(5) by (auto simp: entry_held_def)

lemma send_encrypted_inv:
  assumes "manager_inv P m"
  shows "manager_inv P (snd (send_encrypted P sid mt payload m))"
proof (cases "map_of (mg_sessions m) sid")
  case None
  then show ?thesis using assms by (simp add: send_encrypted_def)
next
  case (Some e)
  obtain res s1 where w: "wire_encrypt P mt payload (se_session e) = (res, s1)" by fastforce
  show ?thesis
    using emit_inv [OF assms Some encrypt_session_ok [OF held [OF assms Some] w]] Some w
    by (simp add: send_encrypted_def Let_def)
qed

lemma on_control_message_inv:
  assumes "manager_inv P m"
  shows "manager_inv P (snd (on_control_message P sid inner m))"
proof (cases "ip_payload inner ! 0 = CONTROL_PROBE \<and> (\<exists>e. map_of (mg_sessions m) sid = Some e)")
  case False
  then show ?thesis using assms by (auto simp: on_control_message_def split: option.splits)
next
  case True
  then obtain e where e: "map_of (mg_sessions m) sid = Some e" by blast
  obtain res s1 where w: "wire_encrypt P Handshake (control_payload CONTROL_ACK) (se_session e) = (res, s1)" by fastforce
  show ?thesis
    using emit_inv [OF assms e encrypt_session_ok [OF held [OF assms e] w]] e w True
    by (simp add: on_control_message_def Let_def)
qed

lemma cover_packet_inv:
  assumes "manager_inv P m"
  shows "manager_inv P (snd (cover_packet P rnd sid m))"
proof (cases "map_of (mg_sessions m) sid")
  case None
  then show ?thesis using assms by (simp add: cover_packet_def)
next
  case (Some e)
  obtain res s1 where w: "wire_cover P rnd (se_session e) = (res, s1)" by fastforce
  show ?thesis
    using emit_inv [OF assms Some cover_session_ok [OF held [OF assms Some] w]] Some w
    by (simp add: cover_packet_def Let_def)
qed

lemma cover_each_inv: "manager_inv P m \<Longrightarrow> manager_inv P (snd (cover_each P rnd sids m))"
proof (induction sids arbitrary: m)
  case (Cons sid sids)
  obtain r m1 where c: "cover_packet P (rnd sid) sid m = (r, m1)" by fastforce
  have "manager_inv P m1" using cover_packet_inv [OF Cons.prems, of "rnd sid" sid] c by simp
  then show ?case using Cons.IH c by (auto split: sum.splits prod.splits) (metis snd_conv)+
qed simp

lemma on_handshake_complete_inv:
  assumes "manager_inv P m" "length (ho_session_id outcome) = 8"
  shows "manager_inv P (snd (on_handshake_complete P order created now outcome from m))"
proof (cases "contains_key (ho_session_id outcome) (mg_sessions m)")
  case True
  then show ?thesis using assms(1) by (simp add: on_handshake_complete_def Let_def)
next
  case new: False
  let ?sid = "ho_session_id outcome" and ?max = "sl_max_sessions (mg_limits m)"
  define m1 where "m1 = (if length (mg_sessions m) \<ge> ?max
      then (case stalest (iterate order (mg_sessions m)) of
              Some stale \<Rightarrow> (session_drop stale m)\<lparr>mg_pending_closed := mg_pending_closed m @ [ME_Closed stale CR_Capacity]\<rparr>
            | None \<Rightarrow> m)
      else m)"
  have ok: "table_ok (mg_sessions m)" by (rule manager_invD(3) [OF assms(1)])
  have inv1: "manager_inv P m1" using assms(1) by (auto simp: m1_def session_drop_inv split: option.splits)
  have lim: "mg_limits m1 = mg_limits m" by (simp add: m1_def session_drop_def split: option.splits)
  have new1: "\<not> contains_key ?sid (mg_sessions m1)"
    using new by (auto simp: m1_def session_drop_def table_simps split: option.splits)
  have room: "length (mg_sessions m1) < max 1 ?max"
  proof (cases "length (mg_sessions m) \<ge> ?max \<and> mg_sessions m \<noteq> []")
    case True
    then obtain stale where st: "stalest (iterate order (mg_sessions m)) = Some stale" using stalest_some [OF ok] by blast
    obtain e where "map_of (mg_sessions m) stale = Some e" by (rule stalest_min [OF ok st])
    then have c: "contains_key stale (mg_sessions m)" by (simp add: contains_key_def)
    have "length (mg_sessions m1) = length (mg_sessions m) - 1"
      using True st length_delete_mem [OF ok c] by (simp add: m1_def session_drop_def)
    moreover have "0 < length (mg_sessions m)" using True by simp
    ultimately show ?thesis using manager_invD(4) [OF assms(1)] by linarith
  next
    case False
    then show ?thesis
      by (cases "mg_sessions m = []") (auto simp: m1_def stalest_none)
  qed
  show ?thesis
  proof (cases "wire_established P created Server outcome")
    case (Inl e)
    then show ?thesis using new inv1 by (simp add: on_handshake_complete_def Let_def m1_def)
  next
    case (Inr session)
    let ?e = "\<lparr>se_session = session, se_peer = from, se_last_activity = now, se_established_at = now\<rparr>"
    have "entry_held ?sid ?e" using established_session_ok [OF Inr assms(2)] by (simp add: entry_held_def)
    moreover have "length (AList.update ?sid ?e (mg_sessions m1)) \<le> max 1 ?max"
      using new1 room by (simp add: length_update)
    ultimately have "manager_inv P (session_put ?sid ?e m1)"
      using inv1 lim unfolding manager_inv_def session_put_def by (auto simp: table_simps split: if_splits)
    then show ?thesis using new Inr by (simp add: on_handshake_complete_def Let_def m1_def)
  qed
qed

text \<open>The branches of the data path on a held session.\<close>

lemma on_data_cases:
  assumes inv: "manager_inv P m"
  obtains (ignored) "on_data_packet P now pkt from m = (Inr ME_None, m)"
  | (unauthentic) e where "map_of (mg_sessions m) (packet_sid pkt) = Some e"
      "cipher_decrypt P pkt (ws_cipher (se_session e)) = (Inl DecryptionFailed, ws_cipher (se_session e))"
      "on_data_packet P now pkt from m =
         (Inr ME_None, m\<lparr>mg_fail_gate := fail_consume from now (mg_limits m) (mg_fail_gate m)\<rparr>)"
  | (rejected) e s1 where "map_of (mg_sessions m) (packet_sid pkt) = Some e"
      "wire_decrypt P pkt (se_session e) = (Inl (SE_Codec Rejected), s1)"
      "on_data_packet P now pkt from m = (Inr ME_None, session_put (packet_sid pkt) (e\<lparr>se_session := s1\<rparr>) m)"
  | (closed) e reason where "map_of (mg_sessions m) (packet_sid pkt) = Some e"
      "(\<exists>inner s1. wire_decrypt P pkt (se_session e) = (Inr inner, s1) \<and> ip_msg_type inner = Close \<and> reason = CR_PeerClosed) \<or>
       (\<exists>s1. wire_decrypt P pkt (se_session e) = (Inl SE_RekeyRequired, s1) \<and> reason = CR_NonceExhausted)"
      "on_data_packet P now pkt from m = (Inr (ME_Closed (packet_sid pkt) reason), session_drop (packet_sid pkt) m)"
  | (delivered) e inner s1 ev where "map_of (mg_sessions m) (packet_sid pkt) = Some e"
      "wire_decrypt P pkt (se_session e) = (Inr inner, s1)"
      "ev = (if ip_msg_type inner \<in> {Data, TunData} then ME_AppData (packet_sid pkt) inner else ME_None)"
      "on_data_packet P now pkt from m =
         (Inr ev, session_put (packet_sid pkt) (e\<lparr>se_session := s1, se_last_activity := now, se_peer := from\<rparr>) m)"
  | (control) e inner s1 where "map_of (mg_sessions m) (packet_sid pkt) = Some e"
      "wire_decrypt P pkt (se_session e) = (Inr inner, s1)" "ip_msg_type inner = Handshake"
      "on_data_packet P now pkt from m = on_control_message P (packet_sid pkt) inner
         (session_put (packet_sid pkt) (e\<lparr>se_session := s1, se_last_activity := now, se_peer := from\<rparr>) m)"
proof (cases "\<exists>e. map_of (mg_sessions m) (packet_sid pkt) = Some e \<and> fail_peek from now (mg_limits m) (mg_fail_gate m)")
  case False
  then show thesis using ignored by (auto simp: on_data_packet_def Let_def split: option.splits)
next
  case True
  let ?sid = "packet_sid pkt"
  obtain e where e: "map_of (mg_sessions m) ?sid = Some e" and pk: "fail_peek from now (mg_limits m) (mg_fail_gate m)"
    using True by blast
  have same: "session_put ?sid e m = m" by (simp add: session_put_def update_same [OF e])
  note unf = on_data_packet_def Let_def
  show thesis
    using held [OF inv e]
  proof (cases rule: held_decrypt_cases [where P = P and pkt = pkt])
    case (ok inner c)
    let ?s1 = "(se_session e)\<lparr>ws_cipher := c, ws_metrics := count_received (ws_metrics (se_session e))\<rparr>"
    show thesis
    proof (cases "ip_msg_type inner = Close")
      case True
      then have "on_data_packet P now pkt from m = (Inr (ME_Closed ?sid CR_PeerClosed), session_drop ?sid m)"
        using e pk ok(2) by (simp add: unf session_drop_put)
      then show thesis using closed [OF e] ok(2) True by blast
    next
      case False
      show thesis
      proof (cases "ip_msg_type inner = Handshake")
        case True
        then have "on_data_packet P now pkt from m = on_control_message P ?sid inner
            (session_put ?sid (e\<lparr>se_session := ?s1, se_last_activity := now, se_peer := from\<rparr>) m)"
          using e pk ok(2) by (simp add: unf)
        then show thesis using control [OF e ok(2) True] by blast
      next
        case hs: False
        have "on_data_packet P now pkt from m =
           (Inr (if ip_msg_type inner \<in> {Data, TunData} then ME_AppData ?sid inner else ME_None),
            session_put ?sid (e\<lparr>se_session := ?s1, se_last_activity := now, se_peer := from\<rparr>) m)"
          using e pk ok(2) False hs by (cases "ip_msg_type inner") (simp_all add: unf)
        then show thesis using delivered [OF e ok(2) refl] by blast
      qed
    qed
  next
    case unauthentic_packet: unauthentic
    then have "on_data_packet P now pkt from m =
        (Inr ME_None, m\<lparr>mg_fail_gate := fail_consume from now (mg_limits m) (mg_fail_gate m)\<rparr>)"
      using e pk same by (simp add: unf)
    then show thesis using unauthentic [OF e] unauthentic_packet(2) by blast
  next
    case r: (rejected c)
    then have "on_data_packet P now pkt from m = (Inr ME_None, session_put ?sid (e\<lparr>se_session := (se_session e)\<lparr>ws_cipher := c\<rparr>\<rparr>) m)"
      using e pk by (simp add: unf)
    then show thesis using rejected [OF e r(2)] by blast
  next
    case (exhausted s1)
    then have "on_data_packet P now pkt from m = (Inr (ME_Closed ?sid CR_NonceExhausted), session_drop ?sid m)"
      using e pk by (simp add: unf session_drop_put)
    then show thesis using closed [OF e] exhausted by blast
  qed
qed

lemma on_data_packet_inv:
  assumes inv: "manager_inv P m"
  shows "manager_inv P (snd (on_data_packet P now pkt from m))"
  using inv
proof (cases rule: on_data_cases [of P m now pkt "from"])
  case ignored
  then show ?thesis using inv by simp
next
  case (unauthentic e)
  then show ?thesis using inv fail_consume_inv [OF manager_invD(2) [OF inv]] by simp
next
  case (rejected e s1)
  then show ?thesis
    using session_put_inv [OF inv rejected(1)] decrypt_session_ok [OF held [OF inv rejected(1)] rejected(2)]
    by (simp add: entry_held_def)
next
  case (closed e reason)
  then show ?thesis using session_drop_inv [OF inv] by simp
next
  case (delivered e inner s1 ev)
  then show ?thesis
    using session_put_inv [OF inv delivered(1)] decrypt_session_ok [OF held [OF inv delivered(1)] delivered(2)]
    by (simp add: entry_held_def)
next
  case (control e inner s1)
  have "manager_inv P (session_put (packet_sid pkt) (e\<lparr>se_session := s1, se_last_activity := now, se_peer := from\<rparr>) m)"
    using session_put_inv [OF inv control(1)] decrypt_session_ok [OF held [OF inv control(1)] control(2)]
    by (simp add: entry_held_def)
  then show ?thesis using on_control_message_inv control(4) by simp
qed

text \<open>The session id of a completed handshake has its fixed length.\<close>

lemma complete_sid_length:
  assumes "server_inv P s" "server_handle_datagram P rnd ck pkt from s = (Inr (ServerComplete out), s1)"
  shows "length (ho_session_id out) = 8"
proof -
  have m3: "on_m3_fragment P ck pkt from s = (Inr (ServerComplete out), s1)"
    using assms(2) on_m1_not_complete [of P rnd ck pkt "from" s out]
    by (auto simp: server_handle_datagram_def Let_def prod_eq_iff split: if_splits)
  have ev: "server_inv P (evict_expired (ck_evict ck) s)" by (rule evict_expired_inv [OF assms(1)])
  show ?thesis
  proof (cases rule: on_m3_cases [of P ck pkt "from" s])
    case (completed frag entry m3 sk ss_b master fk s2)
    then show ?thesis
      using m3 pending_invD(3) [OF server_inv_pending [OF ev] completed(2)]
      by (auto simp: entry_ok_def client_hello_wf_def SESSION_ID_LEN_def)
  next
    case (refused r ok s2)
    then have "r = Inr (ServerComplete out)" using m3 by simp
    then show ?thesis using refused(3) by blast
  qed (use m3 in simp_all)
qed

lemma manager_handle_inv:
  assumes inv: "manager_inv P m"
  shows "manager_inv P (snd (manager_handle_datagram P rnd order ck pkt from m))"
proof (cases "is_handshake_fragment pkt")
  case False
  then show ?thesis using on_data_packet_inv [OF inv] by (simp add: manager_handle_datagram_def)
next
  case True
  obtain res hs where h: "server_handle_datagram P rnd (mc_hs ck) pkt from (mg_hs m) = (res, hs)" by fastforce
  have "server_inv P hs" using server_handle_inv [OF manager_invD(1) [OF inv], of rnd "mc_hs ck" pkt "from"] h by simp
  then have inv1: "manager_inv P (m\<lparr>mg_hs := hs\<rparr>)" using inv by simp
  have "length (ho_session_id out) = 8" if "res = Inr (ServerComplete out)" for out
    using complete_sid_length [OF manager_invD(1) [OF inv]] h that by blast
  then show ?thesis
    using True h inv1 on_handshake_complete_inv [OF inv1]
    by (auto simp: manager_handle_datagram_def Let_def split: sum.splits ServerEvent.splits)
qed

lemma manager_inv_closes:
  "manager_inv P m \<Longrightarrow> (\<And>pc. pc \<in> set pcs \<Longrightarrow> close_ok pc) \<Longrightarrow> manager_inv P (m\<lparr>mg_pending_closes := pcs\<rparr>)"
  unfolding manager_inv_def by auto

lemma begin_close_inv:
  assumes inv: "manager_inv P m" and e: "session_ok Server sid (se_session e)"
  shows "manager_inv P (snd (begin_close P e now m))"
proof -
  obtain res s1 where w: "wire_encrypt P Close (replicate PAYLOAD_LEN 0) (se_session e) = (res, s1)" by fastforce
  have "wire_inv (se_session e)" using e by (simp add: session_ok_def)
  then have "close_ok \<lparr>pc_session = s1, pc_peer = se_peer e, pc_attempts_left = CLOSE_RETRANSMIT_TOTAL - 1,
      pc_next_at = now + CLOSE_RETRANSMIT_BASE\<rparr>" using w by (rule first_close_ok)
  then show ?thesis
    using inv w manager_invD(6) [OF inv] by (auto simp: begin_close_def intro!: manager_inv_closes split: sum.splits)
qed

lemma close_session_inv:
  assumes "manager_inv P m"
  shows "manager_inv P (snd (close_session P now sid m))"
proof (cases "map_of (mg_sessions m) sid")
  case None
  then show ?thesis using assms by (simp add: close_session_def)
next
  case (Some e)
  have "manager_inv P ((session_drop sid m)\<lparr>mg_pending_closed := evs\<rparr>)" for evs using session_drop_inv [OF assms] by simp
  from begin_close_inv [OF this held [OF assms Some]] show ?thesis
    using Some by (simp add: close_session_def Let_def case_prod_beta)
qed

lemma close_expired_inv: "manager_inv P m \<Longrightarrow> manager_inv P (snd (close_expired P now xs m))"
proof (induction xs arbitrary: m)
  case (Cons x xs)
  obtain sid reason where x: "x = (sid, reason)" by fastforce
  show ?case
  proof (cases "map_of (mg_sessions m) sid")
    case None
    then show ?thesis using Cons x by (simp add: Let_def case_prod_beta)
  next
    case (Some e)
    have "manager_inv P (snd (begin_close P e now (session_drop sid m)))"
      by (rule begin_close_inv [OF session_drop_inv [OF Cons.prems] held [OF Cons.prems Some]])
    then show ?thesis using Cons.IH Some x by (simp add: Let_def case_prod_beta)
  qed
qed simp

lemma manager_tick_inv:
  assumes "manager_inv P m"
  shows "manager_inv P (snd (manager_tick P order now m))"
proof -
  define xs where "xs = List.map_filter (\<lambda>(sid, e). map_option (Pair sid) (expired_reason now (mg_limits m) e))
    (iterate order (mg_sessions m))"
  let ?m1 = "snd (close_expired P now xs m)"
  let ?m2 = "?m1\<lparr>mg_pending_closed := []\<rparr>"
  have inv2: "manager_inv P ?m2" using close_expired_inv [OF assms] by simp
  let ?m3 = "?m2\<lparr>mg_pending_closes := snd (retransmit_closes P now (mg_pending_closes ?m2))\<rparr>"
  have inv3: "manager_inv P ?m3"
    by (rule manager_inv_closes [OF inv2]) (use retransmit_closes_ok manager_invD(6) [OF inv2] in blast)
  have "gate_inv (mg_limits ?m3) (fail_sweep now (mg_limits ?m3) (mg_fail_gate ?m3))"
    by (rule fail_sweep_inv [OF manager_invD(2) [OF inv3]])
  then show ?thesis
    using manager_inv_frame(3) [OF inv3] by (simp add: manager_tick_def Let_def case_prod_beta xs_def)
qed

section \<open>The manager as a step system\<close>

datatype manager_input =
    MDatagram ServerDraws "bytes list" ManagerClock WirePacket SocketAddr
  | MSetRoster "bytes list"
  | MApp bytes bytes
  | MTun bytes bytes
  | MCover "string + bytes" bytes
  | MCoverAll "bytes \<Rightarrow> string + bytes"
  | MClose instant bytes
  | MTick "bytes list" instant

fun manager_step ::
  "primitives \<Rightarrow> manager_input \<Rightarrow> ServerSessionManager \<Rightarrow> (ManagerError + ManagerEvent list) \<times> ServerSessionManager" where
  "manager_step P (MDatagram rnd order ck pkt from) m = one_event (manager_handle_datagram P rnd order ck pkt from m)"
| "manager_step P (MSetRoster roster) m =
     (case manager_set_roster roster m of (Inl e, m1) \<Rightarrow> (Inl e, m1) | (Inr _, m1) \<Rightarrow> (Inr [], m1))"
| "manager_step P (MApp sid payload) m = one_event (app_outbound P sid payload m)"
| "manager_step P (MTun sid payload) m = one_event (tun_outbound P sid payload m)"
| "manager_step P (MCover rnd sid) m = one_event (cover_packet P rnd sid m)"
| "manager_step P (MCoverAll rnd) m = cover_packet_all P rnd m"
| "manager_step P (MClose now sid) m = one_event (close_session P now sid m)"
| "manager_step P (MTick order now) m = (let (evs, m1) = manager_tick P order now m in (Inr evs, m1))"

lemma manager_step_inv:
  assumes "manager_inv P m"
  shows "manager_inv P (snd (manager_step P i m))"
proof (cases i)
  case (MSetRoster roster)
  have "server_inv P (snd (set_roster roster (mg_hs m)))" by (rule set_roster_inv [OF manager_invD(1) [OF assms]])
  then have "manager_inv P (snd (manager_set_roster roster m))"
    using assms by (auto simp: manager_set_roster_def Let_def split: prod.splits sum.splits)
  then show ?thesis using MSetRoster by (auto split: prod.splits sum.splits)
next
  case (MApp sid payload)
  then show ?thesis using assms send_encrypted_inv [OF assms] by (simp add: app_outbound_def)
next
  case (MTun sid payload)
  then show ?thesis using assms send_encrypted_inv [OF assms] by (simp add: tun_outbound_def)
next
  case (MTick order now)
  then show ?thesis using manager_tick_inv [OF assms, of order now] by (simp add: case_prod_beta)
next
  case (MDatagram rnd order ck pkt "from")
  then show ?thesis using manager_handle_inv [OF assms] by simp
qed (simp_all add: assms cover_packet_inv cover_packet_all_def cover_each_inv close_session_inv)

interpretation manager: step_system "manager_step P" "manager_inv P" for P
  by unfold_locales (rule manager_step_inv)

end
