(* ===== verification/Server_Guarantees.thy ===== *)
theory Server_Guarantees
  imports Server_Manager
begin

text \<open>What the server session manager promises over every run of its operations: the limits and
  tables stay bounded, packets that do not authenticate change nothing but their bucket, the data
  path never fails, a tick closes exactly the expired sessions, and a completed handshake never
  replaces a live session.\<close>

section \<open>What stays fixed\<close>

text \<open>No operation changes the limits or the handshake configuration other than the roster.\<close>

definition fixed :: "ServerSessionManager \<Rightarrow> SessionLimits \<times> nat \<times> byte \<times> bytes" where
  "fixed m = (let cfg = sv_cfg (mg_hs m) in (mg_limits m, scf_max_pending cfg, scf_version cfg, scf_identity cfg))"

lemma fixed_updates [simp]:
  "fixed (session_put sid e m) = fixed m" "fixed (session_drop sid m) = fixed m"
  "fixed (m\<lparr>mg_pending_closed := evs\<rparr>) = fixed m" "fixed (m\<lparr>mg_pending_closes := pcs\<rparr>) = fixed m"
  "fixed (m\<lparr>mg_fail_gate := g\<rparr>) = fixed m"
  by (simp_all add: fixed_def Let_def session_put_def session_drop_def)

lemma emit_cases:
  fixes res :: "SessionError + WirePacket" and m1 :: ServerSessionManager and sid :: bytes and peer :: SocketAddr
  defines "E \<equiv> (case res of
      Inr packet \<Rightarrow> (Inr (ME_SendPacket packet peer), m1)
    | Inl SE_RekeyRequired \<Rightarrow> (Inr (ME_Closed sid CR_NonceExhausted), session_drop sid m1)
    | Inl err \<Rightarrow> (Inl (MgrSession err), m1))"
  obtains (sent) packet where "res = Inr packet" "E = (Inr (ME_SendPacket packet peer), m1)"
  | (exhausted) "res = Inl SE_RekeyRequired" "E = (Inr (ME_Closed sid CR_NonceExhausted), session_drop sid m1)"
  | (failed) err where "res = Inl err" "err \<noteq> SE_RekeyRequired" "E = (Inl (MgrSession err), m1)"
proof (cases res)
  case (Inl err)
  then show thesis using exhausted failed by (cases err) (auto simp: E_def)
next
  case (Inr packet)
  then show thesis using sent by (simp add: E_def)
qed

lemma fixed_emit [simp]:
  "fixed (snd (case res of
      Inr packet \<Rightarrow> (Inr (ME_SendPacket packet peer), m1)
    | Inl SE_RekeyRequired \<Rightarrow> (Inr (ME_Closed sid CR_NonceExhausted), session_drop sid m1)
    | Inl err \<Rightarrow> (Inl (MgrSession err), m1))) = fixed m1"
  by (rule emit_cases [of res m1 sid peer]) simp_all

lemma fixed_send [simp]: "fixed (snd (send_encrypted P sid mt payload m)) = fixed m"
  by (simp add: send_encrypted_def Let_def case_prod_beta split: option.split)

lemma fixed_cover [simp]: "fixed (snd (cover_packet P rnd sid m)) = fixed m"
  by (simp add: cover_packet_def Let_def case_prod_beta split: option.split)

lemma fixed_control [simp]: "fixed (snd (on_control_message P sid inner m)) = fixed m"
  by (simp add: on_control_message_def Let_def case_prod_beta split: option.split)

lemma fixed_begin_close [simp]: "fixed (snd (begin_close P e now m)) = fixed m"
  by (simp add: begin_close_def split: prod.split sum.split)

lemma fixed_cover_each [simp]: "fixed (snd (cover_each P rnd sids m)) = fixed m"
proof (induction sids arbitrary: m)
  case (Cons sid sids)
  obtain r m1 where c: "cover_packet P (rnd sid) sid m = (r, m1)" by fastforce
  obtain r2 m2 where d: "cover_each P rnd sids m1 = (r2, m2)" by fastforce
  have "fixed m1 = fixed m" using fixed_cover [of P "rnd sid" sid m] by (simp add: c)
  moreover have "fixed m2 = fixed m1" using Cons.IH [of m1] by (simp add: d)
  ultimately show ?case using c d by (simp split: sum.split)
qed simp

lemma fixed_close_expired [simp]: "fixed (snd (close_expired P now xs m)) = fixed m"
  by (induction P now xs m rule: close_expired.induct) (simp_all add: Let_def case_prod_beta split: option.split)

lemma fixed_data: "manager_inv P m \<Longrightarrow> fixed (snd (on_data_packet P now pkt from m)) = fixed m"
  by (cases rule: on_data_cases [of P m now pkt "from"]) simp_all

lemma fixed_complete: "fixed (snd (on_handshake_complete P order created now outcome from m)) = fixed m"
  by (auto simp: on_handshake_complete_def Let_def split: option.splits sum.splits)

lemma fixed_hs:
  "sv_cfg hs = sv_cfg (mg_hs m) \<Longrightarrow> fixed (m\<lparr>mg_hs := hs\<rparr>) = fixed m"
  by (simp add: fixed_def Let_def)

lemma fixed_handle:
  assumes "manager_inv P m"
  shows "fixed (snd (manager_handle_datagram P rnd order ck pkt from m)) = fixed m"
proof -
  obtain res hs where h: "server_handle_datagram P rnd (mc_hs ck) pkt from (mg_hs m) = (res, hs)" by fastforce
  have "sv_cfg hs = sv_cfg (mg_hs m)"
    using h on_m1_frame(1) [of P rnd "mc_hs ck" pkt "from" "mg_hs m"] on_m3_frame(1) [of P "mc_hs ck" pkt "from" "mg_hs m"]
    by (auto simp: server_handle_datagram_def Let_def split: if_splits)
  then have "fixed (m\<lparr>mg_hs := hs\<rparr>) = fixed m" by (simp add: fixed_hs)
  then show ?thesis
    using h fixed_data [OF assms] fixed_complete [of P order _ _ _ "from" "m\<lparr>mg_hs := hs\<rparr>"]
    by (auto simp: manager_handle_datagram_def Let_def split: sum.splits ServerEvent.splits)
qed

lemma fixed_step:
  assumes "manager_inv P m"
  shows "fixed (snd (manager_step P i m)) = fixed m"
proof (cases i)
  case (MDatagram rnd order ck pkt "from")
  then show ?thesis using fixed_handle [OF assms] by simp
next
  case (MSetRoster roster)
  then show ?thesis
    by (auto simp: manager_set_roster_def set_roster_def fixed_def Let_def split: prod.splits sum.splits if_splits)
next
  case (MClose now sid)
  then show ?thesis by (simp add: close_session_def Let_def case_prod_beta split: option.splits)
qed (simp_all add: app_outbound_def tun_outbound_def cover_packet_all_def manager_tick_def Let_def case_prod_beta)

lemma fixed_run: "manager_inv P m \<Longrightarrow> fixed (snd (run (manager_step P) is m)) = fixed m"
  by (induction "is" arbitrary: m) (simp_all add: fixed_step manager_step_inv)

inductive manager_reachable :: "primitives \<Rightarrow> ServerSessionManager \<Rightarrow> bool" for P where
  fresh: "manager_new now_hs now cfg limits = Inr m \<Longrightarrow> manager_reachable P m"
| step: "manager_reachable P m \<Longrightarrow> manager_reachable P (snd (manager_step P i m))"

lemma reachable_inv: "manager_reachable P m \<Longrightarrow> manager_inv P m"
  by (induction rule: manager_reachable.induct) (simp_all add: manager_new_inv manager_step_inv)

lemma reachable_run: "manager_reachable P m \<Longrightarrow> manager_reachable P (snd (run (manager_step P) is m))"
  by (induction "is" arbitrary: m) (simp_all add: manager_reachable.step)

section \<open>Sending on a held session\<close>

lemma held_encrypt:
  assumes s: "session_ok role sid s" and P: "aead_correct P" and len: "length payload = PAYLOAD_LEN"
  obtains (sent) pkt where "fst (wire_encrypt P mt payload s) = Inr pkt"
  | (rekey) "fst (wire_encrypt P mt payload s) = Inl SE_RekeyRequired"
proof -
  have wf: "cipher_wf (ws_cipher s)" using s by (simp add: session_ok_def wire_inv_def)
  have est: "require_established s = Inr ()" using s by (simp add: session_ok_def require_established_def)
  show thesis
  proof (cases "is_counter_exhausted (cs_send_counter (ws_cipher s))")
    case True
    then show thesis using rekey encrypt_exhausted [OF len True, of P mt] est by (simp add: wire_encrypt_def)
  next
    case False
    obtain pkt where "cipher_encrypt P mt payload (ws_cipher s) =
        (Inr pkt, (ws_cipher s)\<lparr>cs_send_counter := cs_send_counter (ws_cipher s) + 1\<rparr>)"
      by (rule encrypt_succeeds [OF wf P len False])
    then show thesis using sent est by (simp add: wire_encrypt_def)
  qed
qed

lemma emit_total:
  assumes "res = Inl SE_RekeyRequired \<or> (\<exists>pkt. res = Inr pkt)"
  shows "\<exists>ev. fst (case res of
      Inr packet \<Rightarrow> (Inr (ME_SendPacket packet peer), m1)
    | Inl SE_RekeyRequired \<Rightarrow> (Inr (ME_Closed sid CR_NonceExhausted), session_drop sid m1)
    | Inl err \<Rightarrow> (Inl (MgrSession err), m1)) = Inr ev"
  using assms by auto

lemma send_encrypted_total:
  assumes inv: "manager_inv P m" and P: "aead_correct P" and len: "length payload = PAYLOAD_LEN"
    and e: "map_of (mg_sessions m) sid = Some e"
  shows "\<exists>ev. fst (send_encrypted P sid mt payload m) = Inr ev"
proof -
  obtain res s1 where w: "wire_encrypt P mt payload (se_session e) = (res, s1)" by fastforce
  have "res = Inl SE_RekeyRequired \<or> (\<exists>pkt. res = Inr pkt)"
    using held_encrypt [OF held [OF inv e] P len, of mt] w by (metis fst_conv)
  from emit_total [OF this] show ?thesis using e w by (simp add: send_encrypted_def Let_def)
qed

lemma control_payload_length: "length (control_payload b) = PAYLOAD_LEN"
  by (simp add: control_payload_def)

lemma control_total:
  assumes inv: "manager_inv P m" and P: "aead_correct P"
  shows "\<exists>ev. fst (on_control_message P sid inner m) = Inr ev"
proof (cases "ip_payload inner ! 0 = CONTROL_PROBE \<and> (\<exists>e. map_of (mg_sessions m) sid = Some e)")
  case False
  then show ?thesis by (auto simp: on_control_message_def split: option.splits)
next
  case True
  then obtain e where e: "map_of (mg_sessions m) sid = Some e" by blast
  obtain res s1 where w: "wire_encrypt P Handshake (control_payload CONTROL_ACK) (se_session e) = (res, s1)" by fastforce
  have "res = Inl SE_RekeyRequired \<or> (\<exists>pkt. res = Inr pkt)"
    using held_encrypt [OF held [OF inv e] P control_payload_length, of Handshake CONTROL_ACK] w by (metis fst_conv)
  from emit_total [OF this] show ?thesis using e w True by (simp add: on_control_message_def Let_def)
qed

lemma on_data_total:
  assumes inv: "manager_inv P m" and P: "aead_correct P"
  shows "\<exists>ev. fst (on_data_packet P now pkt from m) = Inr ev"
  using inv
proof (cases rule: on_data_cases [of P m now pkt "from"])
  case (control ent inner s1)
  have "manager_inv P (session_put (packet_sid pkt) (ent\<lparr>se_session := s1, se_last_activity := now, se_peer := from\<rparr>) m)"
    using session_put_inv [OF inv control(1)] decrypt_session_ok [OF held [OF inv control(1)] control(2)]
    by (simp add: entry_held_def)
  from control_total [OF this P] show ?thesis using control(4) by simp
qed simp_all

section \<open>The timer\<close>

lemma begin_close_frame [simp]:
  "mg_sessions (snd (begin_close P e now m)) = mg_sessions m"
  "mg_pending_closed (snd (begin_close P e now m)) = mg_pending_closed m"
  "fst (begin_close P e now m) \<noteq> ME_Closed sid reason"
  by (simp_all add: begin_close_def split: prod.split sum.split)

lemma close_expired_sessions:
  "map_of (mg_sessions (snd (close_expired P now xs m))) sid =
     (if sid \<in> fst ` set xs then None else map_of (mg_sessions m) sid)"
  "mg_pending_closed (snd (close_expired P now xs m)) = mg_pending_closed m"
  "ME_Closed sid reason \<in> set (fst (close_expired P now xs m)) \<longleftrightarrow> (sid, reason) \<in> set xs"
proof (induction P now xs m rule: close_expired.induct)
  case (2 P now sid' reason' xs m)
  {
    case 1
    show ?case using "2.IH"(1) by (auto simp: Let_def case_prod_beta session_drop_def table_simps image_iff split: option.split)
  next
    case 2
    show ?case using "2.IH"(2) by (simp add: Let_def case_prod_beta session_drop_def split: option.split)
  next
    case 3
    have "fst (begin_close P e now m') \<noteq> ME_Closed sid reason" "ME_Closed sid reason \<noteq> fst (begin_close P e now m')" for e m'
      using begin_close_frame(3) [of P e now m' sid reason] by metis+
    then show ?case using "2.IH"(3) by (auto simp: Let_def case_prod_beta split: option.split)
  }
qed simp_all

lemma retransmits_no_close: "ME_Closed sid reason \<notin> set (fst (retransmit_closes P now pcs))"
  by (auto simp: retransmit_closes_def retransmit_one_def Let_def map_filter_def split: prod.splits sum.splits if_splits)

lemma expired_entries:
  assumes "table_ok t"
  shows "(sid, reason) \<in> set (List.map_filter (\<lambda>(sid, e). map_option (Pair sid) (expired_reason now l e)) (iterate order t))
    \<longleftrightarrow> (\<exists>e. map_of t sid = Some e \<and> expired_reason now l e = Some reason)"
proof -
  have "map_of t sid = Some e \<longleftrightarrow> (sid, e) \<in> set t" for sid e using assms by (simp add: table_ok_def)
  then show ?thesis by (force simp: map_filter_def iterate_set [OF assms])
qed

text \<open>Past the lifetime cap, and without activity for the idle timeout.\<close>

definition outlived :: "instant \<Rightarrow> SessionLimits \<Rightarrow> SessionEntry \<Rightarrow> bool" where
  "outlived now l e \<longleftrightarrow> (\<exists>cap. sl_lifetime_cap l = Some cap \<and> cap \<le> now - se_established_at e)"

definition idled :: "instant \<Rightarrow> SessionLimits \<Rightarrow> SessionEntry \<Rightarrow> bool" where
  "idled now l e \<longleftrightarrow> (\<exists>t. sl_idle_timeout l = Some t \<and> t \<le> now - se_last_activity e)"

lemma expired_reason_iff:
  "expired_reason now l e = None \<longleftrightarrow> \<not> outlived now l e \<and> \<not> idled now l e"
  "expired_reason now l e = Some reason \<longleftrightarrow>
     outlived now l e \<and> reason = CR_LifetimeCap \<or> \<not> outlived now l e \<and> idled now l e \<and> reason = CR_IdleTimeout"
  by (auto simp: expired_reason_def outlived_def idled_def Let_def split: option.splits)

lemma manager_tick_effect:
  assumes inv: "manager_inv P m"
  shows "map_of (mg_sessions (snd (manager_tick P order now m))) sid =
      (case map_of (mg_sessions m) sid of None \<Rightarrow> None
       | Some e \<Rightarrow> if expired_reason now (mg_limits m) e = None then Some e else None)" (is ?A)
    and "ME_Closed sid reason \<in> set (fst (manager_tick P order now m)) \<longleftrightarrow>
      (\<exists>e. map_of (mg_sessions m) sid = Some e \<and> expired_reason now (mg_limits m) e = Some reason) \<or>
      ME_Closed sid reason \<in> set (mg_pending_closed m)" (is ?B)
    and "mg_pending_closed (snd (manager_tick P order now m)) = []" (is ?C)
proof -
  define xs where "xs = List.map_filter (\<lambda>(sid, e). map_option (Pair sid) (expired_reason now (mg_limits m) e))
    (iterate order (mg_sessions m))"
  have x: "(sid, r) \<in> set xs \<longleftrightarrow> (\<exists>e. map_of (mg_sessions m) sid = Some e \<and> expired_reason now (mg_limits m) e = Some r)" for r
    unfolding xs_def by (rule expired_entries [OF manager_invD(3) [OF inv]])
  then have "sid \<in> fst ` set xs \<longleftrightarrow> (\<exists>e r. map_of (mg_sessions m) sid = Some e \<and> expired_reason now (mg_limits m) e = Some r)"
    by (force simp: image_iff)
  then show ?A
    by (auto simp: manager_tick_def Let_def case_prod_beta xs_def [symmetric] close_expired_sessions(1) split: option.split)
  show ?B
    using x by (simp add: manager_tick_def Let_def case_prod_beta xs_def [symmetric] close_expired_sessions(2,3) retransmits_no_close)
  show ?C by (simp add: manager_tick_def Let_def case_prod_beta)
qed

section \<open>A completed handshake\<close>

text \<open>The sessions and queued closes after room was made for a new session: a full table loses one least
  recently active session, any other table nothing.\<close>

definition room_made :: "bytes \<Rightarrow> ServerSessionManager \<Rightarrow> ServerSessionManager \<Rightarrow> bool" where
  "room_made sid m m1 \<longleftrightarrow>
     (if mg_sessions m \<noteq> [] \<and> sl_max_sessions (mg_limits m) \<le> length (mg_sessions m)
      then \<exists>stale e. map_of (mg_sessions m) stale = Some e \<and>
        (\<forall>sid' e'. map_of (mg_sessions m) sid' = Some e' \<longrightarrow> se_last_activity e \<le> se_last_activity e') \<and>
        (\<forall>sid'. sid' \<noteq> sid \<longrightarrow> map_of (mg_sessions m1) sid' = (if sid' = stale then None else map_of (mg_sessions m) sid')) \<and>
        mg_pending_closed m1 = mg_pending_closed m @ [ME_Closed stale CR_Capacity]
      else (\<forall>sid'. sid' \<noteq> sid \<longrightarrow> map_of (mg_sessions m1) sid' = map_of (mg_sessions m) sid') \<and>
        mg_pending_closed m1 = mg_pending_closed m)"

lemma complete_insertion:
  assumes inv: "manager_inv P m"
    and c: "on_handshake_complete P order created now outcome from m = (Inr (ME_Established sid from'), m1)"
  shows "map_of (mg_sessions m) sid = None"
    and "\<exists>s. wire_established P created Server outcome = Inr s \<and> sid = ho_session_id outcome \<and> from' = from \<and>
      map_of (mg_sessions m1) sid = Some \<lparr>se_session = s, se_peer = from, se_last_activity = now, se_established_at = now\<rparr>"
    and "room_made sid m m1"
proof -
  have new: "\<not> contains_key (ho_session_id outcome) (mg_sessions m)"
    using c by (auto simp: on_handshake_complete_def Let_def split: if_splits)
  define m0 where "m0 = (if length (mg_sessions m) \<ge> sl_max_sessions (mg_limits m)
      then (case stalest (iterate order (mg_sessions m)) of
              Some stale \<Rightarrow> (session_drop stale m)\<lparr>mg_pending_closed := mg_pending_closed m @ [ME_Closed stale CR_Capacity]\<rparr>
            | None \<Rightarrow> m)
      else m)"
  obtain s where s: "wire_established P created Server outcome = Inr s" "sid = ho_session_id outcome" "from' = from"
    "m1 = session_put sid \<lparr>se_session = s, se_peer = from, se_last_activity = now, se_established_at = now\<rparr> m0"
    using c new by (cases "wire_established P created Server outcome") (auto simp: on_handshake_complete_def Let_def m0_def)
  show free: "map_of (mg_sessions m) sid = None" using new s(2) by (simp add: contains_key_def)
  show "\<exists>s. wire_established P created Server outcome = Inr s \<and> sid = ho_session_id outcome \<and> from' = from \<and>
      map_of (mg_sessions m1) sid = Some \<lparr>se_session = s, se_peer = from, se_last_activity = now, se_established_at = now\<rparr>"
    using s by (simp add: session_put_def table_simps)
  have m1: "map_of (mg_sessions m1) sid' = map_of (mg_sessions m0) sid'" if "sid' \<noteq> sid" for sid'
    using s(4) that by (simp add: session_put_def table_simps)
  have pc: "mg_pending_closed m1 = mg_pending_closed m0" using s(4) by (simp add: session_put_def)
  have ok: "table_ok (mg_sessions m)" by (rule manager_invD(3) [OF inv])
  show "room_made sid m m1"
  proof (cases "mg_sessions m \<noteq> [] \<and> sl_max_sessions (mg_limits m) \<le> length (mg_sessions m)")
    case True
    obtain stale where st: "stalest (iterate order (mg_sessions m)) = Some stale" using stalest_some [OF ok] True by blast
    obtain e where e: "map_of (mg_sessions m) stale = Some e"
      "\<And>sid' e'. map_of (mg_sessions m) sid' = Some e' \<Longrightarrow> se_last_activity e \<le> se_last_activity e'"
      using stalest_min [OF ok st] by metis
    have "m0 = (session_drop stale m)\<lparr>mg_pending_closed := mg_pending_closed m @ [ME_Closed stale CR_Capacity]\<rparr>"
      using True st by (simp add: m0_def)
    then show ?thesis
      unfolding room_made_def if_P [OF True] using e m1 pc
      by (intro exI [of _ stale] exI [of _ e]) (simp add: session_drop_def table_simps)
  next
    case False
    then have "m0 = m" using stalest_none by (auto simp: m0_def)
    then show ?thesis using m1 pc unfolding room_made_def if_not_P [OF False] by simp
  qed
qed

section \<open>The handshake through the manager\<close>

text \<open>One datagram with the readings and draws of its call: the server's draws, the iteration order,
  the clocks, and the index of the M1 fragment it carries.\<close>

type_synonym delivery = "ServerDraws \<times> bytes list \<times> ManagerClock \<times> nat"

fun to_machine :: "delivery \<Rightarrow> ServerDraws \<times> Clock \<times> nat" where
  "to_machine (rnd, order, ck, l) = (rnd, mc_hs ck, l)"

fun lifted :: "server_output \<Rightarrow> ManagerError + ManagerEvent list" where
  "lifted (Handled (Inr (ServerEmit packets peer))) = Inr [ME_Send packets peer]"
| "lifted (Handled (Inr ServerNone)) = Inr [ME_None]"
| "lifted _ = Inr []"

lemma handshake_fragment_result:
  assumes "server_handle_datagram P rnd ck pkt from s = (Inr ev, s1)" "ev \<noteq> ServerNone"
  shows "is_handshake_fragment pkt"
  using assms by (auto simp: server_handle_datagram_def is_handshake_fragment_def Let_def split: if_splits)

lemma manager_run_handshake:
  assumes "\<And>d. d \<in> set ds \<Longrightarrow> is_handshake_fragment (pkt (snd (snd (snd d))))"
    and "run (server_step P) (map (\<lambda>(rnd, ck, l). Datagram rnd ck (pkt l) from) (map to_machine ds)) (mg_hs m) = (outs, hs)"
    and "\<And>out. out \<in> set outs \<Longrightarrow> out = Handled (Inr ServerNone) \<or> (\<exists>ps q. out = Handled (Inr (ServerEmit ps q)))"
  shows "run (manager_step P) (map (\<lambda>(rnd, order, ck, l). MDatagram rnd order ck (pkt l) from) ds) m =
    (map lifted outs, m\<lparr>mg_hs := hs\<rparr>)"
  using assms
proof (induction ds arbitrary: m outs)
  case Nil
  then show ?case by simp
next
  case (Cons d ds)
  obtain rnd order ck l where d: "d = (rnd, order, ck, l)" by (cases d) auto
  obtain r hs1 where h: "server_handle_datagram P rnd (mc_hs ck) (pkt l) from (mg_hs m) = (r, hs1)" by fastforce
  obtain outs1 where r: "run (server_step P) (map (\<lambda>(rnd, ck, l). Datagram rnd ck (pkt l) from) (map to_machine ds)) hs1 = (outs1, hs)"
    "outs = Handled r # outs1"
    using Cons.prems(2) h by (auto simp: d prod_eq_iff)
  have hs: "is_handshake_fragment (pkt l)" using Cons.prems(1) [of d] by (simp add: d)
  have one: "r = Inr ServerNone \<or> (\<exists>ps q. r = Inr (ServerEmit ps q))" using Cons.prems(3) [of "Handled r"] r(2) by simp
  have "manager_step P (MDatagram rnd order ck (pkt l) from) m = (lifted (Handled r), m\<lparr>mg_hs := hs1\<rparr>)"
    using h hs one by (auto simp: manager_handle_datagram_def)
  moreover have "run (manager_step P) (map (\<lambda>(rnd, order, ck, l). MDatagram rnd order ck (pkt l) from) ds) (m\<lparr>mg_hs := hs1\<rparr>) =
      (map lifted outs1, (m\<lparr>mg_hs := hs1\<rparr>)\<lparr>mg_hs := hs\<rparr>)"
    by (rule Cons.IH) (use Cons.prems r in auto)
  ultimately show ?case using r(2) by (simp add: d)
qed

text \<open>A datagram starts at most one handshake and leaves the configuration as it is.\<close>

abbreviation handshakes :: "ServerHandshake \<Rightarrow> nat" where
  "handshakes s \<equiv> card (dom (map_of (sv_pending s)))"

lemma server_datagram_frame:
  "sv_cfg (snd (server_handle_datagram P rnd ck pkt from s)) = sv_cfg s"
  "handshakes (snd (server_handle_datagram P rnd ck pkt from s)) \<le> Suc (handshakes s)"
proof -
  let ?s = "snd (server_handle_datagram P rnd ck pkt from s)"
  show "sv_cfg ?s = sv_cfg s" by (simp add: server_handle_datagram_def on_m1_frame(1) on_m3_frame(1) Let_def)
  have ev: "dom (map_of (sv_pending (evict_expired now s))) \<subseteq> dom (map_of (sv_pending s))" for now
    by (auto simp: evict_expired_def dom_map_of_conv_image_fst)
  have "\<exists>sid. dom (map_of (sv_pending ?s)) \<subseteq> insert sid (dom (map_of (sv_pending s)))"
  proof (cases "from_datagram pkt")
    case (Inl e)
    then have "?s = s" by (simp add: server_handle_datagram_def on_m1_fragment_def on_m3_fragment_def Let_def)
    then show ?thesis by auto
  next
    case (Inr frag)
    have "map_of (sv_pending ?s) sid \<in> {map_of (sv_pending s) sid, map_of (sv_pending (evict_expired (ck_evict ck) s)) sid}"
      if "sid \<noteq> hf_sid frag" for sid
      using on_m1_frame(2) [OF Inr that] on_m3_frame(2) [OF Inr that] by (simp add: server_handle_datagram_def Let_def)
    then have "sid \<in> dom (map_of (sv_pending s))" if "sid \<in> dom (map_of (sv_pending ?s))" "sid \<noteq> hf_sid frag" for sid
      using that ev [of "ck_evict ck"] by (fastforce simp: dom_def)
    then show ?thesis by (intro exI [of _ "hf_sid frag"]) blast
  qed
  then obtain sid where "dom (map_of (sv_pending ?s)) \<subseteq> insert sid (dom (map_of (sv_pending s)))" ..
  then have "handshakes ?s \<le> card (insert sid (dom (map_of (sv_pending s))))" by (intro card_mono) (simp_all add: finite_dom_map_of)
  then show "handshakes ?s \<le> Suc (handshakes s)" by (simp add: card_insert_if finite_dom_map_of split: if_splits)
qed

lemma datagrams_frame:
  assumes "\<forall>i \<in> set is. \<exists>rnd ck pkt from. i = Datagram rnd ck pkt from" "run (server_step P) is s = (outs, s1)"
  shows "sv_cfg s1 = sv_cfg s \<and> handshakes s1 \<le> handshakes s + length is"
  using assms
proof (induction "is" arbitrary: s outs)
  case (Cons i "is")
  obtain rnd ck pkt "from" where i: "i = Datagram rnd ck pkt from" using Cons.prems(1) by auto
  obtain outs1 where "run (server_step P) is (snd (server_handle_datagram P rnd ck pkt from s)) = (outs1, s1)"
    using Cons.prems(2) by (simp add: i case_prod_beta) (metis prod.collapse)
  then show ?case
    using Cons.IH Cons.prems(1) server_datagram_frame [of P rnd ck pkt "from" s] by fastforce
qed simp

lemma manager_handshake:
  fixes rnd3 ck3
  assumes P: "hkdf_correct P" "hash_sized P" and inv: "manager_inv P m"
    and cr: "client_ready P cfg sid ks xs" and sr: "server_ready P (sv_cfg (mg_hs m)) rnd" and r3: "length r3 = 32"
    and ids: "mldsa_vk_of P (ccf_identity cfg) \<in> set (scf_roster (sv_cfg (mg_hs m)))"
      "ccf_server_identity cfg = mldsa_vk_of P (scf_identity (sv_cfg (mg_hs m)))"
    and new: "client_new P ks xs jit cfg sid = Inr h0" and adm: "can_admit sid from (mg_hs m)"
    and free: "map_of (mg_sessions m) sid = None"
    and sched: "m1_schedule t0 (mg_hs m) (map to_machine ds) i" "m2_schedule ys j"
    and lv: "live t0 (mg_hs m) (mc_hs ck)" "live t0 (mg_hs m) (mc_hs ck3)"
  obtains m2s m1 m3 out_c h1 m2 wc ws where
    "run (manager_step P) (map (\<lambda>(rnd, order, ck, l). MDatagram rnd order ck (ch_m1_frags h0 ! l) from) (ds @ [(rnd, order, ck, i)])) m =
       (replicate (length ds) (Inr [ME_None]) @ [Inr [ME_Send m2s from]], m1)"
    "run (client_step P) (map (\<lambda>(rnd, jit, l). ClientDatagram rnd jit (m2s ! l)) (ys @ [(r3, jit3, j)])) h0 =
       (replicate (length ys) (Inr ClientNone) @ [Inr (ClientM3Sent [m3] out_c)], h1)"
    "manager_handle_datagram P rnd3 order3 ck3 m3 from m1 = (Inr (ME_Established sid from), m2)"
    "ho_session_id out_c = sid" "ho_peer_identity out_c = mldsa_vk_of P (scf_identity (sv_cfg (mg_hs m)))"
    "wire_established P tc Client out_c = Inr wc"
    "map_of (mg_sessions m2) sid = Some \<lparr>se_session = ws, se_peer = from, se_last_activity = mc_now ck3, se_established_at = mc_now ck3\<rparr>"
    "cipher_new P Client (ho_master out_c) sid = Inr (ws_cipher wc)"
    "cipher_new P Server (ho_master out_c) sid = Inr (ws_cipher ws)"
    "mg_fail_gate m2 = mg_fail_gate m" "mg_limits m2 = mg_limits m"
    "length m2s = unat M2_FRAG_COUNT" "\<forall>p \<in> set m2s. is_handshake_fragment p"
    "mg_sessions m1 = mg_sessions m" "mg_limits m1 = mg_limits m" "sv_cfg (mg_hs m2) = sv_cfg (mg_hs m)"
    "handshakes (mg_hs m2) \<le> handshakes (mg_hs m) + length ds + 2"
proof -
  obtain m2s hs1 m3 out_c h1 out_s hs2 where x:
    "run (server_step P) (map (\<lambda>(rnd, ck, l). Datagram rnd ck (ch_m1_frags h0 ! l) from) (map to_machine ds @ [(rnd, mc_hs ck, i)])) (mg_hs m) =
       (replicate (length (map to_machine ds)) (Handled (Inr ServerNone)) @ [Handled (Inr (ServerEmit m2s from))], hs1)"
    "run (client_step P) (map (\<lambda>(rnd, jit, l). ClientDatagram rnd jit (m2s ! l)) (ys @ [(r3, jit3, j)])) h0 =
       (replicate (length ys) (Inr ClientNone) @ [Inr (ClientM3Sent [m3] out_c)], h1)"
    "server_step P (Datagram rnd3 (mc_hs ck3) m3 from) hs1 = (Handled (Inr (ServerComplete out_s)), hs2)"
    "ho_master out_c = ho_master out_s" "ho_session_id out_c = sid" "ho_session_id out_s = sid"
    "ho_peer_identity out_c = mldsa_vk_of P (scf_identity (sv_cfg (mg_hs m)))"
    "length m2s = unat M2_FRAG_COUNT" "\<forall>p \<in> set m2s. is_handshake_fragment p"
    by (rule honest_exchange [OF P manager_invD(1) [OF inv] cr sr r3 ids new adm sched lv])
  have sid: "length sid = 8" using cr by (simp add: client_ready_def)
  obtain cc cs where c: "cipher_new P Client (ho_master out_c) sid = Inr cc" "cipher_new P Server (ho_master out_c) sid = Inr cs"
    using cipher_new_ok [OF P(1) sid] by metis
  obtain wc where wc: "wire_established P tc Client out_c = Inr wc" "ws_cipher wc = cc"
    using c(1) x(5) by (simp add: wire_established_def)
  obtain ws where ws: "wire_established P (mc_created ck3) Server out_s = Inr ws" "ws_cipher ws = cs"
    using c(2) x(4,6) by (simp add: wire_established_def)
  have frags: "ch_m1_frags h0 = map (hs_packet HS_TYPE_CLIENT_HELLO sid (client_hello_encode (hello_of P cfg sid ks xs)) M1_FRAG_COUNT)
      [0..<unat M1_FRAG_COUNT]"
    by (rule client_new_ok [OF cr, of jit]) (use new in simp)
  have frag: "is_handshake_fragment (ch_m1_frags h0 ! l)" if "l < unat M1_FRAG_COUNT" for l
    unfolding frags is_handshake_fragment_def using that by (simp add: hs_packet_type [OF sid])
  let ?ds = "ds @ [(rnd, order, ck, i)]"
  have bound: "snd (snd (snd d)) < unat M1_FRAG_COUNT" if "d \<in> set ?ds" for d
  proof (cases "d \<in> set ds")
    case True
    then have "to_machine d \<in> set (map to_machine ds)" by simp
    then show ?thesis using sched(1) unfolding m1_schedule_def by (cases d) auto
  next
    case False
    then show ?thesis using that sched(1) by (simp add: m1_schedule_def)
  qed
  have one: "run (manager_step P) (map (\<lambda>(rnd, order, ck, l). MDatagram rnd order ck (ch_m1_frags h0 ! l) from) ?ds) m =
      (map lifted (replicate (length (map to_machine ds)) (Handled (Inr ServerNone)) @ [Handled (Inr (ServerEmit m2s from))]), m\<lparr>mg_hs := hs1\<rparr>)"
    proof (rule manager_run_handshake)
    show "is_handshake_fragment (ch_m1_frags h0 ! snd (snd (snd d)))" if "d \<in> set ?ds" for d by (rule frag [OF bound [OF that]])
  qed (use x(1) in auto)
  have h3: "server_handle_datagram P rnd3 (mc_hs ck3) m3 from hs1 = (Inr (ServerComplete out_s), hs2)"
    using x(3) by (auto split: prod.splits)
  let ?m1 = "m\<lparr>mg_hs := hs1\<rparr>" and ?m1' = "m\<lparr>mg_hs := hs2\<rparr>"
  obtain m2 where m2: "on_handshake_complete P order3 (mc_created ck3) (mc_now ck3) out_s from ?m1' = (Inr (ME_Established sid from), m2)"
    using free ws(1) x(6) by (simp add: on_handshake_complete_def Let_def contains_key_def)
  have two: "manager_handle_datagram P rnd3 order3 ck3 m3 from ?m1 = (Inr (ME_Established sid from), m2)"
    using handshake_fragment_result [OF h3] h3 m2 by (simp add: manager_handle_datagram_def)
  have "server_inv P hs1"
    using server.run_inv [OF manager_invD(1) [OF inv], of "map (\<lambda>(rnd, ck, l). Datagram rnd ck (ch_m1_frags h0 ! l) from) (map to_machine ds @ [(rnd, mc_hs ck, i)])"]
      x(1) by simp
  then have "server_inv P hs2" using server_handle_inv [of P hs1 rnd3 "mc_hs ck3" m3 "from"] h3 by simp
  then have inv': "manager_inv P ?m1'" using inv by simp
  have look: "map_of (mg_sessions m2) sid = Some \<lparr>se_session = ws, se_peer = from, se_last_activity = mc_now ck3, se_established_at = mc_now ck3\<rparr>"
    using complete_insertion(2) [OF inv' m2] ws(1) by auto
  have "mg_fail_gate m2 = mg_fail_gate m" "mg_limits m2 = mg_limits m"
    using m2 by (auto simp: on_handshake_complete_def session_put_def session_drop_def Let_def split: if_splits sum.splits option.splits)
  moreover have "mg_hs m2 = hs2"
    using m2 by (auto simp: on_handshake_complete_def session_put_def session_drop_def Let_def split: if_splits sum.splits option.splits)
  moreover have "sv_cfg hs1 = sv_cfg (mg_hs m) \<and> handshakes hs1 \<le> handshakes (mg_hs m) + Suc (length ds)"
    using datagrams_frame [OF _ x(1)] by (simp add: case_prod_beta)
  then have "sv_cfg hs2 = sv_cfg (mg_hs m)" "handshakes hs2 \<le> handshakes (mg_hs m) + length ds + 2"
    using server_datagram_frame [of P rnd3 "mc_hs ck3" m3 "from" hs1] h3 by simp_all
  ultimately show thesis
    by (intro that [OF _ x(2) two x(5,7) wc(1) look _ _ _ _ x(8) x(9)]) (use one c wc(2) ws(2) in simp_all)
qed

lemma established_via_handshake:
  assumes inv: "manager_inv P m"
    and h: "manager_handle_datagram P rnd order ck pkt from m = (Inr (ME_Established sid peer), m1)"
  obtains outcome hs where "server_inv P hs"
    "on_handshake_complete P order (mc_created ck) (mc_now ck) outcome from (m\<lparr>mg_hs := hs\<rparr>) = (Inr (ME_Established sid peer), m1)"
proof (cases "is_handshake_fragment pkt")
  case False
  then have d: "on_data_packet P (mc_now ck) pkt from m = (Inr (ME_Established sid peer), m1)"
    using h by (simp add: manager_handle_datagram_def)
  have ctl: "fst (on_control_message P s i m') \<noteq> Inr (ME_Established sid peer)" for s i m'
    by (cases "map_of (mg_sessions m') s")
      (auto simp: on_control_message_def Let_def case_prod_beta split: sum.split SessionError.split)
  show thesis
    using inv
  proof (cases rule: on_data_cases [of P m "mc_now ck" pkt "from"])
    case (control e inner s1)
    then show thesis using d ctl [of "packet_sid pkt" inner] by (metis fst_conv)
  qed (use d in \<open>auto split: if_splits\<close>)
next
  case True
  obtain res hs where s: "server_handle_datagram P rnd (mc_hs ck) pkt from (mg_hs m) = (res, hs)" by fastforce
  have "server_inv P hs" using server_handle_inv [OF manager_invD(1) [OF inv], of rnd "mc_hs ck" pkt "from"] s by simp
  then show thesis
    using that h s True by (auto simp: manager_handle_datagram_def Let_def split: sum.splits ServerEvent.splits)
qed

section \<open>Packets that do not authenticate\<close>



lemma gate_frame [simp]:
  "mg_fail_gate (session_put sid e m) = mg_fail_gate m" "mg_fail_gate (session_drop sid m) = mg_fail_gate m"
  by (simp_all add: session_put_def session_drop_def)

lemma gate_control [simp]: "mg_fail_gate (snd (on_control_message P sid inner m)) = mg_fail_gate m"
proof (cases "ip_payload inner ! 0 = CONTROL_PROBE \<and> (\<exists>e. map_of (mg_sessions m) sid = Some e)")
  case True
  then obtain e where e: "map_of (mg_sessions m) sid = Some e" by blast
  obtain res s1 where w: "wire_encrypt P Handshake (control_payload CONTROL_ACK) (se_session e) = (res, s1)" by fastforce
  show ?thesis
    by (rule emit_cases [of res "session_put sid (e\<lparr>se_session := s1\<rparr>) m" sid "se_peer e"])
      (use True e w in \<open>simp_all add: on_control_message_def Let_def\<close>)
qed (auto simp: on_control_message_def split: option.splits)


lemma gate_complete [simp]: "mg_fail_gate (snd (on_handshake_complete P order created now outcome from m)) = mg_fail_gate m"
  by (simp add: on_handshake_complete_def Let_def split: option.split sum.split)


section \<open>A concrete manager with a session\<close>

definition demo_server_cfg :: ServerConfig where
  "demo_server_cfg = server_config_new (replicate 32 4) [mldsa_vk_of demo (replicate 32 3)]"

definition demo_manager_clock :: ManagerClock where
  "demo_manager_clock = \<lparr>mc_hs = demo_clock, mc_created = 5, mc_now = 5\<rparr>"

definition demo_deliveries :: "delivery list" where
  "demo_deliveries = map (\<lambda>(rnd, ck, l). (rnd, [], demo_manager_clock, l)) demo_m1_order"

lemma demo_deliveries_machine: "map to_machine demo_deliveries = demo_m1_order"
  by (simp add: demo_deliveries_def demo_m1_order_def demo_manager_clock_def)

lemma demo_fresh_limits:
  assumes "session_limits_validate l = Inr ()"
  obtains m0 where "manager_new 0 0 demo_server_cfg l = Inr m0" "mg_hs m0 = demo_server"
    "mg_sessions m0 = []" "mg_limits m0 = l" "mg_pending_closed m0 = []" "mg_fail_gate m0 = fail_gate_new 0"
proof -
  have "server_config_validate demo_server_cfg = Inr ()"
    by (simp add: server_config_validate_def demo_server_cfg_def server_config_new_def with_roster_limit_def
        DEFAULT_MAX_ROSTER_SIZE_def Let_def)
  moreover have "server_new 0 demo_server_cfg = demo_server" by (simp add: demo_server_def demo_server_cfg_def)
  ultimately show thesis using that assms by (simp add: manager_new_def)
qed

lemma demo_limits_valid: "session_limits_validate (session_limits_default\<lparr>sl_max_sessions := n\<rparr>) = Inr ()"
  by (simp add: session_limits_validate_def session_limits_default_def from_secs_def from_millis_def)

lemma demo_limits_64: "session_limits_default\<lparr>sl_max_sessions := 64\<rparr> = session_limits_default"
  by (simp add: session_limits_default_def)

lemma demo_fresh_manager:
  obtains m0 where "manager_new 0 0 demo_server_cfg session_limits_default = Inr m0" "mg_hs m0 = demo_server"
    "mg_sessions m0 = []" "mg_limits m0 = session_limits_default" "mg_pending_closed m0 = []" "mg_fail_gate m0 = fail_gate_new 0"
  by (rule demo_fresh_limits [OF demo_limits_valid [of 64, unfolded demo_limits_64]])

text \<open>The example client connects to a manager with the example configuration.\<close>

lemma demo_handshake:
  assumes r: "manager_reachable demo m" and cfg: "sv_cfg (mg_hs m) = sv_cfg demo_server" and sid: "length sid = 8"
    and adm: "can_admit sid from (mg_hs m)" and free: "map_of (mg_sessions m) sid = None"
  obtains m1 m3 m2 ws where "manager_reachable demo m1" "manager_reachable demo m2"
    "manager_handle_datagram demo demo_draws [] demo_manager_clock m3 from m1 = (Inr (ME_Established sid from), m2)"
    "map_of (mg_sessions m2) sid = Some \<lparr>se_session = ws, se_peer = from, se_last_activity = 5, se_established_at = 5\<rparr>"
    "mg_limits m2 = mg_limits m" "mg_fail_gate m2 = mg_fail_gate m" "sv_cfg (mg_hs m2) = sv_cfg demo_server"
    "mg_sessions m1 = mg_sessions m" "mg_limits m1 = mg_limits m" "handshakes (mg_hs m2) \<le> handshakes (mg_hs m) + 6"
proof -
  have cr: "client_ready demo demo_client_cfg sid (replicate 64 1) (replicate 32 2)"
    using demo_client_ready sid by (simp add: client_ready_def)
  obtain h0 where h0: "client_new demo (replicate 64 1) (replicate 32 2) None demo_client_cfg sid = Inr h0"
    using client_new_ok [OF cr] by metis
  have r3: "length (replicate 32 (9 :: byte)) = 32" by simp
  have sched: "m1_schedule 0 (mg_hs m) (map to_machine demo_deliveries) 3"
    using demo_schedules(1) by (simp add: demo_deliveries_machine m1_schedule_def live_cfg [OF cfg])
  have lv: "live 0 (mg_hs m) (mc_hs demo_manager_clock)"
    using demo_server_ready(6) by (simp add: live_cfg [OF cfg] demo_manager_clock_def)
  note rdy = demo_server_ready(2,4,5) [folded cfg]
  obtain m2s m1 m3 m2 ws where x:
    "run (manager_step demo) (map (\<lambda>(rnd, order, ck, l). MDatagram rnd order ck (ch_m1_frags h0 ! l) from)
       (demo_deliveries @ [(demo_draws, [], demo_manager_clock, 3)])) m =
       (replicate (length demo_deliveries) (Inr [ME_None]) @ [Inr [ME_Send m2s from]], m1)"
    "manager_handle_datagram demo demo_draws [] demo_manager_clock m3 from m1 = (Inr (ME_Established sid from), m2)"
    "map_of (mg_sessions m2) sid = Some \<lparr>se_session = ws, se_peer = from,
       se_last_activity = mc_now demo_manager_clock, se_established_at = mc_now demo_manager_clock\<rparr>"
    "mg_fail_gate m2 = mg_fail_gate m" "mg_limits m2 = mg_limits m" "mg_sessions m1 = mg_sessions m" "mg_limits m1 = mg_limits m"
    "sv_cfg (mg_hs m2) = sv_cfg (mg_hs m)" "handshakes (mg_hs m2) \<le> handshakes (mg_hs m) + length demo_deliveries + 2"
    by (rule manager_handshake [OF demo_hkdf demo_hash reachable_inv [OF r] cr rdy(1) r3 rdy(2,3) h0
          adm free sched demo_schedules(2) lv lv])
  have r1: "manager_reachable demo m1" using reachable_run [OF r] x(1) by (metis snd_conv)
  moreover have "manager_reachable demo m2"
    using manager_reachable.step [OF r1, of "MDatagram demo_draws [] demo_manager_clock m3 from"] x(2) by simp
  moreover have "length demo_deliveries = 4" by (simp add: demo_deliveries_def demo_m1_order_def)
  ultimately show thesis using that x cfg by (simp add: demo_manager_clock_def)
qed

lemma demo_session:
  fixes n
  defines "l \<equiv> session_limits_default\<lparr>sl_max_sessions := n\<rparr>"
  obtains m1 m3 m ws where "manager_reachable demo m1" "manager_reachable demo m"
    "manager_handle_datagram demo demo_draws [] demo_manager_clock m3 demo_addr m1 = (Inr (ME_Established (replicate 8 5) demo_addr), m)"
    "map_of (mg_sessions m) (replicate 8 5) =
       Some \<lparr>se_session = ws, se_peer = demo_addr, se_last_activity = 5, se_established_at = 5\<rparr>"
    "mg_limits m = l" "mg_fail_gate m = fail_gate_new 0" "sv_cfg (mg_hs m) = sv_cfg demo_server" "handshakes (mg_hs m) \<le> 6"
proof -
  obtain m0 where m0: "manager_new 0 0 demo_server_cfg l = Inr m0" "mg_hs m0 = demo_server"
    "mg_sessions m0 = []" "mg_limits m0 = l" "mg_fail_gate m0 = fail_gate_new 0"
    using demo_fresh_limits demo_limits_valid unfolding l_def by metis
  have pre: "sv_cfg (mg_hs m0) = sv_cfg demo_server" "length (replicate 8 (5 :: byte)) = 8"
    "can_admit (replicate 8 5) demo_addr (mg_hs m0)" "map_of (mg_sessions m0) (replicate 8 5) = None"
    using m0 demo_server_ready(3) by simp_all
  have none: "handshakes (mg_hs m0) = 0" by (simp add: m0(2) demo_server_def server_new_def Let_def)
  show thesis
    by (rule demo_handshake [OF manager_reachable.fresh [OF m0(1)] pre], rule that) (simp_all add: m0(4,5) none)
qed

text \<open>Few enough values are taken that another one is free.\<close>

lemma free_value:
  fixes f :: "'a::len word \<Rightarrow> 'b"
  assumes "inj f" "finite S" "card S < 2 ^ LENGTH('a)"
  shows "\<exists>x. f x \<notin> S"
proof (rule ccontr)
  assume "\<nexists>x. f x \<notin> S"
  then have "card (range f) \<le> card S" using assms(2) by (intro card_mono) auto
  then show False using assms(1,3) by (simp add: card_image card_word)
qed

text \<open>A second session arrives at a manager that holds one and may hold no more.\<close>

lemma demo_full:
  obtains m m3 sid "from" m1 ws where "manager_reachable demo m" "length (mg_sessions m) = 1" "mg_limits m = session_limits_default\<lparr>sl_max_sessions := 1\<rparr>"
    "map_of (mg_sessions m) (replicate 8 5) =
       Some \<lparr>se_session = ws, se_peer = demo_addr, se_last_activity = 5, se_established_at = 5\<rparr>" "sid \<noteq> replicate 8 5"
    "manager_handle_datagram demo demo_draws [] demo_manager_clock m3 from m = (Inr (ME_Established sid from), m1)"
proof -
  obtain m ws where m: "manager_reachable demo m"
    "map_of (mg_sessions m) (replicate 8 5) =
       Some \<lparr>se_session = ws, se_peer = demo_addr, se_last_activity = 5, se_established_at = 5\<rparr>"
    "mg_limits m = session_limits_default\<lparr>sl_max_sessions := 1\<rparr>" "sv_cfg (mg_hs m) = sv_cfg demo_server" "handshakes (mg_hs m) \<le> 6"
    by (rule demo_session)
  have inv: "manager_inv demo m" by (rule reachable_inv [OF m(1)])
  have one: "length (mg_sessions m) = 1"
    using manager_invD(4) [OF inv] m(2,3) by (cases "mg_sessions m") auto
  note sinv = manager_invD(1) [OF inv]
  let ?taken = "insert (replicate 8 5) (dom (map_of (sv_pending (mg_hs m))))"
  have "card ?taken \<le> 7" using m(5) by (simp add: card_insert_if finite_dom_map_of)
  then have "\<exists>b :: byte. replicate 8 b \<notin> ?taken" by (intro free_value) (auto simp: inj_on_def finite_dom_map_of)
  then obtain b :: byte where b: "replicate 8 b \<notin> ?taken" ..
  let ?known = "dom (map_of (sv_rate_buckets (mg_hs m)))"
  have "card ?known \<le> length (sv_rate_buckets (mg_hs m))" by (metis card_length dom_map_of_conv_image_fst length_map set_map)
  then have "card ?known \<le> 4096" using sinv by (simp add: server_inv_def rate_inv_def MAX_RATE_BUCKETS_def)
  then have "\<exists>p :: u16. SocketAddrV4 [10, 0, 0, 9] p \<notin> ?known" by (intro free_value) (auto simp: inj_on_def finite_dom_map_of)
  then obtain p :: u16 where p: "SocketAddrV4 [10, 0, 0, 9] p \<notin> ?known" ..
  have "length (sv_pending (mg_hs m)) = handshakes (mg_hs m)"
    using pending_invD(1) [OF server_inv_pending [OF sinv]]
    by (metis table_ok_def distinct_card dom_map_of_conv_image_fst length_map set_map)
  moreover have "scf_max_pending (sv_cfg demo_server) = 64"
    unfolding Handshake_Agreement.demo_server_cfg by (simp add: server_config_new_def with_roster_limit_def DEFAULT_MAX_ROSTER_SIZE_def Let_def)
  ultimately have adm: "can_admit (replicate 8 b) (SocketAddrV4 [10, 0, 0, 9] p) (mg_hs m)"
    using b p m(4,5) demo_server_ready(3) by (auto simp: can_admit_def allowance_def domIff)
  have free: "map_of (mg_sessions m) (replicate 8 b) = None"
  proof (rule ccontr)
    assume "map_of (mg_sessions m) (replicate 8 b) \<noteq> None"
    then show False using one m(2) b by (cases "mg_sessions m") (auto split: if_splits)
  qed
  obtain m1 m3 m2 where h: "manager_reachable demo m1" "mg_sessions m1 = mg_sessions m" "mg_limits m1 = mg_limits m"
    "manager_handle_datagram demo demo_draws [] demo_manager_clock m3 (SocketAddrV4 [10, 0, 0, 9] p) m1 =
       (Inr (ME_Established (replicate 8 b) (SocketAddrV4 [10, 0, 0, 9] p)), m2)"
    by (rule demo_handshake [OF m(1,4) _ adm free]) simp_all
  show thesis by (rule that [OF h(1) _ _ _ _ h(4)]) (use h(2,3) one m(2,3) b in auto)
qed

lemma demo_manager:
  obtains m1 m3 m ws where "manager_reachable demo m1" "manager_reachable demo m"
    "manager_handle_datagram demo demo_draws [] demo_manager_clock m3 demo_addr m1 = (Inr (ME_Established (replicate 8 5) demo_addr), m)"
    "map_of (mg_sessions m) (replicate 8 5) =
       Some \<lparr>se_session = ws, se_peer = demo_addr, se_last_activity = 5, se_established_at = 5\<rparr>"
    "mg_limits m = session_limits_default" "mg_fail_gate m = fail_gate_new 0" "server_ready demo (sv_cfg (mg_hs m)) demo_draws"
  by (rule demo_session [of 64, unfolded demo_limits_64]) (use demo_server_ready(2) in simp)


section \<open>Properties\<close>

text \<open>C27: whatever datagrams, application writes, cover ticks, closes and roster swaps a server manager
  sees, its memory stays bounded by its limits: at most \<open>max_sessions\<close> sessions (one when that is 0), at
  most \<open>max_pending\<close> handshakes, at most \<open>max_fail_buckets\<close> failure buckets whose eviction queue
  names each of them once; every session it holds is an established server session under its own id, and
  every pending close has at most two retransmissions left.\<close>

theorem server_manager_bounded:
  assumes "manager_new now_hs now cfg limits = Inr m0"
  shows "let m = snd (run (manager_step P) is m0) in
     length (mg_sessions m) \<le> max 1 (sl_max_sessions limits) \<and>
     length (sv_pending (mg_hs m)) \<le> scf_max_pending cfg \<and>
     length (fg_buckets (mg_fail_gate m)) \<le> sl_max_fail_buckets limits \<and>
     synced (fg_buckets (mg_fail_gate m)) (fg_order (mg_fail_gate m)) \<and>
     (\<forall>sid e. map_of (mg_sessions m) sid = Some e \<longrightarrow> ws_state (se_session e) = Established \<and>
        ws_role (se_session e) = Server \<and> ws_session_id (se_session e) = sid \<and> length sid = 8) \<and>
     (\<forall>pc \<in> set (mg_pending_closes m). unat (pc_attempts_left pc) \<le> 2)"
proof -
  let ?m = "snd (run (manager_step P) is m0)"
  have inv0: "manager_inv P m0" by (rule manager_new_inv [OF assms])
  have inv: "manager_inv P ?m" by (rule manager.run_inv [OF inv0])
  have "fixed ?m = (limits, scf_max_pending cfg, scf_version cfg, scf_identity cfg)"
    unfolding fixed_run [OF inv0] using assms
    by (auto simp: manager_new_def fixed_def server_new_def Let_def split: sum.splits HandshakeV2Error.splits)
  then have fx: "mg_limits ?m = limits" "scf_max_pending (sv_cfg (mg_hs ?m)) = scf_max_pending cfg" by (simp_all add: fixed_def Let_def)
  have "gate_inv limits (mg_fail_gate ?m)" using manager_invD(2) [OF inv] fx by simp
  moreover have "ws_state (se_session e) = Established \<and> ws_role (se_session e) = Server \<and> ws_session_id (se_session e) = sid \<and>
      length sid = 8" if "map_of (mg_sessions ?m) sid = Some e" for sid e
    using held [OF inv that] by (auto simp: session_ok_def wire_inv_def cipher_wf_def SESSION_ID_LEN_def)
  moreover have "unat (pc_attempts_left pc) \<le> 2" if "pc \<in> set (mg_pending_closes ?m)" for pc
    using manager_invD(6) [OF inv that] by (simp add: close_ok_def)
  ultimately show ?thesis
    using manager_invD(4) [OF inv] pending_invD(2) [OF server_inv_pending [OF manager_invD(1) [OF inv]]] fx
    by (simp add: Let_def gate_inv_def)
qed

theorem server_manager_bounded_witness:
  "\<exists>m0. manager_new 0 0 demo_server_cfg session_limits_default = Inr m0 \<and>
     length (mg_sessions (snd (run (manager_step demo) [MTick [] 7, MApp (replicate 8 5) [1]] m0))) \<le> 64"
proof -
  obtain m0 where m0: "manager_new 0 0 demo_server_cfg session_limits_default = Inr m0" by (rule demo_fresh_manager)
  show ?thesis
    using m0 server_manager_bounded [OF m0, of demo "[MTick [] 7, MApp (replicate 8 5) [1]]"]
    by (simp add: Let_def session_limits_default_def)
qed



text \<open>C31: with an AEAD that encrypts what it is given, the data path of a server manager fails only on
  misuse: handling a datagram that is not a handshake fragment never returns an error, and an outbound
  payload is refused exactly when it has the wrong length or names no session.\<close>

theorem manager_errors_exact:
  assumes "manager_reachable P m" "aead_correct P"
  shows "(\<not> is_handshake_fragment pkt \<longrightarrow> (\<exists>ev. fst (manager_handle_datagram P rnd order ck pkt from m) = Inr ev)) \<and>
    (fst (app_outbound P sid payload m) = Inl e \<longleftrightarrow>
       PAYLOAD_LEN < length payload \<and> e = MgrSession (SE_Codec (WrongLength ''payload'' PAYLOAD_LEN (length payload))) \<or>
       length payload \<le> PAYLOAD_LEN \<and> \<not> contains_key sid (mg_sessions m) \<and> e = NoSession) \<and>
    (fst (tun_outbound P sid payload m) = Inl e \<longleftrightarrow>
       length payload \<noteq> PAYLOAD_LEN \<and> e = MgrSession (SE_Codec (WrongLength ''payload'' PAYLOAD_LEN (length payload))) \<or>
       length payload = PAYLOAD_LEN \<and> \<not> contains_key sid (mg_sessions m) \<and> e = NoSession)"
proof -
  have inv: "manager_inv P m" by (rule reachable_inv [OF assms(1)])
  have send: "fst (send_encrypted P sid mt pl m) = Inl e \<longleftrightarrow> \<not> contains_key sid (mg_sessions m) \<and> e = NoSession"
    if "length pl = PAYLOAD_LEN" for mt pl
  proof (cases "map_of (mg_sessions m) sid")
    case None
    then show ?thesis by (auto simp: send_encrypted_def contains_key_def)
  next
    case (Some ent)
    then show ?thesis using send_encrypted_total [OF inv assms(2) that Some, of mt] by (auto simp: contains_key_def)
  qed
  have len: "length (copy_at 0 payload (replicate PAYLOAD_LEN 0)) = PAYLOAD_LEN" if "length payload \<le> PAYLOAD_LEN"
    using that by (simp add: copy_at_def)
  show ?thesis
    using on_data_total [OF inv assms(2)] send [OF len]
    by (auto simp: manager_handle_datagram_def app_outbound_def tun_outbound_def)
qed

theorem manager_errors_exact_witness:
  "\<exists>m. manager_reachable demo m \<and>
     fst (app_outbound demo (replicate 8 5) (replicate 2000 1) m) =
       Inl (MgrSession (SE_Codec (WrongLength ''payload'' PAYLOAD_LEN 2000))) \<and>
     fst (app_outbound demo (replicate 8 5) [1, 2] m) \<noteq> Inl NoSession"
proof -
  obtain m ws where m: "manager_reachable demo m"
    "map_of (mg_sessions m) (replicate 8 5) =
       Some \<lparr>se_session = ws, se_peer = demo_addr, se_last_activity = 5, se_established_at = 5\<rparr>"
    by (rule demo_manager)
  show ?thesis
    using m manager_errors_exact [OF m(1) demo_aead, where sid = "replicate 8 5" and payload = "replicate 2000 1"]
      manager_errors_exact [OF m(1) demo_aead, where sid = "replicate 8 5" and payload = "[1, 2]" and e = NoSession]
    by (intro exI [of _ m]) (simp add: contains_key_def layout_simps)
qed

text \<open>C29: a tick closes exactly the sessions that are past their lifetime cap, counted from their
  establishment, or without activity for the idle timeout. It reports each of them, with the lifetime cap
  as the reason whenever that one has passed, reports every close still to be reported exactly then,
  and leaves every other session untouched.\<close>

theorem tick_closes_expired:
  assumes "manager_reachable P m"
  shows "let (out, m1) = manager_tick P order now m;
       outlived = (\<lambda>e. \<exists>cap. sl_lifetime_cap (mg_limits m) = Some cap \<and> cap \<le> now - se_established_at e);
       idled = (\<lambda>e. \<exists>t. sl_idle_timeout (mg_limits m) = Some t \<and> t \<le> now - se_last_activity e) in
     map_of (mg_sessions m1) sid = (case map_of (mg_sessions m) sid of None \<Rightarrow> None
        | Some e \<Rightarrow> if outlived e \<or> idled e then None else Some e) \<and>
     (ME_Closed sid reason \<in> set out \<longleftrightarrow>
        (\<exists>e. map_of (mg_sessions m) sid = Some e \<and>
           (outlived e \<and> reason = CR_LifetimeCap \<or> \<not> outlived e \<and> idled e \<and> reason = CR_IdleTimeout)) \<or>
        ME_Closed sid reason \<in> set (mg_pending_closed m)) \<and>
     mg_pending_closed m1 = []"
proof -
  note t = manager_tick_effect [OF reachable_inv [OF assms], where order = order and now = now, unfolded expired_reason_iff]
  show ?thesis
    using t(1) [of sid] t(2) [of sid reason] t(3)
    by (simp add: case_prod_beta Let_def outlived_def [symmetric] idled_def [symmetric] split: option.split)
qed

theorem tick_closes_expired_witness:
  "\<exists>m. manager_reachable demo m \<and> contains_key (replicate 8 5) (mg_sessions m) \<and>
     (let (out, m1) = manager_tick demo [] (from_secs 400) m in
        ME_Closed (replicate 8 5) CR_IdleTimeout \<in> set out \<and> map_of (mg_sessions m1) (replicate 8 5) = None)"
proof -
  obtain m ws where m: "manager_reachable demo m"
    "map_of (mg_sessions m) (replicate 8 5) =
       Some \<lparr>se_session = ws, se_peer = demo_addr, se_last_activity = 5, se_established_at = 5\<rparr>"
    "mg_limits m = session_limits_default"
    by (rule demo_manager)
  show ?thesis
    using m tick_closes_expired [OF m(1), of "[]" "from_secs 400" "replicate 8 5" CR_IdleTimeout]
    by (intro exI [of _ m]) (auto simp: contains_key_def session_limits_default_def from_secs_def Let_def)
qed

text \<open>C23: a completed handshake never replaces a live session: when the manager reports a session
  established, its id was free and the new entry is bound to the source address. A table with room keeps
  every other session as it was and queues no close. A full table loses exactly one other session, a least
  recently active one, keeps the rest as they were, and queues exactly that close for the next tick.\<close>

theorem established_never_replaces:
  assumes "manager_reachable P m"
    and "manager_handle_datagram P rnd order ck pkt from m = (Inr (ME_Established sid peer), m1)"
  shows "map_of (mg_sessions m) sid = None \<and> peer = from \<and>
    (\<exists>e. map_of (mg_sessions m1) sid = Some e \<and> se_peer e = from \<and> se_last_activity e = mc_now ck \<and> se_established_at e = mc_now ck) \<and>
    (if mg_sessions m \<noteq> [] \<and> sl_max_sessions (mg_limits m) \<le> length (mg_sessions m)
     then \<exists>stale e. map_of (mg_sessions m) stale = Some e \<and>
       (\<forall>sid' e'. map_of (mg_sessions m) sid' = Some e' \<longrightarrow> se_last_activity e \<le> se_last_activity e') \<and>
       (\<forall>sid'. sid' \<noteq> sid \<longrightarrow> map_of (mg_sessions m1) sid' = (if sid' = stale then None else map_of (mg_sessions m) sid')) \<and>
       mg_pending_closed m1 = mg_pending_closed m @ [ME_Closed stale CR_Capacity]
     else (\<forall>sid'. sid' \<noteq> sid \<longrightarrow> map_of (mg_sessions m1) sid' = map_of (mg_sessions m) sid') \<and>
       mg_pending_closed m1 = mg_pending_closed m)"
proof -
  have inv: "manager_inv P m" by (rule reachable_inv [OF assms(1)])
  obtain outcome hs where h: "server_inv P hs"
    "on_handshake_complete P order (mc_created ck) (mc_now ck) outcome from (m\<lparr>mg_hs := hs\<rparr>) = (Inr (ME_Established sid peer), m1)"
    by (rule established_via_handshake [OF inv assms(2)])
  have inv1: "manager_inv P (m\<lparr>mg_hs := hs\<rparr>)" using inv h(1) by simp
  note c = complete_insertion [OF inv1 h(2)]
  have "room_made sid m m1" using c(3) by (simp add: room_made_def cong: if_cong)
  then show ?thesis using c(1,2) unfolding room_made_def by (intro conjI) auto
qed

theorem established_never_replaces_witness:
  "\<exists>m m3 sid from m1. manager_reachable demo m \<and> contains_key (replicate 8 5) (mg_sessions m) \<and> sid \<noteq> replicate 8 5 \<and>
     manager_handle_datagram demo demo_draws [] demo_manager_clock m3 from m = (Inr (ME_Established sid from), m1) \<and>
     map_of (mg_sessions m) sid = None \<and> map_of (mg_sessions m1) (replicate 8 5) = None \<and>
     mg_pending_closed m1 = mg_pending_closed m @ [ME_Closed (replicate 8 5) CR_Capacity]"
proof -
  obtain m m3 sid "from" m1 ws where m: "manager_reachable demo m" "length (mg_sessions m) = 1"
    "mg_limits m = session_limits_default\<lparr>sl_max_sessions := 1\<rparr>"
    "map_of (mg_sessions m) (replicate 8 5) =
       Some \<lparr>se_session = ws, se_peer = demo_addr, se_last_activity = 5, se_established_at = 5\<rparr>" "sid \<noteq> replicate 8 5"
    "manager_handle_datagram demo demo_draws [] demo_manager_clock m3 from m = (Inr (ME_Established sid from), m1)"
    by (rule demo_full)
  have one: "stale = replicate 8 5" if "map_of (mg_sessions m) stale = Some e" for stale e
    using that m(2,4) by (cases "mg_sessions m") (auto split: if_splits)
  have full: "mg_sessions m \<noteq> [] \<and> sl_max_sessions (mg_limits m) \<le> length (mg_sessions m)" using m(2,3) by auto
  note t = established_never_replaces [OF m(1,6), unfolded if_P [OF full]]
  then obtain stale e where st: "map_of (mg_sessions m) stale = Some e"
    "\<forall>sid'. sid' \<noteq> sid \<longrightarrow> map_of (mg_sessions m1) sid' = (if sid' = stale then None else map_of (mg_sessions m) sid')"
    "mg_pending_closed m1 = mg_pending_closed m @ [ME_Closed stale CR_Capacity]" by blast
  have "contains_key (replicate 8 5) (mg_sessions m)" "map_of (mg_sessions m1) (replicate 8 5) = None"
    using m(4,5) st(2) one [OF st(1)] by (simp_all add: contains_key_def)
  then show ?thesis using m(1,5,6) t st(3) one [OF st(1)] by blast
qed

end
