(* ===== verification/Handshake_Total.thy ===== *)
theory Handshake_Total
  imports Handshake_Agreement
begin

text \<open>
  The handshake machines never fail on what a peer sends: with primitives that keep their promises
  every datagram is answered or dropped, whatever its bytes are. Errors come from the local side only
  (a configuration or a draw of the wrong size).
\<close>

section \<open>Derivations\<close>

lemma derivations_total:
  assumes "hkdf_correct P"
  shows "derive_master P ss_a ss_b dh v sid th \<noteq> Inl e" "derive_finished_key P master v sid \<noteq> Inl e'"
  using derive_master_ok [OF assms, of ss_a ss_b dh v sid th] derive_finished_key_ok [OF assms, of master v sid]
  by force+

section \<open>Server\<close>

lemma roster_scan_total: "\<exists>r. roster_scan P th sig pks acc = Inr r"
proof (induction pks arbitrary: acc)
  case (Cons pk pks)
  then show ?case by (cases acc) (simp add: dsa_verify_def)
qed simp

lemma complete_m1_total:
  assumes P: "primitives_ok P" and sr: "server_ready P (sv_cfg s) rnd"
  shows "\<exists>ev. fst (complete_m1 P rnd ck sid bs from s) = Inr ev"
proof (cases "\<exists>m1. client_hello_decode P bs = Inr m1 \<and> ch_sid m1 = sid")
  case False
  then show ?thesis by (cases "client_hello_decode P bs") (auto simp: complete_m1_def)
next
  case True
  then obtain m1 where dec: "client_hello_decode P bs = Inr m1" and m1: "ch_sid m1 = sid" by blast
  note S = sr [unfolded server_ready_def] and Q = P [unfolded primitives_ok_def]
  have wf: "client_hello_wf P m1" using client_hello_decode_sound [OF dec] by blast
  have sid: "length sid = 8" using wf m1 by (simp add: client_hello_wf_def layout_simps)
  obtain authed matched where r: "roster_scan P (the (th1_from_m1 P bs)) (ch_client_sig m1) (scf_roster (sv_cfg s)) (False, None) =
      Inr (authed, matched)" using roster_scan_total by (metis surj_pair)
  have ct: "length (fst (mlkem_encaps P (ch_eph_pk_c m1) (sd_encaps rnd))) = 1088"
    using Q S wf by (simp add: kem_sized_def client_hello_wf_def layout_simps)
  have k: "length (mlkem_ek_of P (sd_kem_seed rnd)) = 1184"
    using kem_correctD(1) [of P "sd_kem_seed rnd" "sd_encaps rnd"] Q S by simp
  have x: "length (x25519_pk_of P (sd_x_seed rnd)) = 32" using Q S unfolding x25519_correct_def by blast
  have d: "length (mldsa_sign P (scf_identity (sv_cfg s)) msg) = 3309" for msg using Q S unfolding dsa_correct_def by blast
  have "hs_shape HS_TYPE_SERVER_HELLO M2_FRAG_COUNT (server_hello_encode \<lparr>sh_version = v, sh_sid = sid,
      sh_eph_pk_s = mlkem_ek_of P (sd_kem_seed rnd), sh_x_s = x25519_pk_of P (sd_x_seed rnd),
      sh_ct2 = fst (mlkem_encaps P (ch_eph_pk_c m1) (sd_encaps rnd)), sh_server_sig = mldsa_sign P (scf_identity (sv_cfg s)) msg\<rparr>)"
    for v msg
    by (rule hs_shape_m2) (simp add: server_hello_encode_def encode_m2_eq sid ct k x d layout_simps)
  note fr = fragment_message_ok [OF this]
  show ?thesis
    using dec r
    by (auto simp: complete_m1_def Let_def kem_generate_def x25519_generate_def encapsulate_def dsa_sign_def case_prod_beta fr
        split: option.split)
qed

lemma on_m1_total:
  assumes P: "primitives_ok P" and inv: "server_inv P s0" and sr: "server_ready P (sv_cfg s0) rnd"
  shows "\<exists>ev. fst (on_m1_fragment P rnd ck pkt from s0) = Inr ev"
proof (cases rule: on_m1_cases [of P rnd ck pkt "from" s0])
  case (fed frag entry res asm s1)
  obtain ok s2 where r: "rate_ok (ck_rate ck) from s1 = (ok, s2)" by fastforce
  have "sv_cfg s2 = sv_cfg s0"
    using rate_ok_frame(1) [of "ck_rate ck" "from" s1] r fed(6) by (simp add: pending_insert_def evict_expired_def)
  then have "\<exists>ev. fst (complete_m1 P rnd ck (hf_sid frag) (the (assembled_message asm)) from s2) = Inr ev"
    using complete_m1_total [OF P, of s2 rnd] sr by simp
  then show ?thesis using fed(7) r by (auto split: FragmentResult.split)
next
  case (resent frag entry s1 r)
  have inv1: "server_inv P (evict_expired (ck_evict ck) s0)" by (rule evict_expired_inv [OF inv])
  have "entry_ok P (hf_sid frag) entry"
    using inv1 pending_invD(3) resent(2) unfolding server_inv_def by blast
  then have "length (the (pe_m2_cache entry)) = M2_BODY_LEN" using resent(4) by (auto simp: entry_ok_def)
  then show ?thesis using resent(7,8) fragment_message_ok [OF hs_shape_m2] by auto
qed simp_all

lemma on_m3_total:
  assumes P: "primitives_ok P"
  shows "\<exists>ev. fst (on_m3_fragment P ck pkt from s0) = Inr ev"
proof -
  have h: "hkdf_correct P" using P by (simp add: primitives_ok_def)
  show ?thesis
    unfolding on_m3_fragment_def Let_def decapsulate_def
    by (auto simp: derivations_total [OF h] split: sum.split option.split prod.split)
qed

lemma server_handle_total:
  assumes "primitives_ok P" "server_inv P s" "server_ready P (sv_cfg s) rnd"
  shows "\<exists>ev. fst (server_handle_datagram P rnd ck pkt from s) = Inr ev"
  using on_m1_total [OF assms] on_m3_total [OF assms(1)] by (simp add: server_handle_datagram_def Let_def)

section \<open>Client\<close>

lemma on_complete_m2_total:
  assumes P: "primitives_ok P" and rnd: "length rnd = 32"
  shows "\<exists>ev. fst (on_complete_m2 P rnd jit bs h) = Inr ev"
proof (cases "\<exists>m2. server_hello_decode P bs = Inr m2 \<and> sh_sid m2 = ch_session h")
  case False
  then show ?thesis by (cases "server_hello_decode P bs") (auto simp: on_complete_m2_def)
next
  case True
  then obtain m2 where dec: "server_hello_decode P bs = Inr m2" and m2: "sh_sid m2 = ch_session h" by blast
  have wf: "server_hello_wf P m2" using server_hello_decode_exact [OF dec] by blast
  have sid: "length (ch_session h) = 8" using wf m2 by (simp add: server_hello_wf_def layout_simps)
  have ct: "length (fst (mlkem_encaps P (sh_eph_pk_s m2) rnd)) = 1088"
    using P wf rnd by (simp add: primitives_ok_def kem_sized_def server_hello_wf_def layout_simps)
  have h: "hkdf_correct P" using P by (simp add: primitives_ok_def)
  have fin: "length (compute_client_finished P fk th) = 16" for fk th
    using P by (simp add: compute_client_finished_def primitives_ok_def hash_sized_def)
  have "hs_shape HS_TYPE_CLIENT_CONFIRM M3_FRAG_COUNT (client_confirm_encode \<lparr>cc_version = v, cc_sid = ch_session h,
      cc_ct3 = fst (mlkem_encaps P (sh_eph_pk_s m2) rnd), cc_client_finished = compute_client_finished P fk th\<rparr>)" for v fk th
    by (rule hs_shape_m3) (simp add: client_confirm_encode_def encode_m3_eq sid ct fin layout_simps)
  note fr = fragment_message_ok [OF this]
  show ?thesis
    unfolding on_complete_m2_def Let_def decapsulate_def encapsulate_def dsa_verify_def
    using dec by (auto simp: derivations_total [OF h] case_prod_beta fr split: sum.split option.split)
qed

lemma client_handle_total:
  assumes "primitives_ok P" "length rnd = 32"
  shows "\<exists>ev. fst (client_handle_datagram P rnd jit pkt h) = Inr ev"
  using on_complete_m2_total [OF assms]
  by (auto simp: client_handle_datagram_def Let_def case_prod_beta split: sum.split ClientState.split)

end
