(* ===== verification/Server_Driver.thy ===== *)
theory Server_Driver
  imports Transport Scheduler Server_Guarantees Handshake_Total
begin

text \<open>
  The server driver \<open>run_server_manager\<close> of \<open>session_manager.rs\<close>: the loop around the server manager
  that receives datagrams, relays application commands, ticks and emits cover traffic. An iteration is
  one arm of the \<open>select!\<close>; which arm is ready, what it received and what the clock and the random
  generator answer are the input of the iteration. The pinned cover timer is the deadline it sleeps
  until (\<open>None\<close> sleeps forever).
\<close>

section \<open>State\<close>

record ServerAppCommand =
  sac_sid :: bytes
  sac_payload :: bytes

record ServerDriver = Effects +
  sd_manager :: ServerSessionManager
  sd_cover_sched :: CoverScheduler
  sd_cover_arm :: "instant option"
  sd_reset_noticed :: bool

definition cover_sleep :: "CoverScheduler \<Rightarrow> instant option" where
  "cover_sleep sched = (case sch_next sched of Some d \<Rightarrow> Some d | None \<Rightarrow> None)"

text \<open>What one iteration reads: the draws, the table order and the clock of the manager's call, the
  clock of the driver, and the random fill of cover packets.\<close>

record ServerReadings =
  sr_draws :: ServerDraws
  sr_order :: "bytes list"
  sr_clock :: ManagerClock
  sr_now :: instant
  sr_fill :: "bytes \<Rightarrow> string + bytes"

section \<open>Arms\<close>

definition server_relay ::
  "Environment \<Rightarrow> instant \<Rightarrow> ManagerEvent \<Rightarrow> ServerDriver \<Rightarrow> (ManagerError + unit) \<times> ServerDriver" where
  "server_relay E now ev d =
     (case ev of
        ME_Send packets peer \<Rightarrow> send_packets E packets peer d
      | ME_SendPacket packet peer \<Rightarrow> send_packet E packet peer d
      | ME_Established sid peer \<Rightarrow>
          let sched = scheduler_start now (sd_cover_sched d)
          in notify_app E (MN_Established sid peer)
               (d\<lparr>sd_cover_sched := sched, sd_cover_arm := cover_sleep sched\<rparr>)
      | ME_AppData sid inner \<Rightarrow> notify_app E (MN_Data sid inner) d
      | ME_Closed sid reason \<Rightarrow> notify_app E (MN_Closed sid reason) d
      | ME_None \<Rightarrow> (Inr (), d)
      | ME_OutboundDropped _ \<Rightarrow> (Inr (), d))"

definition server_recv_arm ::
  "primitives \<Rightarrow> Environment \<Rightarrow> ServerReadings \<Rightarrow> HandshakeV2Error + (WirePacket \<times> SocketAddr) \<Rightarrow> ServerDriver \<Rightarrow>
   (ManagerError + flow) \<times> ServerDriver" where
  "server_recv_arm P E x r d =
     (case r of
        Inl HE_DatagramRejected \<Rightarrow> (Inr Continue, d)
      | Inl HE_TransportReset \<Rightarrow> (Inr Continue, d\<lparr>sd_reset_noticed := True\<rparr>)
      | Inl e \<Rightarrow> (Inl (MgrHandshake e), d)
      | Inr (pkt, from) \<Rightarrow>
          let (res, m) = manager_handle_datagram P (sr_draws x) (sr_order x) (sr_clock x) pkt from (sd_manager d)
          in and_then (res, d\<lparr>sd_manager := m, sd_reset_noticed := False\<rparr>) (\<lambda>ev d1.
               and_then (server_relay E (sr_now x) ev d1) (\<lambda>_ d2. (Inr Continue, d2))))"

text \<open>The events of the other arms: a packet is sent, a close is reported, anything else is dropped.\<close>

definition server_emit ::
  "Environment \<Rightarrow> ManagerEvent \<Rightarrow> ServerDriver \<Rightarrow> (ManagerError + unit) \<times> ServerDriver" where
  "server_emit E ev d =
     (case ev of
        ME_SendPacket packet peer \<Rightarrow> send_packet E packet peer d
      | ME_Closed sid reason \<Rightarrow> notify_app E (MN_Closed sid reason) d
      | _ \<Rightarrow> (Inr (), d))"

fun server_emit_all ::
  "Environment \<Rightarrow> ManagerEvent list \<Rightarrow> ServerDriver \<Rightarrow> (ManagerError + unit) \<times> ServerDriver" where
  "server_emit_all E [] d = (Inr (), d)"
| "server_emit_all E (ev # evs) d = and_then (server_emit E ev d) (\<lambda>_. server_emit_all E evs)"

definition server_app_arm ::
  "primitives \<Rightarrow> Environment \<Rightarrow> ServerAppCommand option \<Rightarrow> ServerDriver \<Rightarrow> (ManagerError + flow) \<times> ServerDriver" where
  "server_app_arm P E cmd d =
     (case cmd of
        None \<Rightarrow> (Inr Finished, d)
      | Some cmd \<Rightarrow>
          let (res, m) = app_outbound P (sac_sid cmd) (sac_payload cmd) (sd_manager d); d1 = d\<lparr>sd_manager := m\<rparr>
          in (case res of
                Inr ev \<Rightarrow> and_then (server_emit E ev d1) (\<lambda>_ d2. (Inr Continue, d2))
              | Inl NoSession \<Rightarrow> (Inr Continue, d1)
              | Inl (MgrSession (SE_Codec (WrongLength _ _ _))) \<Rightarrow> (Inr Continue, d1)
              | Inl e \<Rightarrow> (Inl e, d1)))"

definition server_tick_arm ::
  "primitives \<Rightarrow> Environment \<Rightarrow> ServerReadings \<Rightarrow> ServerDriver \<Rightarrow> (ManagerError + flow) \<times> ServerDriver" where
  "server_tick_arm P E x d =
     (let (evs, m) = manager_tick P (sr_order x) (sr_now x) (sd_manager d)
      in and_then (server_emit_all E evs (d\<lparr>sd_manager := m\<rparr>)) (\<lambda>_ d1. (Inr Continue, d1)))"

definition server_cover_arm ::
  "primitives \<Rightarrow> Environment \<Rightarrow> ServerReadings \<Rightarrow> ServerDriver \<Rightarrow> (ManagerError + flow) \<times> ServerDriver" where
  "server_cover_arm P E x d =
     (let (due, sched) = on_deadline (sr_now x) (sd_cover_sched d); d1 = d\<lparr>sd_cover_sched := sched\<rparr>
      in and_then
           (if due then
              let (res, m) = cover_packet_all P (sr_fill x) (sd_manager d1)
              in and_then (res, d1\<lparr>sd_manager := m\<rparr>) (\<lambda>evs d2.
                   and_then (server_emit_all E evs d2) (\<lambda>_ d3.
                     (Inr (),
                      if length (mg_sessions (sd_manager d3)) = 0
                      then d3\<lparr>sd_cover_sched := scheduler_stop (sd_cover_sched d3)\<rparr> else d3)))
            else (Inr (), d1))
           (\<lambda>_ d4. (Inr Continue, d4\<lparr>sd_cover_arm := cover_sleep (sd_cover_sched d4)\<rparr>)))"

section \<open>The loop\<close>

datatype server_arm =
    ServerRecv "HandshakeV2Error + (WirePacket \<times> SocketAddr)"
  | ServerApp "ServerAppCommand option"
  | ServerTick
  | ServerCover

fun server_iteration ::
  "primitives \<Rightarrow> Environment \<Rightarrow> ServerReadings \<times> server_arm \<Rightarrow> ServerDriver \<Rightarrow> (ManagerError + flow) \<times> ServerDriver" where
  "server_iteration P E (x, ServerRecv r) d = server_recv_arm P E x r d"
| "server_iteration P E (x, ServerApp cmd) d = server_app_arm P E cmd d"
| "server_iteration P E (x, ServerTick) d = server_tick_arm P E x d"
| "server_iteration P E (x, ServerCover) d = server_cover_arm P E x d"

definition run_server_manager ::
  "primitives \<Rightarrow> Environment \<Rightarrow> ServerSessionManager \<Rightarrow> CoverPolicy \<Rightarrow> (ServerReadings \<times> server_arm) list \<Rightarrow>
   (ManagerError + flow) \<times> ServerDriver" where
  "run_server_manager P E manager cover inputs =
     (let cover_sched = scheduler_new cover
      in drive (server_iteration P E) inputs
           \<lparr>ef_log = [], sd_manager = manager, sd_cover_sched = cover_sched,
            sd_cover_arm = cover_sleep cover_sched, sd_reset_noticed = False\<rparr>)"

section \<open>The manager never fails on what a peer sends\<close>

lemma established_total:
  assumes "hkdf_correct P" "length (ho_session_id outcome) = 8"
  shows "\<exists>s. wire_established P now role outcome = Inr s"
  by (rule cipher_new_ok [OF assms, of role "ho_master outcome"]) (simp add: wire_established_def)

lemma handle_total:
  assumes P: "primitives_ok P" and inv: "manager_inv P m" and sr: "server_ready P (sv_cfg (mg_hs m)) rnd"
  shows "\<exists>ev. fst (manager_handle_datagram P rnd order ck pkt from m) = Inr ev"
proof (cases "is_handshake_fragment pkt")
  case False
  then show ?thesis
    using on_data_total [OF inv] P by (simp add: manager_handle_datagram_def primitives_ok_def)
next
  case True
  have sinv: "server_inv P (mg_hs m)" by (rule manager_invD(1) [OF inv])
  obtain ev hs where h: "server_handle_datagram P rnd (mc_hs ck) pkt from (mg_hs m) = (Inr ev, hs)"
    using server_handle_total [OF P sinv sr, of "mc_hs ck" pkt "from"] by (metis prod.collapse)
  have "\<exists>e. fst (on_handshake_complete P order created now outcome from m1) = Inr e"
    if "ev = ServerComplete outcome" for outcome created now m1
    using established_total [of P outcome created Server] complete_sid_length [OF sinv, of rnd "mc_hs ck" pkt "from" outcome hs]
      h that P by (auto simp: on_handshake_complete_def Let_def primitives_ok_def)
  then show ?thesis using True h by (cases ev) (simp_all add: manager_handle_datagram_def)
qed

lemma cover_packet_total:
  assumes inv: "manager_inv P m" and P: "aead_correct P" and sid: "contains_key sid (mg_sessions m)"
    and fill: "rnd = Inr fill" "length fill = PAYLOAD_LEN"
  shows "\<exists>ev. fst (cover_packet P rnd sid m) = Inr ev"
proof -
  obtain e where e: "map_of (mg_sessions m) sid = Some e" using sid by (auto simp: contains_key_def)
  obtain res s1 where w: "wire_encrypt P Cover fill (se_session e) = (res, s1)" by fastforce
  have "res = Inl SE_RekeyRequired \<or> (\<exists>pkt. res = Inr pkt)"
    using held_encrypt [OF held [OF inv e] P fill(2), of Cover] w by (metis fst_conv)
  from emit_total [OF this] show ?thesis using e w fill(1) by (simp add: cover_packet_def wire_cover_eq Let_def)
qed

lemma emit_others:
  assumes "sid' \<noteq> sid"
  shows "map_of (mg_sessions (snd (case res of
      Inr packet \<Rightarrow> (Inr (ME_SendPacket packet peer), m1)
    | Inl SE_RekeyRequired \<Rightarrow> (Inr (ME_Closed sid CR_NonceExhausted), session_drop sid m1)
    | Inl err \<Rightarrow> (Inl (MgrSession err), m1)))) sid' = map_of (mg_sessions m1) sid'"
  by (rule emit_cases [of res m1 sid peer]) (simp_all add: session_drop_def table_simps assms)

lemma cover_packet_others:
  assumes "sid' \<noteq> sid"
  shows "map_of (mg_sessions (snd (cover_packet P rnd sid m))) sid' = map_of (mg_sessions m) sid'"
proof (cases "map_of (mg_sessions m) sid")
  case None
  then show ?thesis by (simp add: cover_packet_def)
next
  case (Some e)
  then show ?thesis
    by (simp add: cover_packet_def Let_def case_prod_beta emit_others [OF assms])
      (simp add: session_put_def table_simps assms)
qed

lemma cover_each_total:
  assumes "manager_inv P m" "aead_correct P" "distinct sids" "\<And>sid. sid \<in> set sids \<Longrightarrow> contains_key sid (mg_sessions m)"
    and fill: "\<And>sid. \<exists>f. rnd sid = Inr f \<and> length f = PAYLOAD_LEN"
  shows "\<exists>evs. fst (cover_each P rnd sids m) = Inr evs"
  using assms(1,3,4)
proof (induction sids arbitrary: m)
  case (Cons sid sids)
  obtain f where f: "rnd sid = Inr f" "length f = PAYLOAD_LEN" using fill by blast
  obtain ev m1 where c: "cover_packet P (rnd sid) sid m = (Inr ev, m1)"
    using cover_packet_total [OF Cons.prems(1) assms(2) _ f] Cons.prems(3) by (metis list.set_intros(1) prod.collapse)
  have inv1: "manager_inv P m1" using cover_packet_inv [OF Cons.prems(1), of "rnd sid" sid] c by simp
  have "contains_key sid' (mg_sessions m1)" if "sid' \<in> set sids" for sid'
  proof -
    have "sid' \<noteq> sid" using Cons.prems(2) that by auto
    moreover have "contains_key sid' (mg_sessions m)" using Cons.prems(3) that by simp
    ultimately show ?thesis using cover_packet_others [of sid' sid P "rnd sid" m] c by (simp add: contains_key_def)
  qed
  then obtain evs where "fst (cover_each P rnd sids m1) = Inr evs" using Cons.IH [OF inv1] Cons.prems(2) by auto
  then show ?case using c by (auto split: prod.splits sum.splits)
qed simp

lemma cover_all_total:
  assumes inv: "manager_inv P m" and P: "aead_correct P" and fill: "\<And>sid. \<exists>f. rnd sid = Inr f \<and> length f = PAYLOAD_LEN"
  shows "\<exists>evs. fst (cover_packet_all P rnd m) = Inr evs"
proof -
  have "table_ok (mg_sessions m)" using inv by (simp add: manager_inv_def)
  then show ?thesis
    unfolding cover_packet_all_def
    by (intro cover_each_total [OF inv P _ _ fill]) (auto simp: table_ok_def contains_key_def)
qed

section \<open>Effects leave the manager alone\<close>

lemma effect_manager [simp]:
  "sd_manager (snd (send_packet E p peer d)) = sd_manager d"
  "sd_manager (snd (send_packets E ps peer d)) = sd_manager d"
  "sd_manager (snd (notify_app E n d)) = sd_manager d"
  using send_packet_log [of E p peer d] send_packets_log [of E ps peer d] notify_app_log [of E n d] by auto

lemma relay_manager [simp]: "sd_manager (snd (server_relay E now ev d)) = sd_manager d"
  by (simp add: server_relay_def Let_def split: ManagerEvent.split)

lemma emit_manager [simp]: "sd_manager (snd (server_emit E ev d)) = sd_manager d"
  by (simp add: server_emit_def split: ManagerEvent.split)

lemma emit_all_manager [simp]: "sd_manager (snd (server_emit_all E evs d)) = sd_manager d"
proof (induction evs arbitrary: d)
  case (Cons ev evs)
  obtain r d1 where "server_emit E ev d = (r, d1)" by fastforce
  then show ?case using Cons emit_manager [of E ev d] by (cases r) simp_all
qed simp

lemma and_then_manager:
  "(\<And>a d. sd_manager (snd (f a d)) = sd_manager d) \<Longrightarrow> sd_manager (snd (and_then r f)) = sd_manager (snd r)"
  by (cases r; cases "fst r") (auto simp: and_then_def)

text \<open>An iteration moves the manager by at most one of its operations.\<close>

lemma iteration_manager:
  "sd_manager (snd (server_iteration P E (x, arm) d)) \<in>
     insert (sd_manager d) (range (\<lambda>i. snd (manager_step P i (sd_manager d))))"
proof (cases arm)
  case (ServerRecv r)
  show ?thesis
  proof (cases r)
    case (Inl e)
    then show ?thesis using ServerRecv by (cases e) (simp_all add: server_recv_arm_def)
  next
    case (Inr pf)
    obtain pkt "from" where pf: "pf = (pkt, from)" by fastforce
    let ?h = "manager_handle_datagram P (sr_draws x) (sr_order x) (sr_clock x) pkt from (sd_manager d)"
    have "sd_manager (snd (server_iteration P E (x, arm) d)) = snd ?h"
      using ServerRecv Inr pf by (simp add: server_recv_arm_def case_prod_beta and_then_manager)
    also have "\<dots> = snd (manager_step P (MDatagram (sr_draws x) (sr_order x) (sr_clock x) pkt from) (sd_manager d))" by simp
    finally show ?thesis by blast
  qed
next
  case (ServerApp cmd)
  show ?thesis
  proof (cases cmd)
    case (Some c)
    obtain res m where a: "app_outbound P (sac_sid c) (sac_payload c) (sd_manager d) = (res, m)" by fastforce
    have "sd_manager (snd (server_app_arm P E cmd d)) = m"
      using Some a by (auto simp: server_app_arm_def and_then_manager Let_def split: sum.split ManagerError.split SessionError.split CodecError.split)
    then have "sd_manager (snd (server_iteration P E (x, arm) d)) =
        snd (manager_step P (MApp (sac_sid c) (sac_payload c)) (sd_manager d))"
      using ServerApp a by simp
    then show ?thesis by blast
  qed (use ServerApp in \<open>simp add: server_app_arm_def\<close>)
next
  case ServerTick
  have "sd_manager (snd (server_iteration P E (x, arm) d)) =
      snd (manager_step P (MTick (sr_order x) (sr_now x)) (sd_manager d))"
    using ServerTick by (simp add: server_tick_arm_def case_prod_beta and_then_manager Let_def)
  then show ?thesis by blast
next
  case ServerCover
  obtain due sched where s: "on_deadline (sr_now x) (sd_cover_sched d) = (due, sched)" by fastforce
  show ?thesis
  proof (cases due)
    case True
    have "sd_manager (snd (server_iteration P E (x, arm) d)) = snd (manager_step P (MCoverAll (sr_fill x)) (sd_manager d))"
      using ServerCover s True by (simp add: server_cover_arm_def case_prod_beta and_then_manager)
    then show ?thesis by blast
  qed (use ServerCover s in \<open>simp add: server_cover_arm_def\<close>)
qed

lemma iteration_inv:
  assumes "manager_inv P (sd_manager d)"
  shows "manager_inv P (sd_manager (snd (server_iteration P E i d)))"
    "fixed (sd_manager (snd (server_iteration P E i d))) = fixed (sd_manager d)"
  using iteration_manager [of P E "fst i" "snd i" d] manager_step_inv [OF assms] fixed_step [OF assms] assms by auto

section \<open>Survival\<close>

text \<open>An input the server should survive: usable draws, no fatal receive error, and an application that
  has not hung up.\<close>

definition survivable :: "primitives \<Rightarrow> ServerConfig \<Rightarrow> ServerReadings \<times> server_arm \<Rightarrow> bool" where
  "survivable P cfg i =
     (server_ready P cfg (sr_draws (fst i)) \<and> (\<forall>sid. \<exists>f. sr_fill (fst i) sid = Inr f \<and> length f = PAYLOAD_LEN) \<and>
      (case snd i of
         ServerRecv r \<Rightarrow> (case r of Inl e \<Rightarrow> e = HE_DatagramRejected \<or> e = HE_TransportReset | Inr _ \<Rightarrow> True)
       | ServerApp cmd \<Rightarrow> cmd \<noteq> None
       | _ \<Rightarrow> True))"

lemma working_relay [simp]: "working E \<Longrightarrow> fst (server_relay E now ev d) = Inr ()"
  by (simp add: server_relay_def Let_def split: ManagerEvent.split)

lemma working_emit [simp]: "working E \<Longrightarrow> fst (server_emit E ev d) = Inr ()"
  by (simp add: server_emit_def split: ManagerEvent.split)

lemma working_emit_all [simp]: "working E \<Longrightarrow> fst (server_emit_all E evs d) = Inr ()"
proof (induction evs arbitrary: d)
  case (Cons ev evs)
  obtain r d1 where e: "server_emit E ev d = (r, d1)" by fastforce
  then show ?case using Cons working_emit [OF Cons.prems, of ev d] by simp
qed simp

lemma and_then_total: "fst r = Inr a \<Longrightarrow> fst (and_then r f) = fst (f a (snd r))"
  by (cases r) simp

lemma iteration_survives:
  assumes P: "primitives_ok P" and E: "working E" and inv: "manager_inv P (sd_manager d)"
    and i: "survivable P (sv_cfg (mg_hs (sd_manager d))) (x, arm)"
  shows "fst (server_iteration P E (x, arm) d) = Inr Continue"
proof -
  have sr: "server_ready P (sv_cfg (mg_hs (sd_manager d))) (sr_draws x)"
    and fill: "\<And>sid. \<exists>f. sr_fill x sid = Inr f \<and> length f = PAYLOAD_LEN" and aead: "aead_correct P"
    using i P by (simp_all add: survivable_def primitives_ok_def)
  show ?thesis
  proof (cases arm)
    case (ServerRecv r)
    show ?thesis
    proof (cases r)
      case (Inl e)
      then show ?thesis using ServerRecv i by (auto simp: server_recv_arm_def survivable_def)
    next
      case (Inr pf)
      obtain pkt "from" where pf: "pf = (pkt, from)" by fastforce
      obtain ev where "fst (manager_handle_datagram P (sr_draws x) (sr_order x) (sr_clock x) pkt from (sd_manager d)) = Inr ev"
        using handle_total [OF P inv sr] by blast
      then show ?thesis using ServerRecv Inr pf E by (simp add: server_recv_arm_def case_prod_beta and_then_total)
    qed
  next
    case (ServerApp cmd)
    then obtain c where c: "cmd = Some c" using i by (auto simp: survivable_def)
    let ?a = "app_outbound P (sac_sid c) (sac_payload c) (sd_manager d)"
    have len: "length (copy_at 0 (sac_payload c) (replicate PAYLOAD_LEN 0)) = PAYLOAD_LEN" if "length (sac_payload c) \<le> PAYLOAD_LEN"
      using that by (simp add: copy_at_def)
    have "(\<exists>ev. fst ?a = Inr ev) \<or> fst ?a = Inl NoSession \<or>
        fst ?a = Inl (MgrSession (SE_Codec (WrongLength ''payload'' PAYLOAD_LEN (length (sac_payload c)))))"
      using send_encrypted_total [OF inv aead len, of "sac_sid c" _ Data]
      by (cases "map_of (mg_sessions (sd_manager d)) (sac_sid c)")
        (auto simp: app_outbound_def send_encrypted_def)
    then show ?thesis using ServerApp c E by (auto simp: server_app_arm_def case_prod_beta and_then_total Let_def)
  next
    case ServerTick
    then show ?thesis using E by (simp add: server_tick_arm_def case_prod_beta and_then_total)
  next
    case ServerCover
    obtain evs where "fst (cover_packet_all P (sr_fill x) (sd_manager d)) = Inr evs"
      using cover_all_total [OF inv aead, of "sr_fill x"] fill by blast
    then show ?thesis
      using ServerCover E
      by (cases "fst (on_deadline (sr_now x) (sd_cover_sched d))")
        (simp_all add: server_cover_arm_def case_prod_beta and_then_total Let_def)
  qed
qed

lemma survivable_fixed:
  "fixed m1 = fixed m \<Longrightarrow> survivable P (sv_cfg (mg_hs m1)) i = survivable P (sv_cfg (mg_hs m)) i"
  by (simp add: survivable_def server_ready_def fixed_def Let_def)

section \<open>What the application knows\<close>

text \<open>The sessions the application takes for open, from the notifications it got.\<close>

definition hear :: "effect \<Rightarrow> bytes set \<Rightarrow> bytes set" where
  "hear e v =
     (case e of
        Notified (MN_Established sid _) \<Rightarrow> insert sid v
      | Notified (MN_Closed sid _) \<Rightarrow> v - {sid}
      | _ \<Rightarrow> v)"

definition app_view :: "effect list \<Rightarrow> bytes set" where
  "app_view log = fold hear log {}"

definition sessions_of :: "ServerSessionManager \<Rightarrow> bytes set" where
  "sessions_of m = dom (map_of (mg_sessions m))"

definition closed_in :: "ManagerEvent list \<Rightarrow> bytes set" where
  "closed_in evs = {sid. \<exists>reason. ME_Closed sid reason \<in> set evs}"

lemma closed_in_simps [simp]:
  "closed_in [] = {}" "closed_in (xs @ ys) = closed_in xs \<union> closed_in ys"
  "closed_in (ME_Closed sid r # evs) = insert sid (closed_in evs)"
  "(\<And>sid r. ev \<noteq> ME_Closed sid r) \<Longrightarrow> closed_in (ev # evs) = closed_in evs"
  by (auto simp: closed_in_def)

lemma sessions_frame [simp]:
  "sessions_of (session_put sid e m) = insert sid (sessions_of m)" "sessions_of (session_drop sid m) = sessions_of m - {sid}"
  "sessions_of (m\<lparr>mg_pending_closed := evs\<rparr>) = sessions_of m" "sessions_of (m\<lparr>mg_fail_gate := g\<rparr>) = sessions_of m"
  "sessions_of (m\<lparr>mg_hs := h\<rparr>) = sessions_of m"
  by (auto simp: sessions_of_def session_put_def session_drop_def dom_def table_simps split: if_splits)

lemma pending_closed_frame [simp]:
  "mg_pending_closed (session_put sid e m) = mg_pending_closed m" "mg_pending_closed (session_drop sid m) = mg_pending_closed m"
  by (simp_all add: session_put_def session_drop_def)

text \<open>No session goes unreported: it stays, its close is among the events, or its close is queued; and a
  queued close stays queued or is among the events.\<close>

definition accounted :: "ServerSessionManager \<Rightarrow> ManagerEvent list \<Rightarrow> ServerSessionManager \<Rightarrow> bool" where
  "accounted m evs m1 \<longleftrightarrow>
     sessions_of m \<union> closed_in (mg_pending_closed m) \<subseteq>
     sessions_of m1 \<union> closed_in evs \<union> closed_in (mg_pending_closed m1)"

lemma accounted_refl [simp]: "accounted m evs m"
  by (auto simp: accounted_def)

lemma accounted_trans: "accounted m xs m1 \<Longrightarrow> accounted m1 ys m2 \<Longrightarrow> accounted m (xs @ ys) m2"
  by (auto simp: accounted_def)

lemma emit_accounted:
  assumes "(case res of
      Inr packet \<Rightarrow> (Inr (ME_SendPacket packet peer), m1)
    | Inl SE_RekeyRequired \<Rightarrow> (Inr (ME_Closed sid CR_NonceExhausted), session_drop sid m1)
    | Inl err \<Rightarrow> (Inl (MgrSession err), m1)) = (Inr ev, m2)"
  shows "accounted m1 [ev] m2"
  using assms
  by (cases rule: emit_cases [of res m1 sid peer]) (auto simp: accounted_def)

lemma put_accounted [simp]: "accounted (session_put sid e m) evs m1 \<Longrightarrow> accounted m evs m1"
  by (auto simp: accounted_def)

lemma send_accounted: "send_encrypted P sid mt payload m = (Inr ev, m1) \<Longrightarrow> accounted m [ev] m1"
  by (auto simp: send_encrypted_def Let_def case_prod_beta split: option.splits dest!: emit_accounted)

lemma app_error_accounted: "app_outbound P sid payload m = (Inl e, m1) \<Longrightarrow> accounted m [] m1"
  by (auto simp: app_outbound_def send_encrypted_def Let_def accounted_def
      split: if_splits option.splits prod.splits sum.splits SessionError.splits)

lemma control_accounted: "on_control_message P sid inner m = (Inr ev, m1) \<Longrightarrow> accounted m [ev] m1"
  by (auto simp: on_control_message_def Let_def case_prod_beta split: option.splits if_splits
      dest!: emit_accounted)

lemma cover_accounted: "cover_packet P rnd sid m = (Inr ev, m1) \<Longrightarrow> accounted m [ev] m1"
  by (auto simp: cover_packet_def Let_def case_prod_beta split: option.splits dest!: emit_accounted)

lemma cover_each_accounted: "cover_each P rnd sids m = (Inr evs, m1) \<Longrightarrow> accounted m evs m1"
proof (induction sids arbitrary: m evs)
  case (Cons sid sids)
  obtain ev m2 where c: "cover_packet P (rnd sid) sid m = (Inr ev, m2)"
    using Cons.prems by (auto split: prod.splits sum.splits)
  obtain out where d: "cover_each P rnd sids m2 = (Inr out, m1)" "evs = (if ev = ME_None then out else ev # out)"
    using Cons.prems c by (auto split: prod.splits sum.splits)
  have "accounted m ([ev] @ out) m1" by (rule accounted_trans [OF cover_accounted [OF c] Cons.IH [OF d(1)]])
  then show ?case using d(2) by (simp add: accounted_def split: if_splits)
qed simp

lemma complete_accounted:
  "on_handshake_complete P order created now outcome from m = (Inr ev, m1) \<Longrightarrow> accounted m [ev] m1"
  by (auto simp: on_handshake_complete_def accounted_def Let_def split: if_splits sum.splits option.splits)
lemma data_accounted:
  assumes inv: "manager_inv P m" and d: "on_data_packet P now pkt from m = (Inr ev, m1)"
  shows "accounted m [ev] m1"
  using inv
proof (cases rule: on_data_cases [of P m now pkt "from"])
  case (control e inner s1)
  then show ?thesis using d put_accounted [OF control_accounted] by simp
qed (use d in \<open>auto simp: accounted_def\<close>)

lemma handle_accounted:
  assumes "manager_inv P m" "manager_handle_datagram P rnd order ck pkt from m = (Inr ev, m1)"
  shows "accounted m [ev] m1"
proof (cases "is_handshake_fragment pkt")
  case False
  then show ?thesis using data_accounted [OF assms(1)] assms(2) by (simp add: manager_handle_datagram_def)
next
  case True
  obtain res hs where h: "server_handle_datagram P rnd (mc_hs ck) pkt from (mg_hs m) = (res, hs)" by fastforce
  have "accounted (m\<lparr>mg_hs := hs\<rparr>) [ev] m1"
    using assms(2) True h complete_accounted [of P order _ _ _ "from" "m\<lparr>mg_hs := hs\<rparr>" ev m1]
    by (auto simp: manager_handle_datagram_def Let_def split: sum.splits ServerEvent.splits)
  then show ?thesis by (simp add: accounted_def)
qed

lemma tick_accounted:
  assumes inv: "manager_inv P m"
  shows "sessions_of m \<union> closed_in (mg_pending_closed m) \<subseteq>
    sessions_of (snd (manager_tick P order now m)) \<union> closed_in (fst (manager_tick P order now m))"
  using manager_tick_effect(1,2) [OF inv, where order = order and now = now]
  by (fastforce simp: sessions_of_def closed_in_def split: option.splits)

text \<open>What the effects of an event add to the application's view.\<close>

lemma app_view_snoc [simp]: "app_view (log @ [e]) = hear e (app_view log)"
  by (simp add: app_view_def)

lemma view_send [simp]: "app_view (ef_log (snd (send_packet E p peer d))) = app_view (ef_log d)"
  by (simp add: send_packet_def hear_def split: option.split)

lemma view_sends [simp]: "app_view (ef_log (snd (send_packets E ps peer d))) = app_view (ef_log d)"
proof (induction ps arbitrary: d)
  case (Cons p ps)
  obtain r d1 where "send_packet E p peer d = (r, d1)" by fastforce
  then show ?case using Cons [of d1] view_send [of E p peer d] by (cases r) simp_all
qed simp

lemma view_notify: "notify_app E n d = (Inr u, d1) \<Longrightarrow> app_view (ef_log d1) = hear (Notified n) (app_view (ef_log d))"
  by (auto simp: notify_app_def split: if_splits)

lemma relay_view:
  assumes "server_relay E now ev d = (Inr u, d1)"
  shows "app_view (ef_log d1) \<subseteq>
    (app_view (ef_log d) - closed_in [ev]) \<union> {sid. \<exists>peer. ev = ME_Established sid peer}"
proof (cases ev)
  case (ME_Send ps peer)
  then show ?thesis using assms view_sends [of E ps peer d] by (simp add: server_relay_def)
next
  case (ME_SendPacket p peer)
  then show ?thesis using assms view_send [of E p peer d] by (simp add: server_relay_def)
qed (use assms in \<open>auto simp: server_relay_def Let_def hear_def dest!: view_notify\<close>)

lemma emit_view:
  assumes "server_emit E ev d = (Inr u, d1)"
  shows "app_view (ef_log d1) = app_view (ef_log d) - closed_in [ev]"
proof (cases ev)
  case (ME_SendPacket p peer)
  then show ?thesis using assms view_send [of E p peer d] by (simp add: server_emit_def)
next
  case (ME_Closed sid reason)
  then show ?thesis using assms view_notify [of E "MN_Closed sid reason" d u d1] by (simp add: server_emit_def hear_def)
qed (use assms in \<open>simp_all add: server_emit_def\<close>)

lemma emit_all_view:
  "server_emit_all E evs d = (Inr u, d1) \<Longrightarrow> app_view (ef_log d1) = app_view (ef_log d) - closed_in evs"
proof (induction evs arbitrary: d)
  case (Cons ev evs)
  obtain d2 where e: "server_emit E ev d = (Inr (), d2)" "server_emit_all E evs d2 = (Inr u, d1)"
    using Cons.prems by (auto simp: and_then_def split: prod.splits sum.splits)
  show ?case using Cons.IH [OF e(2)] emit_view [OF e(1)] closed_in_simps(2) [of "[ev]" evs] by auto
qed simp

lemma established_held:
  assumes inv: "manager_inv P m" and h: "manager_handle_datagram P rnd order ck pkt from m = (Inr (ME_Established sid peer), m1)"
  shows "sid \<in> sessions_of m1"
proof (cases "is_handshake_fragment pkt")
  case True
  then show ?thesis
    using h by (auto simp: manager_handle_datagram_def on_handshake_complete_def Let_def
        split: sum.splits prod.splits ServerEvent.splits if_splits)
next
  case False
  have ctl: "fst (on_control_message P sid' inner m') \<noteq> Inr (ME_Established sid peer)" for sid' inner m'
    by (auto simp: on_control_message_def Let_def split: option.splits prod.splits sum.splits SessionError.splits)
  have "fst (on_data_packet P (mc_now ck) pkt from m) \<noteq> Inr (ME_Established sid peer)"
    using inv by (cases rule: on_data_cases [of P m "mc_now ck" pkt "from"]) (simp_all add: ctl)
  then show ?thesis using h False by (simp add: manager_handle_datagram_def)
qed

text \<open>The application takes for open only sessions the manager holds or whose close is about to be
  reported.\<close>

definition informed :: "ServerDriver \<Rightarrow> bool" where
  "informed d \<longleftrightarrow> app_view (ef_log d) \<subseteq> sessions_of (sd_manager d) \<union> closed_in (mg_pending_closed (sd_manager d))"

lemma and_then_Inr: "and_then r f = (Inr b, d) \<longleftrightarrow> (\<exists>a d1. r = (Inr a, d1) \<and> f a d1 = (Inr b, d))"
  by (auto simp: and_then_def split: prod.splits sum.splits)

lemma recv_informed:
  assumes inv: "manager_inv P (sd_manager d)" and i: "informed d" and r: "server_recv_arm P E x r d = (Inr f, d1)"
  shows "informed d1"
proof (cases r)
  case (Inl e)
  then show ?thesis using r i by (cases e) (auto simp: server_recv_arm_def informed_def)
next
  case (Inr pf)
  obtain pkt "from" where pf: "pf = (pkt, from)" by fastforce
  obtain res m where h: "manager_handle_datagram P (sr_draws x) (sr_order x) (sr_clock x) pkt from (sd_manager d) = (res, m)"
    by fastforce
  obtain ev u where ev: "res = Inr ev" and
    rl: "server_relay E (sr_now x) ev (d\<lparr>sd_manager := m, sd_reset_noticed := False\<rparr>) = (Inr u, d1)"
    using r Inr pf h by (auto simp: server_recv_arm_def and_then_Inr)
  have m: "sd_manager d1 = m" using relay_manager [of E "sr_now x" ev "d\<lparr>sd_manager := m, sd_reset_noticed := False\<rparr>"] rl by simp
  have acc: "accounted (sd_manager d) [ev] m" using handle_accounted [OF inv] h ev by simp
  have est: "{sid. \<exists>peer. ev = ME_Established sid peer} \<subseteq> sessions_of m" using established_held [OF inv] h ev by blast
  have "app_view (ef_log d1) \<subseteq> (app_view (ef_log d) - closed_in [ev]) \<union> {sid. \<exists>peer. ev = ME_Established sid peer}"
    using relay_view [OF rl] by simp
  then show ?thesis using i acc est unfolding informed_def accounted_def m by blast
qed

lemma app_informed:
  assumes i: "informed d" and r: "server_app_arm P E cmd d = (Inr f, d1)"
  shows "informed d1"
proof (cases cmd)
  case (Some c)
  obtain res m where h: "app_outbound P (sac_sid c) (sac_payload c) (sd_manager d) = (res, m)" by fastforce
  show ?thesis
  proof (cases res)
    case (Inl e)
    then have "accounted (sd_manager d) [] m" using h app_error_accounted by simp
    moreover have "sd_manager d1 = m \<and> ef_log d1 = ef_log d"
      using r Some h Inl
      by (auto simp: server_app_arm_def Let_def split: ManagerError.splits SessionError.splits CodecError.splits)
    ultimately show ?thesis using i unfolding informed_def accounted_def by auto
  next
    case (Inr ev)
    obtain u where em: "server_emit E ev (d\<lparr>sd_manager := m\<rparr>) = (Inr u, d1)"
      using r Some h Inr by (auto simp: server_app_arm_def and_then_Inr)
    have m: "sd_manager d1 = m" using emit_manager [of E ev "d\<lparr>sd_manager := m\<rparr>"] em by simp
    have "accounted (sd_manager d) [ev] m" using h Inr send_accounted by (auto simp: app_outbound_def split: if_splits)
    then show ?thesis using i emit_view [OF em] unfolding informed_def accounted_def m by auto
  qed
qed (use assms in \<open>simp add: server_app_arm_def\<close>)

lemma tick_informed:
  assumes inv: "manager_inv P (sd_manager d)" and i: "informed d" and r: "server_tick_arm P E x d = (Inr f, d1)"
  shows "app_view (ef_log d1) \<subseteq> sessions_of (sd_manager d1)"
proof -
  obtain evs m where t: "manager_tick P (sr_order x) (sr_now x) (sd_manager d) = (evs, m)" by fastforce
  obtain u where em: "server_emit_all E evs (d\<lparr>sd_manager := m\<rparr>) = (Inr u, d1)"
    using r t by (auto simp: server_tick_arm_def and_then_Inr)
  have m: "sd_manager d1 = m" using emit_all_manager [of E evs "d\<lparr>sd_manager := m\<rparr>"] em by simp
  show ?thesis
    using i tick_accounted [OF inv, of "sr_order x" "sr_now x"] emit_all_view [OF em] t unfolding informed_def m by auto
qed

lemma cover_informed:
  assumes i: "informed d" and r: "server_cover_arm P E x d = (Inr f, d1)"
  shows "informed d1"
proof -
  obtain due sched where s: "on_deadline (sr_now x) (sd_cover_sched d) = (due, sched)" by fastforce
  show ?thesis
  proof (cases due)
    case True
    obtain res m where c: "cover_packet_all P (sr_fill x) (sd_manager d) = (res, m)" by fastforce
    obtain evs u d2 where em: "res = Inr evs" "server_emit_all E evs (d\<lparr>sd_cover_sched := sched, sd_manager := m\<rparr>) = (Inr u, d2)"
      and d1: "ef_log d1 = ef_log d2" "sd_manager d1 = sd_manager d2"
      using r s True c by (auto simp: server_cover_arm_def and_then_Inr)
    have m: "sd_manager d1 = m"
      using emit_all_manager [of E evs "d\<lparr>sd_cover_sched := sched, sd_manager := m\<rparr>"] em(2) d1 by simp
    have "accounted (sd_manager d) evs m" using c em(1) cover_each_accounted by (auto simp: cover_packet_all_def)
    then show ?thesis using i emit_all_view [OF em(2)] unfolding informed_def accounted_def m d1(1) by auto
  qed (use r s i in \<open>auto simp: server_cover_arm_def informed_def\<close>)
qed

lemma iteration_informed:
  assumes "manager_inv P (sd_manager d)" "informed d" "server_iteration P E i d = (Inr f, d1)"
  shows "informed d1"
proof (cases i)
  case (Pair x arm)
  show ?thesis
  proof (cases arm)
    case ServerTick
    then show ?thesis using tick_informed [OF assms(1,2), of E x f d1] assms(3) Pair by (auto simp: informed_def)
  next
    case (ServerRecv r)
    then show ?thesis using recv_informed [OF assms(1,2), of E x r f d1] assms(3) Pair by simp
  next
    case (ServerApp cmd)
    then show ?thesis using app_informed [OF assms(2), of P E cmd f d1] assms(3) Pair by simp
  next
    case ServerCover
    then show ?thesis using cover_informed [OF assms(2), of P E x f d1] assms(3) Pair by simp
  qed
qed

lemma server_run_informed:
  assumes "manager_inv P m" "run_server_manager P E m cover inputs = (Inr f, d)"
  shows "manager_inv P (sd_manager d) \<and> informed d"
proof -
  let ?Q = "\<lambda>d. manager_inv P (sd_manager d) \<and> informed d"
  have step: "?Q d1" if "i \<in> set inputs" "?Q d" "server_iteration P E i d = (Inr f, d1)" for i d f d1
    using that iteration_inv(1) [of P d E i] iteration_informed [of P d E i f d1] by simp
  have start: "?Q \<lparr>ef_log = [], sd_manager = m, sd_cover_sched = scheduler_new cover,
      sd_cover_arm = cover_sleep (scheduler_new cover), sd_reset_noticed = False\<rparr>"
    using assms(1) by (simp add: informed_def app_view_def)
  show ?thesis by (rule drive_inv [of inputs ?Q, OF step start assms(2) [unfolded run_server_manager_def Let_def]])
qed

section \<open>Concrete inputs\<close>

definition demo_env :: Environment where
  "demo_env = \<lparr>env_send = (\<lambda>_. None), env_app_closed = (\<lambda>_. False)\<rparr>"

definition demo_readings :: ServerReadings where
  "demo_readings = \<lparr>sr_draws = demo_draws, sr_order = [], sr_clock = demo_manager_clock, sr_now = 7,
     sr_fill = (\<lambda>_. Inr (replicate PAYLOAD_LEN 3))\<rparr>"

lemma demo_env_working: "working demo_env"
  by (simp add: working_def demo_env_def)

section \<open>Properties\<close>

text \<open>C5: nothing a peer or the application sends stops the server. With primitives that keep their promises,
  a transport that sends and an application that listens, the server driver goes on after any sequence of
  datagrams of any content from any source, rejected datagrams, transport resets, application commands
  (oversized ones and ones for unknown sessions included), ticks and cover deadlines.\<close>

theorem server_driver_survives:
  assumes "primitives_ok P" "manager_reachable P m" "working E" "\<forall>i \<in> set inputs. survivable P (sv_cfg (mg_hs m)) i"
  shows "fst (run_server_manager P E m cover inputs) = Inr Continue"
proof -
  let ?Q = "\<lambda>d. manager_inv P (sd_manager d) \<and> fixed (sd_manager d) = fixed m"
  have "fst (server_iteration P E i d) = Inr Continue \<and> ?Q (snd (server_iteration P E i d))"
    if "i \<in> set inputs" "?Q d" for i d
    using that assms(4) iteration_inv [of P d E i] survivable_fixed [of "sd_manager d" m P i]
      iteration_survives [OF assms(1,3), of d "fst i" "snd i"] by simp
  then show ?thesis
    using drive_continues [of inputs ?Q "server_iteration P E"] reachable_inv [OF assms(2)]
    by (simp add: run_server_manager_def Let_def)
qed

theorem server_driver_survives_witness:
  "\<exists>m. manager_reachable demo m \<and> mg_sessions m \<noteq> [] \<and>
     fst (run_server_manager demo demo_env m cover_policy_default
       [(demo_readings, ServerRecv (Inr (WirePacket (replicate 1280 5), demo_addr))),
        (demo_readings, ServerRecv (Inl HE_TransportReset)),
        (demo_readings, ServerApp (Some \<lparr>sac_sid = replicate 8 5, sac_payload = replicate 2000 1\<rparr>)),
        (demo_readings, ServerTick), (demo_readings, ServerCover)]) = Inr Continue"
proof -
  obtain m ws where m: "manager_reachable demo m"
    "map_of (mg_sessions m) (replicate 8 5) =
       Some \<lparr>se_session = ws, se_peer = demo_addr, se_last_activity = 5, se_established_at = 5\<rparr>"
    "server_ready demo (sv_cfg (mg_hs m)) demo_draws"
    by (rule demo_manager)
  have s: "survivable demo (sv_cfg (mg_hs m)) (demo_readings, arm)"
    if "arm \<in> {ServerRecv (Inr (WirePacket (replicate 1280 5), demo_addr)), ServerRecv (Inl HE_TransportReset),
      ServerApp (Some \<lparr>sac_sid = replicate 8 5, sac_payload = replicate 2000 1\<rparr>), ServerTick, ServerCover}" for arm
    using that m(3) by (auto simp: survivable_def demo_readings_def)
  have "mg_sessions m \<noteq> []" using m(2) by auto
  then show ?thesis
    using m(1) server_driver_survives [OF demo_ok m(1) demo_env_working] s by (intro exI [of _ m] conjI) auto
qed

text \<open>C9: no session disappears behind the application's back. At every moment the sessions the application takes
  for open, going by the notifications it received, are sessions the server manager holds or sessions whose
  close is queued for the next tick; and right after a tick they are all held.\<close>

theorem server_closures_reported:
  assumes "manager_reachable P m" "run_server_manager P E m cover inputs = (Inr f, d)"
  shows "app_view (ef_log d) \<subseteq> sessions_of (sd_manager d) \<union> closed_in (mg_pending_closed (sd_manager d)) \<and>
    (\<forall>x g d1. server_iteration P E (x, ServerTick) d = (Inr g, d1) \<longrightarrow> app_view (ef_log d1) \<subseteq> sessions_of (sd_manager d1))"
proof -
  have i: "manager_inv P (sd_manager d)" "informed d"
    using server_run_informed [OF reachable_inv [OF assms(1)] assms(2)] by simp_all
  then show ?thesis using tick_informed [OF i] by (simp add: informed_def)
qed


theorem server_closures_reported_witness:
  "\<exists>m m3 d. manager_reachable demo m \<and>
     run_server_manager demo demo_env m cover_policy_default [(demo_readings, ServerRecv (Inr (m3, demo_addr)))] = (Inr Continue, d) \<and>
     replicate 8 5 \<in> app_view (ef_log d) \<and>
     app_view (ef_log d) \<subseteq> sessions_of (sd_manager d) \<union> closed_in (mg_pending_closed (sd_manager d))"
proof -
  obtain m1 m3 m where m: "manager_reachable demo m1"
    "manager_handle_datagram demo demo_draws [] demo_manager_clock m3 demo_addr m1 = (Inr (ME_Established (replicate 8 5) demo_addr), m)"
    by (rule demo_manager)
  obtain f d where d: "run_server_manager demo demo_env m1 cover_policy_default
      [(demo_readings, ServerRecv (Inr (m3, demo_addr)))] = (f, d)" by fastforce
  have "f = Inr Continue" "replicate 8 5 \<in> app_view (ef_log d)"
    using d m(2)
    by (auto simp: run_server_manager_def server_recv_arm_def demo_readings_def server_relay_def demo_env_working app_view_def
        hear_def Let_def)
  then show ?thesis using m(1) d server_closures_reported [OF m(1), of demo_env cover_policy_default] by blast
qed

end
