(* ===== verification/Client_Manager.thy ===== *)
theory Client_Manager
  imports Manager_Common
begin

text \<open>
  \<open>ClientSessionManager\<close> of \<open>pq-tunnel-core/src/session_manager.rs\<close>: one handshake or one session at
  a time, the outbound queue, the paced session slots, the liveness and confirmation deadlines, and the
  retired session ids. The instants an operation reads and its random draws are arguments; a drawn
  session id is the 64-bit word whose bytes \<open>getrandom\<close> fills in.
\<close>

section \<open>State\<close>

datatype ClientManagerState = CM_Idle | CM_Handshaking | CM_Unconfirmed | CM_Established

record QueuedPayload =
  qp_payload :: bytes
  qp_queued_at :: instant

definition OUTBOUND_QUEUE_CAP :: nat where "OUTBOUND_QUEUE_CAP = 64"
definition OUTBOUND_QUEUE_TTL :: duration where "OUTBOUND_QUEUE_TTL = from_secs 2"
definition SID_HISTORY_CAP :: nat where "SID_HISTORY_CAP = 64"
definition RETIRED_SID_CAP :: nat where "RETIRED_SID_CAP = 1024"

record ClientSessionManager =
  cm_cfg :: ClientConfig
  cm_limits :: SessionLimits
  cm_hs :: "ClientHandshake option"
  cm_session :: "WireSession option"
  cm_ready :: bool
  cm_peer :: SocketAddr
  cm_hs_started :: "instant option"
  cm_prepared_at :: "instant option"
  cm_m3_frags :: "WirePacket list"
  cm_m3_attempts :: u32
  cm_m3_exhausted :: bool
  cm_next_probe_at :: "instant option"
  cm_rounds_unanswered :: u32
  cm_last_slot_at :: "instant option"
  cm_out_queue :: "QueuedPayload list"
  cm_dropped_outbound :: u64
  cm_last_drop_log :: "instant option"
  cm_used_sids :: "bytes set"
  cm_used_order :: "bytes list"
  cm_retired_sids :: "bytes set"
  cm_retired_order :: "bytes list"
  cm_rearm_requested :: bool
  cm_pending_closed :: "ManagerEvent list"
  cm_pending_closes :: "PendingClose list"

definition client_manager_new :: "ClientConfig \<Rightarrow> SessionLimits \<Rightarrow> ManagerError + ClientSessionManager" where
  "client_manager_new cfg limits =
     (if ccf_version cfg \<noteq> PROTOCOL_VERSION then
        Inl (MgrInvalidConfig (''version '' @ decimal (unat (ccf_version cfg)) @ '' unsupported (expected '' @
          decimal (unat PROTOCOL_VERSION) @ '')''))
      else case session_limits_validate limits of
        Inl e \<Rightarrow> Inl e
      | Inr _ \<Rightarrow>
          Inr \<lparr>cm_cfg = cfg, cm_limits = limits, cm_hs = None, cm_session = None, cm_ready = False,
               cm_peer = ccf_server_addr cfg, cm_hs_started = None, cm_prepared_at = None, cm_m3_frags = [],
               cm_m3_attempts = 0, cm_m3_exhausted = False, cm_next_probe_at = None, cm_rounds_unanswered = 0,
               cm_last_slot_at = None, cm_out_queue = [], cm_dropped_outbound = 0, cm_last_drop_log = None,
               cm_used_sids = {}, cm_used_order = [], cm_retired_sids = {}, cm_retired_order = [],
               cm_rearm_requested = False, cm_pending_closed = [], cm_pending_closes = []\<rparr>)"

definition client_manager_state :: "ClientSessionManager \<Rightarrow> ClientManagerState" where
  "client_manager_state m =
     (if cm_session m \<noteq> None then (if cm_ready m then CM_Established else CM_Unconfirmed)
      else if cm_hs m \<noteq> None then CM_Handshaking
      else CM_Idle)"

definition session_id_of :: "ClientSessionManager \<Rightarrow> bytes option" where
  "session_id_of m = map_option ws_session_id (cm_session m)"

definition handshake_sid :: "ClientSessionManager \<Rightarrow> bytes option" where
  "handshake_sid m = map_option ch_session (cm_hs m)"

definition needs_rearm :: "ClientSessionManager \<Rightarrow> bool" where
  "needs_rearm m = (cm_rearm_requested m \<and> cm_hs m = None \<and> cm_session m = None)"

section \<open>Starting a handshake\<close>

text \<open>The loops that bound a history: the oldest ids leave the queue and the set.\<close>

fun forget_oldest :: "nat \<Rightarrow> bytes set \<Rightarrow> bytes list \<Rightarrow> bytes set \<times> bytes list" where
  "forget_oldest cap sids [] = (sids, [])"
| "forget_oldest cap sids (old # order) =
     (if length (old # order) > cap then forget_oldest cap (sids - {old}) order
      else (sids, old # order))"

text \<open>The draws of the loop, at most eight.\<close>

fun draw_fresh ::
  "(string + u64) list \<Rightarrow> ClientSessionManager \<Rightarrow> (ManagerError + bytes) \<times> ClientSessionManager" where
  "draw_fresh [] m = (Inl (InvalidState ''could not draw a fresh session identifier''), m)"
| "draw_fresh (d # ds) m =
     (case random_sid (map_sum id (to_be 8) d) of
        Inl e \<Rightarrow> (Inl (MgrHandshake e), m)
      | Inr sid \<Rightarrow>
          if sid \<in> cm_used_sids m then draw_fresh ds m
          else
            let (sids, order) = forget_oldest SID_HISTORY_CAP (insert sid (cm_used_sids m)) (cm_used_order m @ [sid])
            in (Inr sid, m\<lparr>cm_used_sids := sids, cm_used_order := order\<rparr>))"

definition fresh_sid ::
  "(nat \<Rightarrow> string + u64) \<Rightarrow> ClientSessionManager \<Rightarrow> (ManagerError + bytes) \<times> ClientSessionManager" where
  "fresh_sid draws m = draw_fresh (map draws [0..<8]) m"

text \<open>The draws of a new handshake: the session ids, the two key seeds and the jitter.\<close>

record ClientDraws =
  cd_sids :: "nat \<Rightarrow> string + u64"
  cd_kem_seed :: bytes
  cd_x_seed :: bytes
  cd_jitter :: "u64 option"

definition manager_begin_handshake ::
  "primitives \<Rightarrow> ClientDraws \<Rightarrow> instant \<Rightarrow> ClientSessionManager \<Rightarrow> (ManagerError + ManagerEvent) \<times> ClientSessionManager" where
  "manager_begin_handshake P rnd now m =
     (if cm_hs m \<noteq> None \<or> cm_session m \<noteq> None
      then (Inl (InvalidState ''handshake already running or session established''), m)
      else case fresh_sid (cd_sids rnd) m of
        (Inl e, m1) \<Rightarrow> (Inl e, m1)
      | (Inr sid, m1) \<Rightarrow>
          (case client_new P (cd_kem_seed rnd) (cd_x_seed rnd) (cd_jitter rnd) (cm_cfg m1) sid of
             Inl e \<Rightarrow> (Inl (MgrHandshake e), m1)
           | Inr hs \<Rightarrow>
               (Inr (ME_Send (ch_m1_frags hs) (ccf_server_addr (cm_cfg m1))),
                m1\<lparr>cm_hs := Some hs, cm_hs_started := Some now, cm_ready := False,
                   cm_peer := ccf_server_addr (cm_cfg m1), cm_rearm_requested := False\<rparr>)))"

section \<open>Tearing down\<close>

definition retire_sid :: "bytes \<Rightarrow> ClientSessionManager \<Rightarrow> ClientSessionManager" where
  "retire_sid sid m =
     (if sid \<in> cm_retired_sids m then m
      else
        let (sids, order) = forget_oldest RETIRED_SID_CAP (insert sid (cm_retired_sids m)) (cm_retired_order m @ [sid])
        in m\<lparr>cm_retired_sids := sids, cm_retired_order := order\<rparr>)"

definition teardown ::
  "primitives \<Rightarrow> instant \<Rightarrow> bool \<Rightarrow> ClientSessionManager \<Rightarrow> ManagerEvent option \<times> ClientSessionManager" where
  "teardown P now send_close m =
     (case cm_session m of
        None \<Rightarrow> (None, m)
      | Some session \<Rightarrow>
          let m1 = retire_sid (ws_session_id session)
                (m\<lparr>cm_session := None, cm_ready := False, cm_prepared_at := None, cm_m3_frags := [],
                   cm_m3_attempts := 0, cm_m3_exhausted := True, cm_next_probe_at := None,
                   cm_rounds_unanswered := 0, cm_rearm_requested := True\<rparr>)
          in if \<not> send_close then (None, m1)
             else (case wire_encrypt P Close (replicate PAYLOAD_LEN 0) session of
                     (Inl _, _) \<Rightarrow> (None, m1)
                   | (Inr packet, session1) \<Rightarrow>
                       (Some (ME_SendPacket packet (cm_peer m1)),
                        m1\<lparr>cm_pending_closes := cm_pending_closes m1 @
                             [\<lparr>pc_session = session1, pc_peer = cm_peer m1,
                               pc_attempts_left = CLOSE_RETRANSMIT_TOTAL - 1,
                               pc_next_at = now + CLOSE_RETRANSMIT_BASE\<rparr>]\<rparr>)))"

definition close_now ::
  "primitives \<Rightarrow> CloseReason \<Rightarrow> instant \<Rightarrow> ClientSessionManager \<Rightarrow> ManagerEvent list \<times> ClientSessionManager" where
  "close_now P reason now m =
     (case session_id_of m of
        None \<Rightarrow> ([], m)
      | Some sid \<Rightarrow>
          let (ev, m1) = teardown P now True m
          in ((case ev of None \<Rightarrow> [] | Some ev \<Rightarrow> [ev]) @ [ME_Closed sid reason], m1))"

definition client_close ::
  "primitives \<Rightarrow> instant \<Rightarrow> ClientSessionManager \<Rightarrow> (ManagerError + ManagerEvent) \<times> ClientSessionManager" where
  "client_close P now m =
     (case session_id_of m of
        None \<Rightarrow> (Inr ME_None, m)
      | Some sid \<Rightarrow>
          let (close, m1) = teardown P now True m
          in (Inr (case close of None \<Rightarrow> ME_None | Some ev \<Rightarrow> ev),
              m1\<lparr>cm_pending_closed := cm_pending_closed m1 @ [ME_Closed sid CR_UserClosed]\<rparr>))"

section \<open>Handshake and data paths\<close>

definition build_probe :: "primitives \<Rightarrow> ClientSessionManager \<Rightarrow> WirePacket option \<times> ClientSessionManager" where
  "build_probe P m =
     (case cm_session m of
        None \<Rightarrow> (None, m)
      | Some session \<Rightarrow>
          let (res, session1) = wire_encrypt P Handshake (control_payload CONTROL_PROBE) session
          in (case res of Inl _ \<Rightarrow> None | Inr packet \<Rightarrow> Some packet, m\<lparr>cm_session := Some session1\<rparr>))"

text \<open>\<open>created\<close> is the clock reading of \<open>WireSession::established\<close>.\<close>

definition on_m3_sent ::
  "primitives \<Rightarrow> instant \<Rightarrow> instant \<Rightarrow> WirePacket list \<Rightarrow> HandshakeOutcome \<Rightarrow> ClientSessionManager \<Rightarrow>
   (ManagerError + ManagerEvent) \<times> ClientSessionManager" where
  "on_m3_sent P now created packets outcome m =
     (if cm_session m \<noteq> None
      then (Inr ME_None, m\<lparr>cm_hs := None, cm_hs_started := None, cm_rearm_requested := True\<rparr>)
      else if ho_session_id outcome \<in> cm_retired_sids m then (Inr ME_None, m)
      else case wire_established P created Client outcome of
        Inl e \<Rightarrow> (Inl (MgrSession e), m)
      | Inr session \<Rightarrow>
          let m1 = m\<lparr>cm_session := Some session, cm_hs := None, cm_hs_started := None, cm_ready := False,
                     cm_prepared_at := Some now, cm_m3_frags := packets, cm_m3_attempts := 0,
                     cm_m3_exhausted := False, cm_rounds_unanswered := 0,
                     cm_next_probe_at := Some (now + sl_liveness_probe_interval (cm_limits m))\<rparr>;
              (probe, m2) = build_probe P m1
          in (Inr (ME_Send (packets @ (case probe of None \<Rightarrow> [] | Some p \<Rightarrow> [p])) (ccf_server_addr (cm_cfg m2))), m2))"

definition client_on_data_packet ::
  "primitives \<Rightarrow> instant \<Rightarrow> WirePacket \<Rightarrow> SocketAddr \<Rightarrow> ClientSessionManager \<Rightarrow>
   (ManagerError + ManagerEvent) \<times> ClientSessionManager" where
  "client_on_data_packet P now pkt from m =
     (case cm_session m of
        None \<Rightarrow> (Inr ME_None, m)
      | Some session \<Rightarrow>
          let sid = slice 1 (1 + SESSION_ID_LEN) (as_bytes pkt) in
          if sid \<noteq> ws_session_id session then (Inr ME_None, m)
          else
            let (res, session1) = wire_decrypt P pkt session; m1 = m\<lparr>cm_session := Some session1\<rparr> in
            (case (case res of Inr inner \<Rightarrow> Inr (DR_Payload inner) | Inl e \<Rightarrow> classify_error e) of
               Inl e \<Rightarrow> (Inl (MgrSession e), m1)
             | Inr (DR_Payload inner) \<Rightarrow>
                 let m2 = m1\<lparr>cm_ready := True, cm_rounds_unanswered := 0, cm_peer := from\<rparr> in
                 (case ip_msg_type inner of
                    Data \<Rightarrow> (Inr (ME_AppData sid inner), m2)
                  | TunData \<Rightarrow> (Inr (ME_AppData sid inner), m2)
                  | Close \<Rightarrow> (Inr (ME_Closed sid CR_PeerClosed), snd (teardown P now False m2))
                  | Handshake \<Rightarrow> (Inr ME_None, m2)
                  | Cover \<Rightarrow> (Inr ME_None, m2))
             | Inr (DR_SessionDead reason) \<Rightarrow> (Inr (ME_Closed sid reason), snd (teardown P now True m1))
             | Inr DR_Failed \<Rightarrow> (Inr ME_None, m1)
             | Inr DR_Rejected \<Rightarrow> (Inr ME_None, m1)
             | Inr (DR_Control _) \<Rightarrow> (Inr ME_None, m1)
             | Inr DR_PeerClose \<Rightarrow> (Inr ME_None, m1)))"

text \<open>\<open>rnd\<close> and \<open>jit\<close> are the draws of the handshake machine; \<open>now\<close> is the reading of \<open>on_m3_sent\<close> or
  of the teardown.\<close>

definition client_manager_handle ::
  "primitives \<Rightarrow> bytes \<Rightarrow> u64 option \<Rightarrow> instant \<Rightarrow> instant \<Rightarrow> WirePacket \<Rightarrow> SocketAddr \<Rightarrow> ClientSessionManager \<Rightarrow>
   (ManagerError + ManagerEvent) \<times> ClientSessionManager" where
  "client_manager_handle P rnd jit now created pkt from m =
     (if is_handshake_fragment pkt then
        (case cm_hs m of
           None \<Rightarrow> (Inr ME_None, m)
         | Some hs \<Rightarrow>
             let (res, hs1) = client_handle_datagram P rnd jit pkt hs; m1 = m\<lparr>cm_hs := Some hs1\<rparr>
             in (case res of
                   Inl e \<Rightarrow> (Inl (MgrHandshake e), m1)
                 | Inr (ClientEmit packets) \<Rightarrow> (Inr (ME_Send packets (ccf_server_addr (cm_cfg m))), m1)
                 | Inr (ClientM3Sent packets outcome) \<Rightarrow> on_m3_sent P now created packets outcome m1
                 | Inr ClientNone \<Rightarrow> (Inr ME_None, m1)))
      else client_on_data_packet P now pkt from m)"

section \<open>Timers\<close>

definition manager_on_timer ::
  "primitives \<Rightarrow> u64 option \<Rightarrow> instant \<Rightarrow> instant \<Rightarrow> ClientSessionManager \<Rightarrow>
   (ManagerError + ManagerEvent) \<times> ClientSessionManager" where
  "manager_on_timer P jit now created m =
     (case cm_hs m of
        Some hs \<Rightarrow>
          let sid = ch_session hs; (event, hs1) = client_on_timer jit hs; m1 = m\<lparr>cm_hs := Some hs1\<rparr>
          in (case event of
                Inr (ClientEmit packets) \<Rightarrow> (Inr (ME_Send packets (ccf_server_addr (cm_cfg m))), m1)
              | Inr (ClientM3Sent packets outcome) \<Rightarrow> on_m3_sent P now created packets outcome m1
              | Inr ClientNone \<Rightarrow> (Inr ME_None, m1)
              | Inl HE_Timeout \<Rightarrow>
                  (Inr (ME_Closed sid CR_HandshakeTimeout),
                   m1\<lparr>cm_hs := None, cm_hs_started := None, cm_rearm_requested := True\<rparr>)
              | Inl e \<Rightarrow> (Inl (MgrHandshake e), m1))
      | None \<Rightarrow>
          if cm_session m = None \<or> cm_ready m \<or> cm_m3_exhausted m then (Inr ME_None, m)
          else if cm_m3_attempts m \<ge> ccf_m3_max_attempts (cm_cfg m)
          then (Inr ME_None, m\<lparr>cm_m3_exhausted := True\<rparr>)
          else
            let m1 = m\<lparr>cm_m3_attempts := cm_m3_attempts m + 1\<rparr>; (probe, m2) = build_probe P m1
            in (Inr (ME_Send (cm_m3_frags m @ (case probe of None \<Rightarrow> [] | Some p \<Rightarrow> [p])) (ccf_server_addr (cm_cfg m2))), m2))"

definition manager_next_delay :: "u64 option \<Rightarrow> ClientSessionManager \<Rightarrow> duration option" where
  "manager_next_delay jit m =
     (case cm_hs m of
        Some hs \<Rightarrow> Some (next_delay_of (ch_state hs))
      | None \<Rightarrow>
          if cm_session m \<noteq> None \<and> \<not> cm_ready m \<and> \<not> cm_m3_exhausted m
          then Some (backoff_delay jit (ccf_m1_retransmit_base (cm_cfg m)) (cm_m3_attempts m)) else None)"

section \<open>Outbound queue and session slots\<close>

definition log_drop :: "instant \<Rightarrow> ClientSessionManager \<Rightarrow> ClientSessionManager" where
  "log_drop now m =
     (case cm_last_drop_log m of
        Some prev \<Rightarrow> if now - prev < from_secs 1 then m else m\<lparr>cm_last_drop_log := Some now\<rparr>
      | None \<Rightarrow> m\<lparr>cm_last_drop_log := Some now\<rparr>)"

definition enqueue ::
  "instant \<Rightarrow> bytes \<Rightarrow> ClientSessionManager \<Rightarrow> (ManagerError + ManagerEvent) \<times> ClientSessionManager" where
  "enqueue now payload m =
     (if length (cm_out_queue m) \<ge> OUTBOUND_QUEUE_CAP then
        let m1 = log_drop now (m\<lparr>cm_dropped_outbound := saturating_add (cm_dropped_outbound m) 1\<rparr>)
        in (Inr (ME_OutboundDropped (cm_dropped_outbound m1)), m1)
      else (Inr ME_None, m\<lparr>cm_out_queue := cm_out_queue m @ [\<lparr>qp_payload = payload, qp_queued_at = now\<rparr>]\<rparr>))"

text \<open>\<open>log_now\<close> is the reading of \<open>log_drop\<close>.\<close>

definition expire_queued :: "instant \<Rightarrow> instant \<Rightarrow> ClientSessionManager \<Rightarrow> u64 \<times> ClientSessionManager" where
  "expire_queued log_now now m =
     (let kept = filter (\<lambda>q. now - qp_queued_at q < OUTBOUND_QUEUE_TTL) (cm_out_queue m);
          dropped = of_nat (length (cm_out_queue m) - length kept);
          m1 = m\<lparr>cm_out_queue := kept\<rparr>
      in if dropped > 0
         then (dropped, log_drop log_now (m1\<lparr>cm_dropped_outbound := saturating_add (cm_dropped_outbound m1) dropped\<rparr>))
         else (dropped, m1))"

text \<open>\<open>closed_at\<close> is the reading of a teardown on exhaustion.\<close>

definition client_send_encrypted ::
  "primitives \<Rightarrow> instant \<Rightarrow> MessageType \<Rightarrow> bytes \<Rightarrow> ClientSessionManager \<Rightarrow>
   (ManagerError + ManagerEvent) \<times> ClientSessionManager" where
  "client_send_encrypted P closed_at msg_type payload m =
     (case cm_session m of
        None \<Rightarrow> (Inl NoSession, m)
      | Some session \<Rightarrow>
          let (res, session1) = wire_encrypt P msg_type payload session; m1 = m\<lparr>cm_session := Some session1\<rparr>
          in (case res of
                Inr packet \<Rightarrow> (Inr (ME_SendPacket packet (cm_peer m)), m1)
              | Inl SE_RekeyRequired \<Rightarrow>
                  (Inr (ME_Closed (ws_session_id session) CR_NonceExhausted), snd (teardown P closed_at True m1))
              | Inl e \<Rightarrow> (Inl (MgrSession e), m1)))"

definition client_app_outbound ::
  "primitives \<Rightarrow> instant \<Rightarrow> bytes \<Rightarrow> ClientSessionManager \<Rightarrow> (ManagerError + ManagerEvent) \<times> ClientSessionManager" where
  "client_app_outbound P now payload m =
     (if length payload > PAYLOAD_LEN
      then (Inl (MgrSession (SE_Codec (WrongLength ''payload'' PAYLOAD_LEN (length payload)))), m)
      else
        let padded = copy_at 0 payload (replicate PAYLOAD_LEN 0)
        in if cm_session m = None then enqueue now padded m else client_send_encrypted P now Data padded m)"

definition client_tun_outbound ::
  "primitives \<Rightarrow> instant \<Rightarrow> bytes \<Rightarrow> ClientSessionManager \<Rightarrow> (ManagerError + ManagerEvent) \<times> ClientSessionManager" where
  "client_tun_outbound P now payload m =
     (if length payload \<noteq> PAYLOAD_LEN
      then (Inl (MgrSession (SE_Codec (WrongLength ''payload'' PAYLOAD_LEN (length payload)))), m)
      else if cm_session m = None then (Inr ME_None, m)
      else client_send_encrypted P now TunData (copy_at 0 payload (replicate PAYLOAD_LEN 0)) m)"

definition client_cover_packet ::
  "primitives \<Rightarrow> string + bytes \<Rightarrow> instant \<Rightarrow> ClientSessionManager \<Rightarrow> (ManagerError + ManagerEvent) \<times> ClientSessionManager" where
  "client_cover_packet P rnd now m =
     (case cm_session m of
        None \<Rightarrow> (Inl NoSession, m)
      | Some session \<Rightarrow>
          let (res, session1) = wire_cover P rnd session; m1 = m\<lparr>cm_session := Some session1\<rparr>
          in (case res of
                Inr packet \<Rightarrow> (Inr (ME_SendPacket packet (cm_peer m)), m1)
              | Inl SE_RekeyRequired \<Rightarrow>
                  (Inr (ME_Closed (ws_session_id session) CR_NonceExhausted), snd (teardown P now True m1))
              | Inl e \<Rightarrow> (Inl (MgrSession e), m1)))"

definition next_slot_delay :: "instant \<Rightarrow> ClientSessionManager \<Rightarrow> duration option" where
  "next_slot_delay now m =
     (case cm_session m of
        None \<Rightarrow> None
      | Some _ \<Rightarrow>
          let pace = (case cm_last_slot_at m of Some l \<Rightarrow> l + sl_slot_interval (cm_limits m) | None \<Rightarrow> now);
              queued = (if cm_out_queue m \<noteq> [] then Some pace else None);
              next = (case cm_next_probe_at m of
                        Some probe \<Rightarrow>
                          let due = max probe pace in Some (case queued of None \<Rightarrow> due | Some n \<Rightarrow> min n due)
                      | None \<Rightarrow> queued)
          in map_option (\<lambda>n. n - now) next)"

text \<open>\<open>closed_at\<close> is read when sending the payload exhausts the nonces.\<close>

definition take_queued_payload ::
  "primitives \<Rightarrow> instant \<Rightarrow> instant \<Rightarrow> instant \<Rightarrow> ClientSessionManager \<Rightarrow> ManagerEvent option \<times> ClientSessionManager" where
  "take_queued_payload P log_now closed_at now m =
     (let (_, m1) = expire_queued log_now now m in
      case cm_out_queue m1 of
        [] \<Rightarrow> (None, m1)
      | queued # rest \<Rightarrow>
          let padded = copy_at 0 (take PAYLOAD_LEN (qp_payload queued)) (replicate PAYLOAD_LEN 0);
              (res, m2) = client_send_encrypted P closed_at Data padded (m1\<lparr>cm_out_queue := rest\<rparr>)
          in (Some (case res of Inr ev \<Rightarrow> ev | Inl _ \<Rightarrow> ME_None), m2))"

definition take_probe ::
  "primitives \<Rightarrow> instant \<Rightarrow> ClientSessionManager \<Rightarrow> ManagerEvent option \<times> ClientSessionManager" where
  "take_probe P now m =
     (case cm_next_probe_at m of
        None \<Rightarrow> (None, m)
      | Some due \<Rightarrow>
          if now < due then (None, m)
          else
            let (packet, m1) = build_probe P (m\<lparr>cm_next_probe_at := Some (now + sl_liveness_probe_interval (cm_limits m))\<rparr>)
            in (case packet of
                  None \<Rightarrow> (None, m1)
                | Some packet \<Rightarrow>
                    let m2 = (if cm_ready m1
                              then m1\<lparr>cm_rounds_unanswered := saturating_add (cm_rounds_unanswered m1) 1\<rparr> else m1)
                    in (Some (ME_SendPacket packet (cm_peer m2)), m2)))"

definition take_slot ::
  "primitives \<Rightarrow> instant \<Rightarrow> instant \<Rightarrow> instant \<Rightarrow> ClientSessionManager \<Rightarrow> ManagerEvent option \<times> ClientSessionManager" where
  "take_slot P log_now closed_at now m =
     (if cm_session m = None then (None, m)
      else if (case cm_last_slot_at m of Some prev \<Rightarrow> now - prev < sl_slot_interval (cm_limits m) | None \<Rightarrow> False)
      then (None, m)
      else case take_queued_payload P log_now closed_at now m of
        (Some ev, m1) \<Rightarrow> (Some ev, m1\<lparr>cm_last_slot_at := Some now\<rparr>)
      | (None, m1) \<Rightarrow>
          (case take_probe P now m1 of
             (Some ev, m2) \<Rightarrow> (Some ev, m2\<lparr>cm_last_slot_at := Some now\<rparr>)
           | (None, m2) \<Rightarrow> (None, m2)))"

section \<open>The tick\<close>

definition confirm_deadline_passed :: "instant \<Rightarrow> ClientSessionManager \<Rightarrow> bool" where
  "confirm_deadline_passed now m =
     (if cm_ready m then False
      else case cm_prepared_at m of
        Some prepared_at \<Rightarrow> (case sl_confirm_timeout (cm_limits m) of Some t \<Rightarrow> now - prepared_at \<ge> t | None \<Rightarrow> False)
      | None \<Rightarrow> False)"

definition handshake_deadline ::
  "instant \<Rightarrow> ClientSessionManager \<Rightarrow> ManagerEvent list \<times> ClientSessionManager" where
  "handshake_deadline now m =
     (case cm_hs m of
        None \<Rightarrow> ([], m)
      | Some hs \<Rightarrow>
          let past_deadline = (case sl_handshake_timeout (cm_limits m) of
                  Some t \<Rightarrow> (case cm_hs_started m of Some s \<Rightarrow> now - s \<ge> t | None \<Rightarrow> False)
                | None \<Rightarrow> False)
          in if past_deadline
             then ([ME_Closed (ch_session hs) CR_HandshakeTimeout],
                   m\<lparr>cm_hs := None, cm_hs_started := None, cm_rearm_requested := True\<rparr>)
             else ([], m))"

definition lifetime_deadline ::
  "primitives \<Rightarrow> instant \<Rightarrow> ClientSessionManager \<Rightarrow> ManagerEvent list \<times> ClientSessionManager" where
  "lifetime_deadline P now m =
     (case cm_prepared_at m of
        None \<Rightarrow> ([], m)
      | Some prepared_at \<Rightarrow>
          let past_cap = (case sl_lifetime_cap (cm_limits m) of Some t \<Rightarrow> now - prepared_at \<ge> t | None \<Rightarrow> False)
          in if past_cap then close_now P CR_LifetimeCap now m else ([], m))"

definition client_manager_tick ::
  "primitives \<Rightarrow> instant \<Rightarrow> instant \<Rightarrow> ClientSessionManager \<Rightarrow> ManagerEvent list \<times> ClientSessionManager" where
  "client_manager_tick P log_now now m =
     (let (o1, m1) = handshake_deadline now m;
          (o2, m2) = lifetime_deadline P now m1;
          (o3, m3) = (if confirm_deadline_passed now m2 then close_now P CR_NotConfirmed now m2 else ([], m2));
          (o4, m4) = (if cm_ready m3 \<and> cm_rounds_unanswered m3 \<ge> sl_liveness_rounds (cm_limits m3)
                      then close_now P CR_PeerUnresponsive now m3 else ([], m3));
          (dropped, m5) = expire_queued log_now now m4;
          o5 = (if dropped > 0 then [ME_OutboundDropped (cm_dropped_outbound m5)] else []);
          drained = cm_pending_closed m5;
          (resent, closes) = retransmit_closes P now (cm_pending_closes m5)
      in (o1 @ o2 @ o3 @ o4 @ o5 @ drained @ resent, m5\<lparr>cm_pending_closed := [], cm_pending_closes := closes\<rparr>))"

section \<open>Bounded histories\<close>

definition history_ok :: "nat \<Rightarrow> bytes set \<Rightarrow> bytes list \<Rightarrow> bool" where
  "history_ok cap sids order \<longleftrightarrow> sids = set order \<and> distinct order \<and> length order \<le> cap"

text \<open>The loop keeps the newest entries.\<close>

lemma forget_oldest_drop:
  "distinct order \<Longrightarrow>
   forget_oldest cap (set order) order = (set (drop (length order - cap) order), drop (length order - cap) order)"
proof (induction order)
  case (Cons old order)
  have "set (old # order) - {old} = set order" using Cons.prems by auto
  then show ?case using Cons by (simp add: Suc_diff_le)
qed simp

lemma history_add:
  assumes "history_ok cap sids order" "sid \<notin> sids" "0 < cap"
    and "forget_oldest cap (insert sid sids) (order @ [sid]) = (sids1, order1)"
  shows "history_ok cap sids1 order1" "sid \<in> sids1" "sids1 \<subseteq> insert sid sids"
proof -
  let ?o = "order @ [sid]" let ?k = "length ?o - cap"
  have d: "distinct ?o" using assms(1,2) by (auto simp: history_ok_def)
  have "insert sid sids = set ?o" using assms(1) by (simp add: history_ok_def)
  then have e: "sids1 = set (drop ?k ?o)" "order1 = drop ?k ?o" using assms(4) forget_oldest_drop [OF d, of cap] by auto
  have "distinct (drop ?k ?o)" by (rule distinct_drop [OF d])
  then show "history_ok cap sids1 order1" unfolding history_ok_def e by (simp del: drop_append)
  have "?k \<le> length order" using assms(1,3) by (simp add: history_ok_def)
  then show "sid \<in> sids1" by (simp add: e)
  show "sids1 \<subseteq> insert sid sids" using e(1) set_drop_subset [of ?k ?o] assms(1) by (auto simp: history_ok_def)
qed

lemma not_exhausted_le_succ: "\<not> is_counter_exhausted c \<Longrightarrow> c \<le> c + 1"
  using not_exhausted_succ(2) [of c] by (simp add: word_le_nat_alt)

section \<open>The session a client holds\<close>

text \<open>A session whose probe found the nonces exhausted stays held in the rekey state.\<close>

definition client_session :: "WireSession \<Rightarrow> bool" where
  "client_session s \<longleftrightarrow> wire_inv s \<and> ws_role s = Client \<and> ws_state s \<in> {Established, Rekey}"

text \<open>The later session is the earlier one: same id, same keys, no counter reset, no window reset.\<close>

definition window_continues :: "u64 option \<Rightarrow> u64 option \<Rightarrow> bool" where
  "window_continues before after =
     (case before of None \<Rightarrow> True | Some h \<Rightarrow> (case after of None \<Rightarrow> False | Some h1 \<Rightarrow> h \<le> h1))"

definition continues :: "WireSession \<Rightarrow> WireSession \<Rightarrow> bool" where
  "continues s s1 \<longleftrightarrow> ws_session_id s1 = ws_session_id s \<and> ws_role s1 = ws_role s \<and>
     send_key (ws_cipher s1) = send_key (ws_cipher s) \<and> recv_key (ws_cipher s1) = recv_key (ws_cipher s) \<and>
     send_prefix (ws_cipher s1) = send_prefix (ws_cipher s) \<and> recv_prefix (ws_cipher s1) = recv_prefix (ws_cipher s) \<and>
     cs_send_counter (ws_cipher s) \<le> cs_send_counter (ws_cipher s1) \<and>
     window_continues (recv_highest (ws_cipher s)) (recv_highest (ws_cipher s1))"

lemma window_continues_refl [simp]: "window_continues h h"
  by (simp add: window_continues_def split: option.split)

lemma window_continues_trans: "window_continues a b \<Longrightarrow> window_continues b c \<Longrightarrow> window_continues a c"
  by (auto simp: window_continues_def split: option.splits)

lemma accept_continues: "window_continues (rw_highest w) (rw_highest (snd (replay_accept c w)))"
  by (auto simp: window_continues_def replay_accept_def Let_def split: option.splits)

lemma continues_refl [simp]: "continues s s" "continues s (s\<lparr>ws_state := st\<rparr>)"
  by (simp_all add: continues_def)

lemma continues_trans: "continues s t \<Longrightarrow> continues t u \<Longrightarrow> continues s u"
  by (auto simp: continues_def intro: window_continues_trans)

lemma decrypt_cipher_continues:
  obtains rw where "snd (cipher_decrypt P pkt c) = c\<lparr>cs_replay := rw\<rparr>" "window_continues (rw_highest (cs_replay c)) (rw_highest rw)"
proof (cases "snd (cipher_decrypt P pkt c) = c")
  case True
  then show thesis using that [of "cs_replay c"] by simp
next
  case False
  then obtain h :: PacketHeader and res rw where "replay_accept (ph_packet_nonce h) (cs_replay c) = (res, rw)"
    "snd (cipher_decrypt P pkt c) = c\<lparr>cs_replay := rw\<rparr>"
    using decrypt_state [of P pkt c] by blast
  then show thesis using that accept_continues [of "cs_replay c" "ph_packet_nonce h"] by simp
qed

lemma encrypt_continues:
  assumes s: "client_session s" and e: "wire_encrypt P mt payload s = (res, s1)"
  shows "client_session s1 \<and> continues s s1"
proof -
  have inv: "wire_inv s" using s by (simp add: client_session_def)
  have inv1: "wire_inv s1" using wire_encrypt_inv [OF inv, of P mt payload] e by simp
  show ?thesis
  proof (cases rule: wire_encrypt_cases [of s P mt payload])
    case (sent pkt c)
    have wf: "cipher_wf (ws_cipher s)" using inv by (simp add: wire_inv_def)
    have c: "c = (ws_cipher s)\<lparr>cs_send_counter := cs_send_counter (ws_cipher s) + 1\<rparr>"
      by (rule encrypt_okD(1) [OF wf sent(2)])
    have "cs_send_counter (ws_cipher s) \<le> cs_send_counter (ws_cipher s) + 1"
      using not_exhausted_le_succ [OF encrypt_okD(2) [OF wf sent(2)]] .
    then show ?thesis using sent e inv1 s c
      by (auto simp: client_session_def continues_def send_key_def recv_key_def send_prefix_def recv_prefix_def
          recv_highest_def split: Role.split)
  qed (use e s inv1 in \<open>auto simp: client_session_def\<close>)
qed

lemma cover_continues:
  assumes "client_session s" "wire_cover P rnd s = (res, s1)"
  shows "client_session s1 \<and> continues s s1"
  using assms encrypt_continues [OF assms(1)] by (cases rnd) (auto simp: wire_cover_eq)

lemma decrypt_continues:
  assumes s: "client_session s" and d: "wire_decrypt P pkt s = (res, s1)"
  shows "client_session s1 \<and> continues s s1"
proof -
  have inv1: "wire_inv s1" using wire_decrypt_inv [of s P pkt] s d by (simp add: client_session_def)
  obtain rw where rw: "snd (cipher_decrypt P pkt (ws_cipher s)) = (ws_cipher s)\<lparr>cs_replay := rw\<rparr>"
    "window_continues (rw_highest (cs_replay (ws_cipher s))) (rw_highest rw)"
    by (rule decrypt_cipher_continues)
  note u = client_session_def continues_def send_key_def recv_key_def send_prefix_def recv_prefix_def recv_highest_def
  show ?thesis
    by (cases rule: wire_decrypt_cases [of s P pkt]) (use d s inv1 rw in \<open>auto simp: u split: Role.split\<close>)
qed

lemma established_client:
  assumes "wire_established P now Client outcome = Inr s" "length (ho_session_id outcome) = 8"
  shows "client_session s" "ws_session_id s = ho_session_id outcome"
  using established_session_ok [OF assms] by (auto simp: client_session_def session_ok_def)

section \<open>Invariant\<close>

definition client_mgr_inv :: "primitives \<Rightarrow> ClientSessionManager \<Rightarrow> bool" where
  "client_mgr_inv P m \<longleftrightarrow>
     (cm_hs m = None \<or> cm_session m = None) \<and>
     (case cm_hs m of None \<Rightarrow> True
      | Some h \<Rightarrow> client_inv P h \<and> length (ch_session h) = 8 \<and> ch_cfg h = cm_cfg m \<and> cm_hs_started m \<noteq> None) \<and>
     (case cm_session m of None \<Rightarrow> \<not> cm_ready m \<and> cm_prepared_at m = None \<and> cm_next_probe_at m = None
      | Some s \<Rightarrow> client_session s \<and> ws_session_id s \<notin> cm_retired_sids m \<and>
          cm_prepared_at m \<noteq> None \<and> cm_next_probe_at m \<noteq> None) \<and>
     history_ok SID_HISTORY_CAP (cm_used_sids m) (cm_used_order m) \<and>
     history_ok RETIRED_SID_CAP (cm_retired_sids m) (cm_retired_order m) \<and>
     length (cm_out_queue m) \<le> OUTBOUND_QUEUE_CAP \<and>
     cm_m3_attempts m \<le> ccf_m3_max_attempts (cm_cfg m) \<and>
     (\<forall>pc \<in> set (cm_pending_closes m). close_ok pc)"

lemma client_mgr_invD:
  assumes "client_mgr_inv P m"
  shows "cm_hs m = None \<or> cm_session m = None"
    "cm_hs m = Some h \<Longrightarrow> client_inv P h \<and> length (ch_session h) = 8 \<and> ch_cfg h = cm_cfg m \<and> cm_hs_started m \<noteq> None"
    "cm_session m = None \<Longrightarrow> \<not> cm_ready m \<and> cm_prepared_at m = None \<and> cm_next_probe_at m = None"
    "cm_session m = Some s \<Longrightarrow> client_session s \<and> ws_session_id s \<notin> cm_retired_sids m \<and>
       cm_prepared_at m \<noteq> None \<and> cm_next_probe_at m \<noteq> None"
    "history_ok SID_HISTORY_CAP (cm_used_sids m) (cm_used_order m)"
    "history_ok RETIRED_SID_CAP (cm_retired_sids m) (cm_retired_order m)"
    "length (cm_out_queue m) \<le> OUTBOUND_QUEUE_CAP" "cm_m3_attempts m \<le> ccf_m3_max_attempts (cm_cfg m)"
    "pc \<in> set (cm_pending_closes m) \<Longrightarrow> close_ok pc"
  using assms by (auto simp: client_mgr_inv_def)

text \<open>The tunnel is up, coming up, or asks to be re-armed.\<close>

definition alive :: "ClientSessionManager \<Rightarrow> bool" where
  "alive m \<longleftrightarrow> cm_hs m \<noteq> None \<or> cm_session m \<noteq> None \<or> cm_rearm_requested m"

text \<open>A session that goes leaves its id among the retired ones; nothing else retires an id.\<close>

definition retires :: "ClientSessionManager \<Rightarrow> ClientSessionManager \<Rightarrow> bool" where
  "retires m m1 \<longleftrightarrow>
     (case cm_session m of None \<Rightarrow> cm_retired_sids m1 = cm_retired_sids m
      | Some s \<Rightarrow> (if cm_session m1 = None then ws_session_id s \<in> cm_retired_sids m1
                   else cm_retired_sids m1 = cm_retired_sids m))"

text \<open>What runs keeps running: no handshake appears, and a kept session neither loses its confirmation
  nor gets its M3 retransmissions back.\<close>

definition quiet :: "ClientSessionManager \<Rightarrow> ClientSessionManager \<Rightarrow> bool" where
  "quiet m m1 \<longleftrightarrow> (cm_hs m1 \<noteq> None \<longrightarrow> cm_hs m \<noteq> None) \<and>
     (cm_session m1 \<noteq> None \<longrightarrow> (cm_ready m \<longrightarrow> cm_ready m1) \<and> (cm_m3_exhausted m \<longrightarrow> cm_m3_exhausted m1))"

text \<open>What every operation but the one that adopts a session does to the state.\<close>

definition settles :: "primitives \<Rightarrow> ClientSessionManager \<Rightarrow> ClientSessionManager \<Rightarrow> bool" where
  "settles P m m1 \<longleftrightarrow> client_mgr_inv P m1 \<and> cm_cfg m1 = cm_cfg m \<and> cm_limits m1 = cm_limits m \<and>
     (alive m \<longrightarrow> alive m1) \<and>
     (case cm_session m1 of None \<Rightarrow> True
      | Some s1 \<Rightarrow> (case cm_session m of None \<Rightarrow> False | Some s \<Rightarrow> continues s s1)) \<and>
     retires m m1 \<and> quiet m m1"

lemma settles_refl: "client_mgr_inv P m \<Longrightarrow> settles P m m"
  by (simp add: settles_def quiet_def retires_def split: option.split)

lemma settles_inv: "settles P m m1 \<Longrightarrow> client_mgr_inv P m1"
  by (simp add: settles_def)

lemma settles_trans: "settles P m m1 \<Longrightarrow> settles P m1 m2 \<Longrightarrow> settles P m m2"
  by (auto simp: settles_def quiet_def retires_def continues_def split: option.splits intro: window_continues_trans)

lemma settles_frame [simp]:
  "settles P m (m1\<lparr>cm_dropped_outbound := d\<rparr>) = settles P m m1" "settles P m (m1\<lparr>cm_last_drop_log := t\<rparr>) = settles P m m1"
  "settles P m (m1\<lparr>cm_last_slot_at := t\<rparr>) = settles P m m1" "settles P m (m1\<lparr>cm_pending_closed := evs\<rparr>) = settles P m m1"
  "settles P m (m1\<lparr>cm_peer := a\<rparr>) = settles P m m1" "settles P m (m1\<lparr>cm_rounds_unanswered := n\<rparr>) = settles P m m1"
  "settles P m (m1\<lparr>cm_m3_frags := ps\<rparr>) = settles P m m1"
  by (simp_all add: settles_def client_mgr_inv_def alive_def quiet_def retires_def cong: option.case_cong)

lemma settles_session:
  assumes "client_mgr_inv P m" "cm_session m = Some s" "client_session s1 \<and> continues s s1"
  shows "settles P m (m\<lparr>cm_session := Some s1\<rparr>)"
proof -
  have "ws_session_id s1 = ws_session_id s" using assms(3) by (simp add: continues_def)
  then show ?thesis using assms by (simp add: settles_def client_mgr_inv_def alive_def quiet_def retires_def cong: option.case_cong)
qed

lemma settles_queue:
  "client_mgr_inv P m \<Longrightarrow> length q \<le> OUTBOUND_QUEUE_CAP \<Longrightarrow> settles P m (m\<lparr>cm_out_queue := q\<rparr>)"
  by (auto simp: settles_def client_mgr_inv_def alive_def quiet_def retires_def split: option.splits)

lemma settles_probe:
  "client_mgr_inv P m \<Longrightarrow> cm_next_probe_at m \<noteq> None \<Longrightarrow> settles P m (m\<lparr>cm_next_probe_at := Some t\<rparr>)"
  using client_mgr_invD(3) [of P m]
  by (auto simp: settles_def client_mgr_inv_def alive_def quiet_def retires_def split: option.splits)

lemma settles_exhausted: "client_mgr_inv P m \<Longrightarrow> settles P m (m\<lparr>cm_m3_exhausted := True\<rparr>)"
  by (auto simp: settles_def client_mgr_inv_def alive_def quiet_def retires_def split: option.splits)

lemma settles_ready:
  "client_mgr_inv P m \<Longrightarrow> cm_session m \<noteq> None \<Longrightarrow> settles P m (m\<lparr>cm_ready := True\<rparr>)"
  by (auto simp: settles_def client_mgr_inv_def alive_def quiet_def retires_def split: option.splits)

lemma settles_closes:
  "client_mgr_inv P m \<Longrightarrow> (\<And>pc. pc \<in> set pcs \<Longrightarrow> close_ok pc) \<Longrightarrow> settles P m (m\<lparr>cm_pending_closes := pcs\<rparr>)"
  by (auto simp: settles_def client_mgr_inv_def alive_def quiet_def retires_def split: option.splits)

lemma settles_attempts:
  "client_mgr_inv P m \<Longrightarrow> n \<le> ccf_m3_max_attempts (cm_cfg m) \<Longrightarrow> settles P m (m\<lparr>cm_m3_attempts := n\<rparr>)"
  by (auto simp: settles_def client_mgr_inv_def alive_def quiet_def retires_def split: option.splits)

text \<open>A handshake that ends asks to be re-armed.\<close>

lemma settles_drop_hs:
  "client_mgr_inv P m \<Longrightarrow> settles P m (m\<lparr>cm_hs := None, cm_hs_started := None, cm_rearm_requested := True\<rparr>)"
  by (auto simp: settles_def client_mgr_inv_def alive_def quiet_def retires_def split: option.splits)

lemma settles_hs:
  assumes "client_mgr_inv P m" "cm_hs m = Some h" "client_inv P h1" "ch_session h1 = ch_session h" "ch_cfg h1 = ch_cfg h"
  shows "settles P m (m\<lparr>cm_hs := Some h1\<rparr>)"
  using assms by (auto simp: settles_def client_mgr_inv_def alive_def quiet_def retires_def split: option.splits)

lemma client_manager_new_inv: "client_manager_new cfg limits = Inr m \<Longrightarrow> client_mgr_inv P m"
  by (auto simp: client_manager_new_def client_mgr_inv_def history_ok_def split: if_splits sum.splits)

section \<open>Tearing down keeps the invariant\<close>

lemma teardown_base:
  assumes inv: "client_mgr_inv P m" and s: "cm_session m = Some s"
  defines "m1 \<equiv> retire_sid (ws_session_id s)
    (m\<lparr>cm_session := None, cm_ready := False, cm_prepared_at := None, cm_m3_frags := [], cm_m3_attempts := 0,
       cm_m3_exhausted := True, cm_next_probe_at := None, cm_rounds_unanswered := 0, cm_rearm_requested := True\<rparr>)"
  shows "settles P m m1" "cm_session m1 = None" "cm_rearm_requested m1" "cm_hs m1 = None" "ws_session_id s \<in> cm_retired_sids m1"
    "cm_pending_closes m1 = cm_pending_closes m" "cm_peer m1 = cm_peer m"
proof -
  note d = client_mgr_invD [OF inv]
  have new: "ws_session_id s \<notin> cm_retired_sids m" using d(4) [OF s] by blast
  obtain sids order where f: "forget_oldest RETIRED_SID_CAP (insert (ws_session_id s) (cm_retired_sids m))
      (cm_retired_order m @ [ws_session_id s]) = (sids, order)" by fastforce
  have h: "history_ok RETIRED_SID_CAP sids order" "ws_session_id s \<in> sids"
    using history_add [OF d(6) new _ f] by (simp_all add: RETIRED_SID_CAP_def)
  have m1: "m1 = m\<lparr>cm_session := None, cm_ready := False, cm_prepared_at := None, cm_m3_frags := [], cm_m3_attempts := 0,
      cm_m3_exhausted := True, cm_next_probe_at := None, cm_rounds_unanswered := 0, cm_rearm_requested := True,
      cm_retired_sids := sids, cm_retired_order := order\<rparr>"
    using new f by (simp add: m1_def retire_sid_def)
  have hs: "cm_hs m = None" using d(1) s by simp
  show "settles P m m1" using inv h hs s by (simp add: m1 settles_def client_mgr_inv_def alive_def quiet_def retires_def)
  show "cm_session m1 = None" "cm_rearm_requested m1" "cm_hs m1 = None" "ws_session_id s \<in> cm_retired_sids m1"
    "cm_pending_closes m1 = cm_pending_closes m" "cm_peer m1 = cm_peer m"
    using hs h(2) by (simp_all add: m1)
qed

lemma teardown_effect:
  assumes inv: "client_mgr_inv P m"
  shows "settles P m (snd (teardown P now b m))" "cm_session (snd (teardown P now b m)) = None"
    "cm_session m = Some s \<Longrightarrow> cm_rearm_requested (snd (teardown P now b m)) \<and> ws_session_id s \<in> cm_retired_sids (snd (teardown P now b m))"
proof -
  have "settles P m (snd (teardown P now b m)) \<and> cm_session (snd (teardown P now b m)) = None \<and>
    (\<forall>s. cm_session m = Some s \<longrightarrow> cm_rearm_requested (snd (teardown P now b m)) \<and>
       ws_session_id s \<in> cm_retired_sids (snd (teardown P now b m)))"
  proof (cases "cm_session m")
    case None
    then show ?thesis using settles_refl [OF inv] by (simp add: teardown_def)
  next
    case (Some s)
    define m1 where "m1 = retire_sid (ws_session_id s)
      (m\<lparr>cm_session := None, cm_ready := False, cm_prepared_at := None, cm_m3_frags := [], cm_m3_attempts := 0,
         cm_m3_exhausted := True, cm_next_probe_at := None, cm_rounds_unanswered := 0, cm_rearm_requested := True\<rparr>)"
    note t = teardown_base [OF inv Some, folded m1_def]
    obtain res s1 where w: "wire_encrypt P Close (replicate PAYLOAD_LEN 0) s = (res, s1)" by fastforce
    have "wire_inv s" using client_mgr_invD(4) [OF inv Some] by (simp add: client_session_def)
    from first_close_ok [OF this w] have ok: "close_ok \<lparr>pc_session = s1, pc_peer = peer,
        pc_attempts_left = CLOSE_RETRANSMIT_TOTAL - 1, pc_next_at = at\<rparr>" for peer at .
    have "settles P m1 (m1\<lparr>cm_pending_closes := cm_pending_closes m1 @ [\<lparr>pc_session = s1, pc_peer = cm_peer m1,
        pc_attempts_left = CLOSE_RETRANSMIT_TOTAL - 1, pc_next_at = now + CLOSE_RETRANSMIT_BASE\<rparr>]\<rparr>)"
      by (rule settles_closes [OF settles_inv [OF t(1)]]) (use ok client_mgr_invD(9) [OF settles_inv [OF t(1)]] in auto)
    from settles_trans [OF t(1) this] show ?thesis
      using t Some w by (simp add: teardown_def m1_def [symmetric] Let_def split: sum.split)
  qed
  then show "settles P m (snd (teardown P now b m))" "cm_session (snd (teardown P now b m)) = None"
    "cm_session m = Some s \<Longrightarrow> cm_rearm_requested (snd (teardown P now b m)) \<and> ws_session_id s \<in> cm_retired_sids (snd (teardown P now b m))"
    by blast+
qed

section \<open>Every operation keeps the invariant\<close>

lemma build_probe_settles:
  assumes inv: "client_mgr_inv P m"
  shows "settles P m (snd (build_probe P m))"
proof (cases "cm_session m")
  case None
  then show ?thesis using settles_refl [OF inv] by (simp add: build_probe_def)
next
  case (Some s)
  obtain res s1 where w: "wire_encrypt P Handshake (control_payload CONTROL_PROBE) s = (res, s1)" by fastforce
  have "client_session s" using client_mgr_invD(4) [OF inv Some] by blast
  from settles_session [OF inv Some encrypt_continues [OF this w]] show ?thesis
    using Some w by (simp add: build_probe_def)
qed

lemma session_then_teardown:
  assumes "client_mgr_inv P m" "cm_session m = Some s" "client_session s1 \<and> continues s s1"
  shows "settles P m (snd (teardown P now b (m\<lparr>cm_session := Some s1\<rparr>)))"
  using settles_session [OF assms] teardown_effect(1) [OF settles_inv [OF settles_session [OF assms]]]
  by (rule settles_trans)

text \<open>The senders share their last step.\<close>

lemma client_emit_settles:
  assumes "settles P m m1" "settles P m m2"
  shows "settles P m (snd (case res of
      Inr packet \<Rightarrow> (Inr (ME_SendPacket packet peer), m1)
    | Inl SE_RekeyRequired \<Rightarrow> (Inr (ME_Closed sid CR_NonceExhausted), m2)
    | Inl e \<Rightarrow> (Inl (MgrSession e), m1)))"
  using assms by (simp split: sum.split SessionError.split)

lemma client_send_settles:
  assumes inv: "client_mgr_inv P m"
  shows "settles P m (snd (client_send_encrypted P now mt payload m))"
proof (cases "cm_session m")
  case None
  then show ?thesis using settles_refl [OF inv] by (simp add: client_send_encrypted_def)
next
  case (Some s)
  obtain res s1 where w: "wire_encrypt P mt payload s = (res, s1)" by fastforce
  have "client_session s" using client_mgr_invD(4) [OF inv Some] by blast
  note c = encrypt_continues [OF this w]
  show ?thesis
    using client_emit_settles [OF settles_session [OF inv Some c] session_then_teardown [OF inv Some c]] Some w
    by (simp add: client_send_encrypted_def Let_def)
qed

lemma client_cover_settles:
  assumes inv: "client_mgr_inv P m"
  shows "settles P m (snd (client_cover_packet P rnd now m))"
proof (cases "cm_session m")
  case None
  then show ?thesis using settles_refl [OF inv] by (simp add: client_cover_packet_def)
next
  case (Some s)
  obtain res s1 where w: "wire_cover P rnd s = (res, s1)" by fastforce
  have "client_session s" using client_mgr_invD(4) [OF inv Some] by blast
  note c = cover_continues [OF this w]
  show ?thesis
    using client_emit_settles [OF settles_session [OF inv Some c] session_then_teardown [OF inv Some c]] Some w
    by (simp add: client_cover_packet_def Let_def)
qed

lemma log_drop_settles [simp]: "settles P m (log_drop now m1) = settles P m m1"
  by (simp add: log_drop_def split: option.split)

lemma enqueue_settles: "client_mgr_inv P m \<Longrightarrow> settles P m (snd (enqueue now payload m))"
  by (auto simp: enqueue_def Let_def settles_refl intro: settles_queue)

lemma expire_settles:
  assumes "client_mgr_inv P m"
  shows "settles P m (snd (expire_queued log_now now m))"
proof -
  have "settles P m (m\<lparr>cm_out_queue := filter (\<lambda>q. now - qp_queued_at q < OUTBOUND_QUEUE_TTL) (cm_out_queue m)\<rparr>)"
    by (rule settles_queue [OF assms]) (use client_mgr_invD(7) [OF assms] length_filter_le le_trans in blast)
  then show ?thesis by (simp add: expire_queued_def Let_def)
qed

lemma client_outbound_settles:
  assumes "client_mgr_inv P m"
  shows "settles P m (snd (client_app_outbound P now payload m))" "settles P m (snd (client_tun_outbound P now payload m))"
  using settles_refl [OF assms] enqueue_settles [OF assms] client_send_settles [OF assms]
  by (simp_all add: client_app_outbound_def client_tun_outbound_def Let_def)

lemma take_queued_settles:
  assumes inv: "client_mgr_inv P m"
  shows "settles P m (snd (take_queued_payload P log_now closed_at now m))"
proof -
  obtain d m1 where x: "expire_queued log_now now m = (d, m1)" by fastforce
  have s1: "settles P m m1" using expire_settles [OF inv, of log_now now] by (simp add: x)
  show ?thesis
  proof (cases "cm_out_queue m1")
    case Nil
    then show ?thesis using s1 x by (simp add: take_queued_payload_def)
  next
    case (Cons q rest)
    have "length rest \<le> OUTBOUND_QUEUE_CAP" using client_mgr_invD(7) [OF settles_inv [OF s1]] Cons by simp
    then have s2: "settles P m1 (m1\<lparr>cm_out_queue := rest\<rparr>)" by (rule settles_queue [OF settles_inv [OF s1]])
    show ?thesis
      using settles_trans [OF settles_trans [OF s1 s2] client_send_settles [OF settles_inv [OF s2]]] Cons x
      by (simp add: take_queued_payload_def Let_def case_prod_beta)
  qed
qed

lemma take_probe_settles:
  assumes inv: "client_mgr_inv P m"
  shows "settles P m (snd (take_probe P now m))"
proof (cases "\<exists>due. cm_next_probe_at m = Some due \<and> due \<le> now")
  case False
  then show ?thesis using settles_refl [OF inv] by (auto simp: take_probe_def not_less split: option.split)
next
  case True
  let ?m0 = "m\<lparr>cm_next_probe_at := Some (now + sl_liveness_probe_interval (cm_limits m))\<rparr>"
  obtain p m1 where b: "build_probe P ?m0 = (p, m1)" by fastforce
  have s0: "settles P m ?m0" by (rule settles_probe [OF inv]) (use True in auto)
  have "settles P m m1" using settles_trans [OF s0 build_probe_settles [OF settles_inv [OF s0]]] by (simp add: b)
  then show ?thesis using True b by (auto simp: take_probe_def Let_def split: option.split)
qed

lemma take_slot_settles:
  assumes inv: "client_mgr_inv P m"
  shows "settles P m (snd (take_slot P log_now closed_at now m))"
proof -
  obtain e1 m1 where a: "take_queued_payload P log_now closed_at now m = (e1, m1)" by fastforce
  obtain e2 m2 where b: "take_probe P now m1 = (e2, m2)" by fastforce
  have s1: "settles P m m1" using take_queued_settles [OF inv, of log_now closed_at now] by (simp add: a)
  have s2: "settles P m m2" using settles_trans [OF s1 take_probe_settles [OF settles_inv [OF s1], of now]] by (simp add: b)
  show ?thesis using settles_refl [OF inv] s1 s2 a b by (simp add: take_slot_def split: option.split)
qed

lemma close_now_settles: "client_mgr_inv P m \<Longrightarrow> settles P m (snd (close_now P reason now m))"
  using settles_refl teardown_effect(1) by (simp add: close_now_def Let_def case_prod_beta split: option.split)

lemma client_close_settles: "client_mgr_inv P m \<Longrightarrow> settles P m (snd (client_close P now m))"
  using settles_refl teardown_effect(1) by (simp add: client_close_def Let_def case_prod_beta split: option.split)

lemma handshake_deadline_settles: "client_mgr_inv P m \<Longrightarrow> settles P m (snd (handshake_deadline now m))"
  using settles_refl settles_drop_hs by (simp add: handshake_deadline_def Let_def split: option.split)

lemma lifetime_deadline_settles: "client_mgr_inv P m \<Longrightarrow> settles P m (snd (lifetime_deadline P now m))"
  using settles_refl close_now_settles by (simp add: lifetime_deadline_def Let_def split: option.split)

text \<open>The stages of a tick.\<close>

definition confirm_stage ::
  "primitives \<Rightarrow> instant \<Rightarrow> ClientSessionManager \<Rightarrow> ManagerEvent list \<times> ClientSessionManager" where
  "confirm_stage P now m = (if confirm_deadline_passed now m then close_now P CR_NotConfirmed now m else ([], m))"

definition liveness_stage ::
  "primitives \<Rightarrow> instant \<Rightarrow> ClientSessionManager \<Rightarrow> ManagerEvent list \<times> ClientSessionManager" where
  "liveness_stage P now m =
     (if cm_ready m \<and> cm_rounds_unanswered m \<ge> sl_liveness_rounds (cm_limits m)
      then close_now P CR_PeerUnresponsive now m else ([], m))"

definition deadlines ::
  "primitives \<Rightarrow> instant \<Rightarrow> ClientSessionManager \<Rightarrow> ManagerEvent list \<times> ClientSessionManager" where
  "deadlines P now m =
     (let (o1, m1) = handshake_deadline now m; (o2, m2) = lifetime_deadline P now m1;
          (o3, m3) = confirm_stage P now m2; (o4, m4) = liveness_stage P now m3
      in (o1 @ o2 @ o3 @ o4, m4))"

lemma client_tick_eq:
  "client_manager_tick P log_now now m =
     (let (evs, m4) = deadlines P now m;
          (dropped, m5) = expire_queued log_now now m4;
          (resent, closes) = retransmit_closes P now (cm_pending_closes m5)
      in (evs @ (if dropped > 0 then [ME_OutboundDropped (cm_dropped_outbound m5)] else []) @ cm_pending_closed m5 @ resent,
          m5\<lparr>cm_pending_closed := [], cm_pending_closes := closes\<rparr>))"
  by (simp add: client_manager_tick_def deadlines_def confirm_stage_def liveness_stage_def Let_def case_prod_beta)

lemma stage_settles:
  assumes "client_mgr_inv P m"
  shows "settles P m (snd (confirm_stage P now m))" "settles P m (snd (liveness_stage P now m))"
  using settles_refl [OF assms] close_now_settles [OF assms] by (simp_all add: confirm_stage_def liveness_stage_def)

lemma deadlines_settles:
  assumes inv: "client_mgr_inv P m"
  shows "settles P m (snd (deadlines P now m))"
proof -
  let ?m1 = "snd (handshake_deadline now m)" and ?m2 = "\<lambda>m. snd (lifetime_deadline P now m)"
  have s1: "settles P m ?m1" by (rule handshake_deadline_settles [OF inv])
  have s2: "settles P m (?m2 ?m1)" by (rule settles_trans [OF s1 lifetime_deadline_settles [OF settles_inv [OF s1]]])
  have s3: "settles P m (snd (confirm_stage P now (?m2 ?m1)))" by (rule settles_trans [OF s2 stage_settles(1) [OF settles_inv [OF s2]]])
  show ?thesis
    using settles_trans [OF s3 stage_settles(2) [OF settles_inv [OF s3], of now]] by (simp add: deadlines_def Let_def case_prod_beta)
qed

lemma client_tick_settles:
  assumes inv: "client_mgr_inv P m"
  shows "settles P m (snd (client_manager_tick P log_now now m))"
proof -
  let ?m4 = "snd (deadlines P now m)" let ?m5 = "snd (expire_queued log_now now ?m4)"
  have s4: "settles P m ?m4" by (rule deadlines_settles [OF inv])
  have s5: "settles P m ?m5" by (rule settles_trans [OF s4 expire_settles [OF settles_inv [OF s4]]])
  let ?m6 = "?m5\<lparr>cm_pending_closed := []\<rparr>"
  have s6: "settles P m ?m6" using s5 by simp
  note i6 = settles_inv [OF s6]
  have "settles P ?m6 (?m6\<lparr>cm_pending_closes := snd (retransmit_closes P now (cm_pending_closes ?m6))\<rparr>)"
    by (rule settles_closes [OF i6]) (use retransmit_closes_ok client_mgr_invD(9) [OF i6] in blast)
  from settles_trans [OF s6 this] show ?thesis by (simp add: client_tick_eq Let_def case_prod_beta)
qed

section \<open>The data path\<close>

text \<open>The branches of the data path; a session left in the rekey state answers with an error.\<close>

lemma client_data_cases:
  assumes inv: "client_mgr_inv P m"
  obtains (ignored) "client_on_data_packet P now pkt from m = (Inr ME_None, m)"
  | (stuck) s where "cm_session m = Some s" "ws_state s = Rekey"
      "client_on_data_packet P now pkt from m = (Inl (MgrSession (SE_WrongState Established Rekey)), m)"
  | (refused) s s1 e where "cm_session m = Some s" "wire_decrypt P pkt s = (Inl (SE_Codec e), s1)"
      "client_on_data_packet P now pkt from m = (Inr ME_None, m\<lparr>cm_session := Some s1\<rparr>)"
  | (exhausted) s s1 where "cm_session m = Some s" "wire_decrypt P pkt s = (Inl SE_RekeyRequired, s1)"
      "client_on_data_packet P now pkt from m =
         (Inr (ME_Closed (ws_session_id s) CR_NonceExhausted), snd (teardown P now True (m\<lparr>cm_session := Some s1\<rparr>)))"
  | (closed) s s1 inner where "cm_session m = Some s" "wire_decrypt P pkt s = (Inr inner, s1)" "ip_msg_type inner = Close"
      "client_on_data_packet P now pkt from m = (Inr (ME_Closed (ws_session_id s) CR_PeerClosed),
         snd (teardown P now False (m\<lparr>cm_session := Some s1, cm_ready := True, cm_rounds_unanswered := 0, cm_peer := from\<rparr>)))"
  | (received) s s1 inner where "cm_session m = Some s" "wire_decrypt P pkt s = (Inr inner, s1)" "ip_msg_type inner \<noteq> Close"
      "client_on_data_packet P now pkt from m =
         (Inr (if ip_msg_type inner \<in> {Data, TunData} then ME_AppData (ws_session_id s) inner else ME_None),
          m\<lparr>cm_session := Some s1, cm_ready := True, cm_rounds_unanswered := 0, cm_peer := from\<rparr>)"
proof (cases "\<exists>s. cm_session m = Some s \<and> slice 1 (1 + SESSION_ID_LEN) (as_bytes pkt) = ws_session_id s")
  case False
  then show thesis using ignored by (auto simp: client_on_data_packet_def Let_def split: option.splits)
next
  case True
  then obtain s where s: "cm_session m = Some s" "slice 1 (1 + SESSION_ID_LEN) (as_bytes pkt) = ws_session_id s" by blast
  note u = client_on_data_packet_def Let_def
  show thesis
  proof (cases rule: wire_decrypt_cases [of s P pkt])
    case blocked
    have "ws_state s = Rekey" using client_mgr_invD(4) [OF inv s(1)] blocked(1) by (simp add: client_session_def)
    moreover have "m\<lparr>cm_session := Some s\<rparr> = m" using s(1) by simp
    ultimately show thesis using stuck [OF s(1)] blocked(2) s by (simp add: u)
  next
    case (received inner c)
    show thesis
    proof (cases "ip_msg_type inner = Close")
      case True
      then show thesis using closed [OF s(1) received(3) True] received(3) s by (simp add: u)
    next
      case False
      then show thesis
        using that(6) [OF s(1) received(3) False] received(3) s by (cases "ip_msg_type inner") (simp_all add: u)
    qed
  next
    case (rekey n c)
    then show thesis using exhausted [OF s(1) rekey(3)] s by (simp add: u)
  next
    case (failed e c)
    have ne: "e \<noteq> NonceExhausted n" for n using failed by (auto simp: wire_decrypt_def require_established_def)
    have "classify_error (SE_Codec e) \<in> {Inr DR_Failed, Inr DR_Rejected}" using ne by (cases e) auto
    then show thesis using refused [OF s(1) failed(3)] failed(3) s by (auto simp: u)
  qed
qed

lemma client_data_settles:
  assumes inv: "client_mgr_inv P m"
  shows "settles P m (snd (client_on_data_packet P now pkt from m))"
  using inv
proof (cases rule: client_data_cases [of P m now pkt "from"])
  case ignored
  then show ?thesis using settles_refl [OF inv] by simp
next
  case (stuck s)
  then show ?thesis using settles_refl [OF inv] by simp
next
  case (refused s s1 e)
  have "client_session s" using client_mgr_invD(4) [OF inv refused(1)] by blast
  from settles_session [OF inv refused(1) decrypt_continues [OF this refused(2)]] show ?thesis using refused(3) by simp
next
  case (exhausted s s1)
  have "client_session s" using client_mgr_invD(4) [OF inv exhausted(1)] by blast
  from session_then_teardown [OF inv exhausted(1) decrypt_continues [OF this exhausted(2)]] show ?thesis using exhausted(3) by simp
next
  case (closed s s1 inner)
  let ?m = "m\<lparr>cm_session := Some s1, cm_ready := True\<rparr>"
  have "client_session s" using client_mgr_invD(4) [OF inv closed(1)] by blast
  then have a: "settles P m (m\<lparr>cm_session := Some s1\<rparr>)" by (rule settles_session [OF inv closed(1) decrypt_continues [OF _ closed(2)]])
  have "settles P m ?m" using settles_trans [OF a settles_ready [OF settles_inv [OF a]]] by simp
  then have b: "settles P m (?m\<lparr>cm_rounds_unanswered := 0, cm_peer := from\<rparr>)" by simp
  show ?thesis using settles_trans [OF b teardown_effect(1) [OF settles_inv [OF b]]] closed(4) by simp
next
  case (received s s1 inner)
  have "client_session s" using client_mgr_invD(4) [OF inv received(1)] by blast
  then have a: "settles P m (m\<lparr>cm_session := Some s1\<rparr>)" by (rule settles_session [OF inv received(1) decrypt_continues [OF _ received(2)]])
  have "settles P m (m\<lparr>cm_session := Some s1, cm_ready := True\<rparr>)" using settles_trans [OF a settles_ready [OF settles_inv [OF a]]] by simp
  then show ?thesis using received(4) by simp
qed

section \<open>Handshake path and timer\<close>

text \<open>What a step may do, the adoption of a session included.\<close>

definition evolves :: "primitives \<Rightarrow> ClientSessionManager \<Rightarrow> ClientSessionManager \<Rightarrow> bool" where
  "evolves P m m1 \<longleftrightarrow> client_mgr_inv P m1 \<and> cm_cfg m1 = cm_cfg m \<and> cm_limits m1 = cm_limits m \<and>
     (alive m \<longrightarrow> alive m1) \<and>
     (case cm_session m1 of None \<Rightarrow> True
      | Some s1 \<Rightarrow> (case cm_session m of None \<Rightarrow> True | Some s \<Rightarrow> continues s s1)) \<and>
     retires m m1"

lemma settles_evolves: "settles P m m1 \<Longrightarrow> evolves P m m1"
  by (auto simp: settles_def evolves_def retires_def split: option.splits)

lemma settles_then_evolves:
  "settles P m m1 \<Longrightarrow> evolves P m1 m2 \<Longrightarrow> cm_session m = None \<Longrightarrow> evolves P m m2"
  by (auto simp: settles_def evolves_def retires_def split: option.splits)

lemma adopts_then_settles:
  assumes a: "evolves P m m1" and b: "settles P m1 m2" and n: "cm_session m = None" "cm_session m2 \<noteq> None"
  shows "evolves P m m2"
  using a b n by (auto simp: evolves_def settles_def quiet_def retires_def split: option.splits)

lemma build_probe_session: "cm_session (snd (build_probe P m)) = None \<longleftrightarrow> cm_session m = None"
  by (simp add: build_probe_def Let_def case_prod_beta split: option.split)

lemma machine_step:
  assumes inv: "client_mgr_inv P m" and h: "cm_hs m = Some h" and s: "client_step P i h = (r, h1)"
  shows "settles P m (m\<lparr>cm_hs := Some h1\<rparr>)" "r = Inr (ClientM3Sent ps out) \<Longrightarrow> length (ho_session_id out) = 8"
proof -
  have c: "client_inv P h" "length (ch_session h) = 8" using client_mgr_invD(2) [OF inv h] by auto
  note mv = client_step_moves [OF c(1) s]
  have "client_inv P h1" using client_step_inv [OF c(1), of i] s by simp
  moreover have "ch_session h1 = ch_session h" "ch_cfg h1 = ch_cfg h"
    using mv by (metis ClientHandshake.select_convs(2) ClientHandshake.surjective ClientHandshake.update_convs(7),
                 metis ClientHandshake.select_convs(1) ClientHandshake.surjective ClientHandshake.update_convs(7))
  ultimately show "settles P m (m\<lparr>cm_hs := Some h1\<rparr>)" by (intro settles_hs [OF inv h])
  show "length (ho_session_id out) = 8" if "r = Inr (ClientM3Sent ps out)"
    using mv c(2) that by (auto simp: agreed_def elim: client_moves_acceptE)
qed

text \<open>The adoption: the branches of \<open>on_m3_sent\<close> while a handshake is held.\<close>

lemma on_m3_sent_cases:
  assumes "cm_session m = None"
  obtains (retired) "ho_session_id out \<in> cm_retired_sids m" "on_m3_sent P now created ps out m = (Inr ME_None, m)"
  | (failed) e where "on_m3_sent P now created ps out m = (Inl (MgrSession e), m)"
  | (adopted) s m1 probe m2 where "ho_session_id out \<notin> cm_retired_sids m" "wire_established P created Client out = Inr s"
      "m1 = m\<lparr>cm_session := Some s, cm_hs := None, cm_hs_started := None, cm_ready := False, cm_prepared_at := Some now,
         cm_m3_frags := ps, cm_m3_attempts := 0, cm_m3_exhausted := False, cm_rounds_unanswered := 0,
         cm_next_probe_at := Some (now + sl_liveness_probe_interval (cm_limits m))\<rparr>"
      "build_probe P m1 = (probe, m2)"
      "on_m3_sent P now created ps out m =
         (Inr (ME_Send (ps @ (case probe of None \<Rightarrow> [] | Some p \<Rightarrow> [p])) (ccf_server_addr (cm_cfg m2))), m2)"
proof (cases "ho_session_id out \<in> cm_retired_sids m")
  case True
  then show thesis using retired assms by (simp add: on_m3_sent_def)
next
  case new: False
  show thesis
  proof (cases "wire_established P created Client out")
    case (Inl e)
    then show thesis using failed new assms by (simp add: on_m3_sent_def)
  next
    case (Inr s)
    let ?m1 = "m\<lparr>cm_session := Some s, cm_hs := None, cm_hs_started := None, cm_ready := False, cm_prepared_at := Some now,
         cm_m3_frags := ps, cm_m3_attempts := 0, cm_m3_exhausted := False, cm_rounds_unanswered := 0,
         cm_next_probe_at := Some (now + sl_liveness_probe_interval (cm_limits m))\<rparr>"
    obtain probe m2 where b: "build_probe P ?m1 = (probe, m2)" by fastforce
    show thesis
      by (rule adopted [OF new Inr refl b]) (use new assms Inr b in \<open>simp add: on_m3_sent_def Let_def\<close>)
  qed
qed

lemma on_m3_sent_evolves:
  assumes inv: "client_mgr_inv P m" and n: "cm_session m = None" and sid: "length (ho_session_id out) = 8"
  shows "evolves P m (snd (on_m3_sent P now created ps out m))"
  using n
proof (cases rule: on_m3_sent_cases [of m out P now created ps])
  case retired
  then show ?thesis using settles_evolves [OF settles_refl [OF inv]] by simp
next
  case (failed e)
  then show ?thesis using settles_evolves [OF settles_refl [OF inv]] by simp
next
  case (adopted s m1 probe m2)
  have "client_session s" "ws_session_id s = ho_session_id out" by (rule established_client [OF adopted(2) sid])+
  then have "evolves P m m1"
    using inv n adopted(1) by (simp add: evolves_def client_mgr_inv_def alive_def quiet_def retires_def adopted(3))
  moreover have "settles P m1 m2"
    using build_probe_settles [of P m1] calculation adopted(4) by (simp add: evolves_def)
  moreover have "cm_session m2 \<noteq> None" using build_probe_session [of P m1] adopted(3,4) by simp
  ultimately have "evolves P m m2" using adopts_then_settles [OF _ _ n] by blast
  then show ?thesis using adopted(5) by simp
qed

lemma client_handle_evolves:
  assumes inv: "client_mgr_inv P m"
  shows "evolves P m (snd (client_manager_handle P rnd jit now created pkt from m))"
proof (cases "is_handshake_fragment pkt \<and> (\<exists>h. cm_hs m = Some h)")
  case False
  then show ?thesis
    using settles_evolves [OF settles_refl [OF inv]] settles_evolves [OF client_data_settles [OF inv]]
    by (auto simp: client_manager_handle_def split: option.splits)
next
  case True
  then obtain h where h: "cm_hs m = Some h" by blast
  obtain r h1 where s: "client_step P (ClientDatagram rnd jit pkt) h = (r, h1)" by fastforce
  note ms = machine_step [OF inv h s]
  have n: "cm_session m = None" using client_mgr_invD(1) [OF inv] h by simp
  have "evolves P m (snd (on_m3_sent P now created ps out (m\<lparr>cm_hs := Some h1\<rparr>)))" if "r = Inr (ClientM3Sent ps out)" for ps out
    using settles_then_evolves [OF ms(1) on_m3_sent_evolves [OF settles_inv [OF ms(1)] _ ms(2) [OF that]] n] n by simp
  then show ?thesis
    using True h s settles_evolves [OF ms(1)] by (auto simp: client_manager_handle_def Let_def split: sum.split ClientEvent.split)
qed

lemma timer_no_m3: "fst (client_on_timer jit h) \<noteq> Inr (ClientM3Sent ps out)"
  by (simp add: client_on_timer_def Let_def split: ClientState.split)

lemma on_timer_settles:
  assumes inv: "client_mgr_inv P m"
  shows "settles P m (snd (manager_on_timer P jit now created m))"
proof (cases "cm_hs m")
  case (Some h)
  obtain r h1 where s: "client_step P (ClientTimer jit) h = (r, h1)" by fastforce
  note ms = machine_step(1) [OF inv Some s]
  have "r \<noteq> Inr (ClientM3Sent ps out)" for ps out using timer_no_m3 [of jit h ps out] s by simp
  moreover have "settles P m (m\<lparr>cm_hs := None, cm_hs_started := None, cm_rearm_requested := True\<rparr>)" by (rule settles_drop_hs [OF inv])
  ultimately show ?thesis
    using Some s ms by (auto simp: manager_on_timer_def Let_def split: sum.split ClientEvent.split HandshakeV2Error.split)
next
  case None
  show ?thesis
  proof (cases "cm_session m = None \<or> cm_ready m \<or> cm_m3_exhausted m \<or> cm_m3_attempts m \<ge> ccf_m3_max_attempts (cm_cfg m)")
    case True
    then show ?thesis using settles_refl [OF inv] settles_exhausted [OF inv] None by (auto simp: manager_on_timer_def)
  next
    case False
    then have "cm_m3_attempts m + 1 \<le> ccf_m3_max_attempts (cm_cfg m)" by (simp add: inc_le not_le)
    then have a: "settles P m (m\<lparr>cm_m3_attempts := cm_m3_attempts m + 1\<rparr>)" by (rule settles_attempts [OF inv])
    show ?thesis
      using settles_trans [OF a build_probe_settles [OF settles_inv [OF a]]] None False
      by (auto simp: manager_on_timer_def Let_def case_prod_beta)
  qed
qed

section \<open>Starting a handshake keeps the invariant\<close>

lemma draw_failed:
  assumes "client_mgr_inv P m" "m1 = m" "r = Inl e"
  shows "\<exists>sids order. history_ok SID_HISTORY_CAP sids order \<and> m1 = m\<lparr>cm_used_sids := sids, cm_used_order := order\<rparr> \<and>
      (\<forall>sid. r = Inr sid \<longrightarrow> sid \<notin> cm_used_sids m \<and> sid \<in> sids \<and> length sid = 8)"
  by (rule exI [of _ "cm_used_sids m"], rule exI [of _ "cm_used_order m"]) (simp add: assms client_mgr_invD(5) [OF assms(1)])

lemma draw_fresh_cases:
  assumes "client_mgr_inv P m" "draw_fresh ds m = (r, m1)"
  shows "\<exists>sids order. history_ok SID_HISTORY_CAP sids order \<and> m1 = m\<lparr>cm_used_sids := sids, cm_used_order := order\<rparr> \<and>
      (\<forall>sid. r = Inr sid \<longrightarrow> sid \<notin> cm_used_sids m \<and> sid \<in> sids \<and> length sid = 8)"
  using assms(2)
proof (induction ds)
  case Nil
  then have "m1 = m" "r = Inl (InvalidState ''could not draw a fresh session identifier'')" by simp_all
  then show ?case by (rule draw_failed [OF assms(1)])
next
  case (Cons d ds)
  show ?case
  proof (cases "\<exists>w. d = Inr w \<and> to_be 8 w \<notin> cm_used_sids m")
    case False
    show ?thesis
    proof (cases d)
      case (Inl e)
      then have "m1 = m" "r = Inl (MgrHandshake (HE_Crypto (InvalidInput (''getrandom: '' @ e))))"
        using Cons.prems by (simp_all add: random_sid_def)
      then show ?thesis by (rule draw_failed [OF assms(1)])
    next
      case (Inr w)
      then have "draw_fresh ds m = (r, m1)" using Cons.prems False by (simp add: random_sid_def)
      then show ?thesis by (rule Cons.IH)
    qed
  next
    case True
    then obtain w where w: "d = Inr w" "to_be 8 w \<notin> cm_used_sids m" by blast
    obtain sids order where f: "forget_oldest SID_HISTORY_CAP (insert (to_be 8 w) (cm_used_sids m)) (cm_used_order m @ [to_be 8 w]) = (sids, order)"
      by fastforce
    have "history_ok SID_HISTORY_CAP sids order" "to_be 8 w \<in> sids"
      using history_add [OF client_mgr_invD(5) [OF assms(1)] w(2) _ f] by (simp_all add: SID_HISTORY_CAP_def)
    moreover have "r = Inr (to_be 8 w)" "m1 = m\<lparr>cm_used_sids := sids, cm_used_order := order\<rparr>"
      using Cons.prems w f by (simp_all add: random_sid_def)
    ultimately show ?thesis using w(2) by auto
  qed
qed

lemma begin_cases:
  assumes inv: "client_mgr_inv P m"
  obtains (busy) "cm_hs m \<noteq> None \<or> cm_session m \<noteq> None" "snd (manager_begin_handshake P rnd now m) = m"
      "\<exists>e. fst (manager_begin_handshake P rnd now m) = Inl e"
  | (failed) sids order where "cm_hs m = None" "cm_session m = None" "history_ok SID_HISTORY_CAP sids order"
      "snd (manager_begin_handshake P rnd now m) = m\<lparr>cm_used_sids := sids, cm_used_order := order\<rparr>"
      "\<exists>e. fst (manager_begin_handshake P rnd now m) = Inl e"
  | (started) sids order sid h where "cm_hs m = None" "cm_session m = None" "history_ok SID_HISTORY_CAP sids order"
      "fresh_sid (cd_sids rnd) m = (Inr sid, m\<lparr>cm_used_sids := sids, cm_used_order := order\<rparr>)"
      "sid \<notin> cm_used_sids m" "sid \<in> sids" "length sid = 8"
      "client_new P (cd_kem_seed rnd) (cd_x_seed rnd) (cd_jitter rnd) (cm_cfg m) sid = Inr h"
      "manager_begin_handshake P rnd now m = (Inr (ME_Send (ch_m1_frags h) (ccf_server_addr (cm_cfg m))),
         m\<lparr>cm_used_sids := sids, cm_used_order := order, cm_hs := Some h, cm_hs_started := Some now, cm_ready := False,
           cm_peer := ccf_server_addr (cm_cfg m), cm_rearm_requested := False\<rparr>)"
proof (cases "cm_hs m \<noteq> None \<or> cm_session m \<noteq> None")
  case True
  then show thesis using busy by (simp add: manager_begin_handshake_def)
next
  case idle: False
  obtain r m1 where d: "fresh_sid (cd_sids rnd) m = (r, m1)" by fastforce
  obtain sids order where h: "history_ok SID_HISTORY_CAP sids order" "m1 = m\<lparr>cm_used_sids := sids, cm_used_order := order\<rparr>"
    "\<forall>sid. r = Inr sid \<longrightarrow> sid \<notin> cm_used_sids m \<and> sid \<in> sids \<and> length sid = 8"
    using draw_fresh_cases [OF inv, of "map (cd_sids rnd) [0..<8]" r m1] d unfolding fresh_sid_def by blast
  show thesis
  proof (cases r)
    case (Inl e)
    then show thesis using failed [OF _ _ h(1)] idle d h(2) by (simp add: manager_begin_handshake_def)
  next
    case (Inr sid)
    show thesis
    proof (cases "client_new P (cd_kem_seed rnd) (cd_x_seed rnd) (cd_jitter rnd) (cm_cfg m) sid")
      case (Inl e)
      then show thesis using failed [OF _ _ h(1)] idle d h(2) Inr by (simp add: manager_begin_handshake_def)
    next
      case new: (Inr hs)
      have s: "sid \<notin> cm_used_sids m" "sid \<in> sids" "length sid = 8" using h(3) Inr by blast+
      have d': "fresh_sid (cd_sids rnd) m = (Inr sid, m\<lparr>cm_used_sids := sids, cm_used_order := order\<rparr>)" using d h(2) Inr by simp
      show thesis
        by (rule started [OF _ _ h(1) d' s new]) (use idle d' new in \<open>simp_all add: manager_begin_handshake_def\<close>)
    qed
  qed
qed

lemma client_new_fields:
  "client_new P ks xs jit cfg sid = Inr h \<Longrightarrow> ch_session h = sid \<and> ch_cfg h = cfg"
  by (auto simp: client_new_def Let_def split: sum.splits)

lemma begin_evolves:
  assumes inv: "client_mgr_inv P m"
  shows "evolves P m (snd (manager_begin_handshake P rnd now m))"
  using inv
proof (cases rule: begin_cases [of P m rnd now])
  case busy
  then show ?thesis using settles_evolves [OF settles_refl [OF inv]] by simp
next
  case (failed sids order)
  have "evolves P m (m\<lparr>cm_used_sids := sids, cm_used_order := order\<rparr>)"
    using inv failed(1-3) by (simp add: evolves_def client_mgr_inv_def alive_def quiet_def retires_def)
  then show ?thesis using failed(4) by simp
next
  case (started sids order sid h)
  show ?thesis
    using inv started(1-3,7) client_new_inv [OF started(8)] client_new_fields [OF started(8)]
    by (simp add: started(9) evolves_def client_mgr_inv_def alive_def quiet_def retires_def)
qed

section \<open>The client manager as a step system\<close>

datatype client_mgr_input =
    CBegin ClientDraws instant
  | CDatagram bytes "u64 option" instant instant WirePacket SocketAddr
  | CTimer "u64 option" instant instant
  | CSlot instant instant instant
  | CTick instant instant
  | CApp instant bytes
  | CTun instant bytes
  | CCover "string + bytes" instant
  | CClose instant

fun client_mgr_step ::
  "primitives \<Rightarrow> client_mgr_input \<Rightarrow> ClientSessionManager \<Rightarrow> (ManagerError + ManagerEvent list) \<times> ClientSessionManager" where
  "client_mgr_step P (CBegin rnd now) m = one_event (manager_begin_handshake P rnd now m)"
| "client_mgr_step P (CDatagram rnd jit now created pkt from) m = one_event (client_manager_handle P rnd jit now created pkt from m)"
| "client_mgr_step P (CTimer jit now created) m = one_event (manager_on_timer P jit now created m)"
| "client_mgr_step P (CSlot log_now closed_at now) m =
     (let (ev, m1) = take_slot P log_now closed_at now m in (Inr (case ev of None \<Rightarrow> [] | Some ev \<Rightarrow> [ev]), m1))"
| "client_mgr_step P (CTick log_now now) m = (let (evs, m1) = client_manager_tick P log_now now m in (Inr evs, m1))"
| "client_mgr_step P (CApp now payload) m = one_event (client_app_outbound P now payload m)"
| "client_mgr_step P (CTun now payload) m = one_event (client_tun_outbound P now payload m)"
| "client_mgr_step P (CCover rnd now) m = one_event (client_cover_packet P rnd now m)"
| "client_mgr_step P (CClose now) m = one_event (client_close P now m)"

lemma client_mgr_evolves:
  assumes "client_mgr_inv P m"
  shows "evolves P m (snd (client_mgr_step P i m))"
  using begin_evolves [OF assms] client_handle_evolves [OF assms]
    settles_evolves [OF on_timer_settles [OF assms]] settles_evolves [OF take_slot_settles [OF assms]]
    settles_evolves [OF client_tick_settles [OF assms]] settles_evolves [OF client_outbound_settles(1) [OF assms]]
    settles_evolves [OF client_outbound_settles(2) [OF assms]] settles_evolves [OF client_cover_settles [OF assms]]
    settles_evolves [OF client_close_settles [OF assms]]
  by (cases i) (simp_all add: Let_def case_prod_beta)

interpretation client_mgr: step_system "client_mgr_step P" "client_mgr_inv P" for P
  by unfold_locales (use client_mgr_evolves in \<open>simp add: evolves_def\<close>)

inductive client_mgr_reachable :: "primitives \<Rightarrow> ClientSessionManager \<Rightarrow> bool" for P where
  fresh: "client_manager_new cfg limits = Inr m \<Longrightarrow> client_mgr_reachable P m"
| step: "client_mgr_reachable P m \<Longrightarrow> client_mgr_reachable P (snd (client_mgr_step P i m))"

lemma client_reachable_inv: "client_mgr_reachable P m \<Longrightarrow> client_mgr_inv P m"
  by (induction rule: client_mgr_reachable.induct) (use client_manager_new_inv client_mgr.step_inv in blast)+

lemma client_reachable_run: "client_mgr_reachable P m \<Longrightarrow> client_mgr_reachable P (snd (run (client_mgr_step P) is m))"
  by (induction "is" arbitrary: m) (simp_all add: client_mgr_reachable.step del: client_mgr_step.simps)

end
