(* ===== verification/Tunnel.thy ===== *)
theory Tunnel
  imports Server_Guarantees Client_Manager
begin

text \<open>The two managers together: a client manager and a server manager that exchange their datagrams
  complete the handshake, confirm each other's keys and carry application data.\<close>

section \<open>Two sessions in step\<close>

text \<open>The receiver has accepted exactly the counters the sender has used.\<close>

definition in_step :: "WireSession \<Rightarrow> WireSession \<Rightarrow> bool" where
  "in_step s r \<longleftrightarrow> peers (ws_cipher s) (ws_cipher r) \<and> ws_session_id s = ws_session_id r \<and>
     window_rel (cs_replay (ws_cipher r)) {c. c < cs_send_counter (ws_cipher s)}"

definition up :: "WireSession \<Rightarrow> bool" where
  "up s \<longleftrightarrow> wire_inv s \<and> ws_state s = Established \<and> unat (cs_send_counter (ws_cipher s)) < 2 ^ 60"

lemma up_not_exhausted:
  assumes "up s"
  shows "\<not> is_counter_exhausted (cs_send_counter (ws_cipher s))"
proof
  assume "is_counter_exhausted (cs_send_counter (ws_cipher s))"
  then have "unat MAX_PACKET_NONCE \<le> unat (cs_send_counter (ws_cipher s))" by (simp add: is_counter_exhausted_def word_le_nat_alt)
  then show False using assms by (simp add: up_def MAX_PACKET_NONCE_def)
qed

lemma cipher_new_fresh: "cipher_new P role master sid = Inr c \<Longrightarrow> cs_send_counter c = 0 \<and> cs_replay c = replay_new"
  by (auto simp: cipher_new_def split: sum.splits)

lemma fresh_in_step:
  assumes "cipher_new P Client master sid = Inr (ws_cipher c)" "cipher_new P Server master sid = Inr (ws_cipher v)"
    and "ws_session_id c = ws_session_id v"
  shows "in_step c v" "in_step v c"
proof -
  show "in_step c v" "in_step v c"
    using cipher_new_fresh [OF assms(1)] cipher_new_fresh [OF assms(2)]
    using cipher_new_peers [OF assms(1,2)] assms(3) window_rel_new by (simp_all add: in_step_def)
qed

lemma next_counter_set:
  fixes c :: u64
  assumes "\<not> is_counter_exhausted c"
  shows "insert c {a. a < c} = {a. a < c + 1}"
  using not_exhausted_succ(2) [OF assms] by (auto simp: word_less_nat_alt less_Suc_eq word_unat_eq_iff)

text \<open>One packet of a session is opened by the other end, and both stay in step.\<close>

lemma exchange:
  assumes P: "aead_correct P" and s: "up s" and r: "up r" and st: "in_step s r" "in_step r s"
    and len: "length payload = PAYLOAD_LEN"
  obtains pkt s1 r1 where "wire_encrypt P mt payload s = (Inr pkt, s1)"
    "wire_decrypt P pkt r = (Inr (sealed_inner mt payload (ws_cipher s)), r1)"
    "in_step s1 r1" "in_step r1 s1" "wire_inv s1" "ws_state s1 = Established" "up r1"
    "cs_send_counter (ws_cipher s1) = cs_send_counter (ws_cipher s) + 1"
    "ws_session_id s1 = ws_session_id s" "ws_session_id r1 = ws_session_id r"
    "\<not> is_handshake_fragment pkt" "packet_sid pkt = ws_session_id s"
    "cs_send_counter (ws_cipher r1) = cs_send_counter (ws_cipher r)"
proof -
  let ?c = "ws_cipher s" and ?r = "ws_cipher r"
  have wf: "cipher_wf ?c" "cs_session_id ?c = ws_session_id s" using s by (simp_all add: up_def wire_inv_def)
  note ne = up_not_exhausted [OF s]
  obtain pkt where e: "cipher_encrypt P mt payload ?c = (Inr pkt, ?c\<lparr>cs_send_counter := cs_send_counter ?c + 1\<rparr>)"
    by (rule encrypt_succeeds [OF wf(1) P len ne])
  have pr: "peers ?c ?r" and R: "window_rel (cs_replay ?r) {a. a < cs_send_counter ?c}" using st(1) by (simp_all add: in_step_def)
  have "accept_spec {a. a < cs_send_counter ?c} (cs_send_counter ?c)"
    by (auto simp: accept_spec_def word_less_nat_alt)
  then obtain rw where d: "cipher_decrypt P pkt ?r = (Inr (sealed_inner mt payload ?c), ?r\<lparr>cs_replay := rw\<rparr>)"
    "window_rel rw {a. a < cs_send_counter ?c + 1}"
    using decrypt_encrypt [OF wf(1) P pr e R] next_counter_set [OF ne] by auto
  let ?s1 = "s\<lparr>ws_cipher := ?c\<lparr>cs_send_counter := cs_send_counter ?c + 1\<rparr>, ws_metrics := count_sent (ws_metrics s)\<rparr>"
  let ?r1 = "r\<lparr>ws_cipher := ?r\<lparr>cs_replay := rw\<rparr>, ws_metrics := count_received (ws_metrics r)\<rparr>"
  have we: "wire_encrypt P mt payload s = (Inr pkt, ?s1)" using e s by (simp add: wire_encrypt_def require_established_def up_def)
  have wd: "wire_decrypt P pkt r = (Inr (sealed_inner mt payload ?c), ?r1)"
    using d(1) r by (simp add: wire_decrypt_def require_established_def up_def)
  obtain ct where pkt: "pkt = WirePacket (header_encode (sealed_header ?c) @ ct)" using encrypt_okD(4) [OF wf(1) e] by blast
  have sid: "length (cs_session_id ?c) = 8" using wf(1) by (simp add: cipher_wf_def)
  show thesis
  proof (rule that [OF we wd])
    show "in_step ?s1 ?r1" using pr d(2) st by (simp add: in_step_def peers_def)
    show "in_step ?r1 ?s1" using st(2) by (simp add: in_step_def peers_def)
    show "wire_inv ?s1" using wire_encrypt_inv [of s P mt payload] we s by (simp add: up_def)
    have "wire_inv ?r1" using wire_decrypt_inv [of r P pkt] wd r by (simp add: up_def)
    then show "up ?r1" using r by (simp add: up_def)
    show "\<not> is_handshake_fragment pkt" using sealed_not_fragment [OF wf(1) e] s by (simp add: up_def)
    show "packet_sid pkt = ws_session_id s"
      using sid wf(2) by (simp add: packet_sid_def pkt header_encode_eq header_new_def slice_def layout_simps)
  qed (use s in \<open>simp_all add: up_def\<close>)
qed

section \<open>The server's answers\<close>

lemma server_receives:
  assumes e: "map_of (mg_sessions m) (packet_sid pkt) = Some e" and hs: "\<not> is_handshake_fragment pkt"
    and pk: "fail_peek from (mc_now ck) (mg_limits m) (mg_fail_gate m)"
    and d: "wire_decrypt P pkt (se_session e) = (Inr inner, s1)"
  defines "m1 \<equiv> session_put (packet_sid pkt) (e\<lparr>se_session := s1, se_last_activity := mc_now ck, se_peer := from\<rparr>) m"
  shows "ip_msg_type inner = Data \<Longrightarrow> manager_handle_datagram P rnd order ck pkt from m = (Inr (ME_AppData (packet_sid pkt) inner), m1)"
    "ip_msg_type inner = Handshake \<Longrightarrow> manager_handle_datagram P rnd order ck pkt from m = on_control_message P (packet_sid pkt) inner m1"
  using e hs pk d by (simp_all add: manager_handle_datagram_def on_data_packet_def Let_def m1_def)

lemma server_acks:
  assumes "map_of (mg_sessions m) sid = Some e" "ip_payload inner ! 0 = CONTROL_PROBE"
    and "wire_encrypt P Handshake (control_payload CONTROL_ACK) (se_session e) = (Inr ack, s1)"
  shows "on_control_message P sid inner m = (Inr (ME_SendPacket ack (se_peer e)), session_put sid (e\<lparr>se_session := s1\<rparr>) m)"
  using assms by (simp add: on_control_message_def)

lemma lookup_put [simp]:
  "map_of (mg_sessions (session_put sid e m)) sid = Some e" "mg_limits (session_put sid e m) = mg_limits m"
  by (simp_all add: session_put_def table_simps)

section \<open>The client's side\<close>

text \<open>One datagram at the client: the draw and jitter of its machine, the two clock readings, and the
  index of the M2 fragment it carries.\<close>

type_synonym client_delivery = "bytes \<times> u64 option \<times> instant \<times> instant \<times> nat"

fun to_client_machine :: "client_delivery \<Rightarrow> bytes \<times> u64 option \<times> nat" where
  "to_client_machine (rnd, jit, now, created, l) = (rnd, jit, l)"

lemma client_run_handshake:
  assumes "\<And>d. d \<in> set ds \<Longrightarrow> is_handshake_fragment (pkt (snd (snd (snd (snd d)))))"
    and "run (client_step P) (map (\<lambda>(rnd, jit, l). ClientDatagram rnd jit (pkt l)) (map to_client_machine ds)) h =
      (replicate (length ds) (Inr ClientNone), h1)" and "cm_hs m = Some h"
  shows "run (client_mgr_step P) (map (\<lambda>(rnd, jit, now, created, l). CDatagram rnd jit now created (pkt l) from) ds) m =
    (replicate (length ds) (Inr [ME_None]), m\<lparr>cm_hs := Some h1\<rparr>)"
  using assms
proof (induction ds arbitrary: m h)
  case Nil
  then show ?case by simp
next
  case (Cons d ds)
  obtain rnd jit now created l where d: "d = (rnd, jit, now, created, l)" by (cases d) auto
  obtain r h0 where h: "client_handle_datagram P rnd jit (pkt l) h = (r, h0)" by fastforce
  have r: "r = Inr ClientNone" "run (client_step P) (map (\<lambda>(rnd, jit, l). ClientDatagram rnd jit (pkt l)) (map to_client_machine ds)) h0 =
      (replicate (length ds) (Inr ClientNone), h1)"
    using Cons.prems(2) h by (auto simp: d prod_eq_iff)
  have "is_handshake_fragment (pkt l)" using Cons.prems(1) [of d] by (simp add: d)
  then have "client_mgr_step P (CDatagram rnd jit now created (pkt l) from) m = (Inr [ME_None], m\<lparr>cm_hs := Some h0\<rparr>)"
    using h r(1) Cons.prems(3) by (simp add: client_manager_handle_def)
  moreover have "run (client_mgr_step P) (map (\<lambda>(rnd, jit, now, created, l). CDatagram rnd jit now created (pkt l) from) ds) (m\<lparr>cm_hs := Some h0\<rparr>) =
      (replicate (length ds) (Inr [ME_None]), (m\<lparr>cm_hs := Some h0\<rparr>)\<lparr>cm_hs := Some h1\<rparr>)"
    by (rule Cons.IH [OF _ r(2)]) (use Cons.prems(1) in auto)
  ultimately show ?case by (simp add: d)
qed

lemma begin_honest:
  assumes inv: "client_mgr_inv P m" and idle: "cm_hs m = None" "cm_session m = None"
    and sid: "fresh_sid (cd_sids rnd) m = (Inr sid, m0)"
    and cr: "client_ready P (cm_cfg m) sid (cd_kem_seed rnd) (cd_x_seed rnd)"
  obtains h m1 where "client_new P (cd_kem_seed rnd) (cd_x_seed rnd) (cd_jitter rnd) (cm_cfg m) sid = Inr h"
    "manager_begin_handshake P rnd now m = (Inr (ME_Send (ch_m1_frags h) (ccf_server_addr (cm_cfg m))), m1)"
    "cm_hs m1 = Some h" "cm_session m1 = None" "cm_cfg m1 = cm_cfg m" "cm_limits m1 = cm_limits m"
    "cm_retired_sids m1 = cm_retired_sids m"
proof -
  obtain sids order where m0: "m0 = m\<lparr>cm_used_sids := sids, cm_used_order := order\<rparr>"
    using draw_fresh_cases [OF inv, of "map (cd_sids rnd) [0..<8]"] sid unfolding fresh_sid_def by blast
  obtain h where h: "client_new P (cd_kem_seed rnd) (cd_x_seed rnd) (cd_jitter rnd) (cm_cfg m) sid = Inr h"
    using client_new_ok [OF cr] by metis
  show thesis
    by (rule that [OF h, of "m0\<lparr>cm_hs := Some h, cm_hs_started := Some now, cm_ready := False,
          cm_peer := ccf_server_addr (cm_cfg m), cm_rearm_requested := False\<rparr>"])
      (use idle sid h in \<open>simp_all add: manager_begin_handshake_def m0\<close>)
qed

lemma client_adopts:
  assumes frag: "\<And>l. l < n \<Longrightarrow> is_handshake_fragment (pkt l)" and ds: "\<forall>d \<in> set (ds @ [d3]). snd (snd (snd (snd d))) < n"
    and r: "run (client_step P) (map (\<lambda>(rnd, jit, l). ClientDatagram rnd jit (pkt l)) (map to_client_machine (ds @ [d3]))) h =
      (replicate (length ds) (Inr ClientNone) @ [Inr (ClientM3Sent [m3] out)], h1)"
    and m: "cm_hs m = Some h" "cm_session m = None" "ho_session_id out \<notin> cm_retired_sids m"
    and s: "wire_established P (fst (snd (snd (snd d3)))) Client out = Inr s"
    and e: "wire_encrypt P Handshake (control_payload CONTROL_PROBE) s = (Inr probe, s1)"
  obtains m1 where
    "run (client_mgr_step P) (map (\<lambda>(rnd, jit, now, created, l). CDatagram rnd jit now created (pkt l) from) (ds @ [d3])) m =
       (replicate (length ds) (Inr [ME_None]) @ [Inr [ME_Send [m3, probe] (ccf_server_addr (cm_cfg m))]], m1)"
    "cm_session m1 = Some s1" "\<not> cm_ready m1" "cm_cfg m1 = cm_cfg m"
proof -
  obtain rnd jit now created l where d3: "d3 = (rnd, jit, now, created, l)" by (cases d3) auto
  obtain o1 h2 where r1: "run (client_step P) (map (\<lambda>(rnd, jit, l). ClientDatagram rnd jit (pkt l)) (map to_client_machine ds)) h = (o1, h2)"
    by fastforce
  obtain o2 h3 where r2: "client_handle_datagram P rnd jit (pkt l) h2 = (o2, h3)" by fastforce
  have one: "run (client_step P) (map (\<lambda>(rnd, jit, l). ClientDatagram rnd jit (pkt l)) (map to_client_machine ds)) h =
      (replicate (length ds) (Inr ClientNone), h2)" "client_handle_datagram P rnd jit (pkt l) h2 = (Inr (ClientM3Sent [m3] out), h3)"
    using r r1 r2 by (simp_all add: d3 run_append)
  have a: "run (client_mgr_step P) (map (\<lambda>(rnd, jit, now, created, l). CDatagram rnd jit now created (pkt l) from) ds) m =
      (replicate (length ds) (Inr [ME_None]), m\<lparr>cm_hs := Some h2\<rparr>)"
    by (rule client_run_handshake [OF _ one(1) m(1)]) (use frag ds in auto)
  have hs: "is_handshake_fragment (pkt l)" using frag ds by (simp add: d3)
  obtain m1 where b: "client_mgr_step P (CDatagram rnd jit now created (pkt l) from) (m\<lparr>cm_hs := Some h2\<rparr>) =
      (Inr [ME_Send [m3, probe] (ccf_server_addr (cm_cfg m))], m1)" "cm_session m1 = Some s1" "\<not> cm_ready m1" "cm_cfg m1 = cm_cfg m"
    using hs one(2) m(2,3) s e by (simp add: client_manager_handle_def on_m3_sent_def build_probe_def Let_def d3)
  show thesis by (rule that [OF _ b(2-4)]) (use a b(1) in \<open>simp add: run_append d3 del: client_mgr_step.simps\<close>)
qed

lemma control_payload_head: "control_payload b ! 0 = b" "length (control_payload b) = PAYLOAD_LEN"
  by (simp_all add: control_payload_def layout_simps)

text \<open>A probe of a fresh client session is answered, and the answer opens.\<close>

lemma probe_round:
  assumes P: "aead_correct P" and s: "up s" "cs_send_counter (ws_cipher s) = 0"
    and e: "map_of (mg_sessions m) (ws_session_id s) = Some e" "up (se_session e)" "cs_send_counter (ws_cipher (se_session e)) = 0"
    and st: "in_step s (se_session e)" "in_step (se_session e) s"
    and pk: "fail_peek from (mc_now ck) (mg_limits m) (mg_fail_gate m)"
  obtains probe s1 ack inner s2 m1 e1 where
    "wire_encrypt P Handshake (control_payload CONTROL_PROBE) s = (Inr probe, s1)"
    "manager_handle_datagram P rnd order ck probe from m = (Inr (ME_SendPacket ack from), m1)"
    "wire_decrypt P ack s1 = (Inr inner, s2)" "ip_msg_type inner = Handshake"
    "\<not> is_handshake_fragment ack" "packet_sid ack = ws_session_id s1" "ws_session_id s2 = ws_session_id s" "up s2"
    "map_of (mg_sessions m1) (ws_session_id s) = Some e1" "up (se_session e1)"
    "in_step s2 (se_session e1)" "in_step (se_session e1) s2"
    "mg_limits m1 = mg_limits m" "mg_fail_gate m1 = mg_fail_gate m"
proof -
  obtain probe s1 r1 where x: "wire_encrypt P Handshake (control_payload CONTROL_PROBE) s = (Inr probe, s1)"
    "wire_decrypt P probe (se_session e) = (Inr (sealed_inner Handshake (control_payload CONTROL_PROBE) (ws_cipher s)), r1)"
    "in_step s1 r1" "in_step r1 s1" "wire_inv s1" "ws_state s1 = Established" "up r1"
    "cs_send_counter (ws_cipher s1) = cs_send_counter (ws_cipher s) + 1" "ws_session_id s1 = ws_session_id s"
    "ws_session_id r1 = ws_session_id (se_session e)" "\<not> is_handshake_fragment probe" "packet_sid probe = ws_session_id s"
    "cs_send_counter (ws_cipher r1) = cs_send_counter (ws_cipher (se_session e))"
    by (rule exchange [OF P s(1) e(2) st control_payload_head(2)])
  have up1: "up s1" using x(5,6,8) s(2) by (simp add: up_def)
  obtain ack r2 s2 where y: "wire_encrypt P Handshake (control_payload CONTROL_ACK) r1 = (Inr ack, r2)"
    "wire_decrypt P ack s1 = (Inr (sealed_inner Handshake (control_payload CONTROL_ACK) (ws_cipher r1)), s2)"
    "in_step r2 s2" "in_step s2 r2" "wire_inv r2" "ws_state r2 = Established" "up s2"
    "cs_send_counter (ws_cipher r2) = cs_send_counter (ws_cipher r1) + 1" "ws_session_id r2 = ws_session_id r1"
    "ws_session_id s2 = ws_session_id s1" "\<not> is_handshake_fragment ack" "packet_sid ack = ws_session_id r1"
    by (rule exchange [OF P x(7) up1 x(4,3) control_payload_head(2)])
  let ?e = "e\<lparr>se_session := r1, se_last_activity := mc_now ck, se_peer := from\<rparr>"
  let ?m = "session_put (ws_session_id s) ?e m"
  have e': "map_of (mg_sessions m) (packet_sid probe) = Some e" using e(1) x(12) by simp
  have "manager_handle_datagram P rnd order ck probe from m =
      on_control_message P (ws_session_id s) (sealed_inner Handshake (control_payload CONTROL_PROBE) (ws_cipher s)) ?m"
    using server_receives(2) [OF e' x(11) pk x(2)] x(12) by (simp add: sealed_inner_def)
  also have "\<dots> = (Inr (ME_SendPacket ack (se_peer ?e)), session_put (ws_session_id s) (?e\<lparr>se_session := r2\<rparr>) ?m)"
    by (rule server_acks) (use y(1) in \<open>simp_all add: sealed_inner_def control_payload_head\<close>)
  finally have h: "manager_handle_datagram P rnd order ck probe from m =
      (Inr (ME_SendPacket ack from), session_put (ws_session_id s) (?e\<lparr>se_session := r2\<rparr>) ?m)" by simp
  have up2: "up r2" using y(5,6,8) x(13) e(3) by (simp add: up_def)
  have sid: "packet_sid ack = ws_session_id s1" using y(12) x(4) by (simp add: in_step_def)
  show thesis
    by (rule that [OF x(1) h y(2) _ y(11) sid _ y(7), of "?e\<lparr>se_session := r2\<rparr>"])
      (use y(3,4,10) x(9) up2 in \<open>simp_all add: sealed_inner_def\<close>)
qed

lemma client_receives_control:
  assumes "cm_session m = Some s" "\<not> is_handshake_fragment pkt" "packet_sid pkt = ws_session_id s"
    and "wire_decrypt P pkt s = (Inr inner, s1)" "ip_msg_type inner = Handshake"
  shows "client_manager_handle P rnd jit now created pkt from m =
    (Inr ME_None, m\<lparr>cm_session := Some s1, cm_ready := True, cm_rounds_unanswered := 0, cm_peer := from\<rparr>)"
  using assms by (simp add: client_manager_handle_def client_on_data_packet_def packet_sid_def)

lemma client_sends:
  assumes "cm_session m = Some s" "length payload \<le> PAYLOAD_LEN"
    and "wire_encrypt P Data (copy_at 0 payload (replicate PAYLOAD_LEN 0)) s = (Inr pkt, s1)"
  shows "client_app_outbound P now payload m = (Inr (ME_SendPacket pkt (cm_peer m)), m\<lparr>cm_session := Some s1\<rparr>)"
  using assms by (simp add: client_app_outbound_def client_send_encrypted_def)

section \<open>The tunnel comes up\<close>

text \<open>The client is idle and draws a session id neither end knows, the identities match, and the server
  has room for one more handshake from this address.\<close>

definition can_connect ::
  "primitives \<Rightarrow> ClientDraws \<Rightarrow> bytes \<Rightarrow> SocketAddr \<Rightarrow> ClientSessionManager \<Rightarrow> ServerSessionManager \<Rightarrow> bool" where
  "can_connect P rnd sid from mc ms \<longleftrightarrow>
     cm_hs mc = None \<and> cm_session mc = None \<and> fst (fresh_sid (cd_sids rnd) mc) = Inr sid \<and> sid \<notin> cm_retired_sids mc \<and>
     client_ready P (cm_cfg mc) sid (cd_kem_seed rnd) (cd_x_seed rnd) \<and>
     mldsa_vk_of P (ccf_identity (cm_cfg mc)) \<in> set (scf_roster (sv_cfg (mg_hs ms))) \<and>
     ccf_server_identity (cm_cfg mc) = mldsa_vk_of P (scf_identity (sv_cfg (mg_hs ms))) \<and>
     can_admit sid from (mg_hs ms) \<and> map_of (mg_sessions ms) sid = None"

lemma can_connectD:
  assumes "can_connect P rnd sid from mc ms"
  shows "cm_hs mc = None" "cm_session mc = None" "fst (fresh_sid (cd_sids rnd) mc) = Inr sid" "sid \<notin> cm_retired_sids mc"
    "client_ready P (cm_cfg mc) sid (cd_kem_seed rnd) (cd_x_seed rnd)"
    "mldsa_vk_of P (ccf_identity (cm_cfg mc)) \<in> set (scf_roster (sv_cfg (mg_hs ms)))"
    "ccf_server_identity (cm_cfg mc) = mldsa_vk_of P (scf_identity (sv_cfg (mg_hs ms)))"
    "can_admit sid from (mg_hs ms)" "map_of (mg_sessions ms) sid = None"
  using assms unfolding can_connect_def by blast+

text \<open>The handshake: both managers hold fresh sessions in step, and the probe is on its way.\<close>

lemma connect:
  assumes P: "hkdf_correct P" "hash_sized P" "aead_correct P" and inv: "manager_inv P ms" "client_mgr_inv P mc"
    and cc: "can_connect P rnd0 sid from mc ms" and sr: "server_ready P (sv_cfg (mg_hs ms)) rnd" and r3: "length r3 = 32"
    and sched: "m1_schedule t0 (mg_hs ms) (map to_machine ds) i" "m2_schedule (map to_client_machine cds) j"
    and lv: "live t0 (mg_hs ms) (mc_hs ck)" "live t0 (mg_hs ms) (mc_hs ck3)"
  obtains m1s mc1 m2s ms1 m3 probe mc2 ms2 s s1 e where
    "manager_begin_handshake P rnd0 now0 mc = (Inr (ME_Send m1s (ccf_server_addr (cm_cfg mc))), mc1)"
    "run (manager_step P) (map (\<lambda>(rnd, order, ck, l). MDatagram rnd order ck (m1s ! l) from) (ds @ [(rnd, order, ck, i)])) ms =
       (replicate (length ds) (Inr [ME_None]) @ [Inr [ME_Send m2s from]], ms1)"
    "run (client_mgr_step P) (map (\<lambda>(rnd, jit, now, created, l). CDatagram rnd jit now created (m2s ! l) srv)
         (cds @ [(r3, jit3, now3, created3, j)])) mc1 =
       (replicate (length cds) (Inr [ME_None]) @ [Inr [ME_Send [m3, probe] (ccf_server_addr (cm_cfg mc))]], mc2)"
    "manager_handle_datagram P rnd3 order3 ck3 m3 from ms1 = (Inr (ME_Established sid from), ms2)"
    "cm_session mc2 = Some s1" "\<not> cm_ready mc2" "cm_cfg mc2 = cm_cfg mc"
    "wire_encrypt P Handshake (control_payload CONTROL_PROBE) s = (Inr probe, s1)"
    "up s" "cs_send_counter (ws_cipher s) = 0" "ws_session_id s = sid"
    "map_of (mg_sessions ms2) sid = Some e" "up (se_session e)" "cs_send_counter (ws_cipher (se_session e)) = 0"
    "in_step s (se_session e)" "in_step (se_session e) s"
    "mg_limits ms2 = mg_limits ms" "mg_fail_gate ms2 = mg_fail_gate ms"
proof -
  note c = can_connectD [OF cc]
  obtain m0 where f: "fresh_sid (cd_sids rnd0) mc = (Inr sid, m0)" using c(3) by (cases "fresh_sid (cd_sids rnd0) mc") auto
  obtain h mc1 where b: "client_new P (cd_kem_seed rnd0) (cd_x_seed rnd0) (cd_jitter rnd0) (cm_cfg mc) sid = Inr h"
    "manager_begin_handshake P rnd0 now0 mc = (Inr (ME_Send (ch_m1_frags h) (ccf_server_addr (cm_cfg mc))), mc1)"
    "cm_hs mc1 = Some h" "cm_session mc1 = None" "cm_cfg mc1 = cm_cfg mc" "cm_limits mc1 = cm_limits mc"
    "cm_retired_sids mc1 = cm_retired_sids mc"
    by (rule begin_honest [OF inv(2) c(1,2) f c(5)])
  obtain m2s ms1 m3 out h1 ms2 s ws where x:
    "run (manager_step P) (map (\<lambda>(rnd, order, ck, l). MDatagram rnd order ck (ch_m1_frags h ! l) from) (ds @ [(rnd, order, ck, i)])) ms =
       (replicate (length ds) (Inr [ME_None]) @ [Inr [ME_Send m2s from]], ms1)"
    "run (client_step P) (map (\<lambda>(rnd, jit, l). ClientDatagram rnd jit (m2s ! l)) (map to_client_machine cds @ [(r3, jit3, j)])) h =
       (replicate (length (map to_client_machine cds)) (Inr ClientNone) @ [Inr (ClientM3Sent [m3] out)], h1)"
    "manager_handle_datagram P rnd3 order3 ck3 m3 from ms1 = (Inr (ME_Established sid from), ms2)"
    "ho_session_id out = sid" "ho_peer_identity out = mldsa_vk_of P (scf_identity (sv_cfg (mg_hs ms)))"
    "wire_established P created3 Client out = Inr s"
    "map_of (mg_sessions ms2) sid = Some \<lparr>se_session = ws, se_peer = from, se_last_activity = mc_now ck3, se_established_at = mc_now ck3\<rparr>"
    "cipher_new P Client (ho_master out) sid = Inr (ws_cipher s)" "cipher_new P Server (ho_master out) sid = Inr (ws_cipher ws)"
    "mg_fail_gate ms2 = mg_fail_gate ms" "mg_limits ms2 = mg_limits ms"
    "length m2s = unat M2_FRAG_COUNT" "\<forall>p \<in> set m2s. is_handshake_fragment p"
    by (rule manager_handshake [OF P(1,2) inv(1) c(5) sr r3 c(6,7) b(1) c(8,9) sched lv])
  note n = cipher_new_fresh [OF x(8)] cipher_new_fresh [OF x(9)]
  have sid: "length (ho_session_id out) = 8" using c(5) x(4) by (simp add: client_ready_def)
  have s: "session_ok Client sid s" using established_session_ok [OF x(6) sid] x(4) by simp
  then have us: "up s" using n by (simp add: up_def session_ok_def)
  have "manager_inv P ms2"
    using manager.run_inv [OF inv(1), of "map (\<lambda>(rnd, order, ck, l). MDatagram rnd order ck (ch_m1_frags h ! l) from) (ds @ [(rnd, order, ck, i)])"]
      manager_handle_inv [of P ms1 rnd3 order3 ck3 m3 "from"] x(1,3) by simp
  from held [OF this x(7)] have ws: "session_ok Server sid ws" by simp
  then have uw: "up ws" using n by (simp add: up_def session_ok_def)
  have st: "in_step s ws" "in_step ws s" by (rule fresh_in_step [OF x(8,9)], use s ws in \<open>simp add: session_ok_def\<close>)+
  obtain probe s1 r1 where e: "wire_encrypt P Handshake (control_payload CONTROL_PROBE) s = (Inr probe, s1)"
    by (rule exchange [OF P(3) us uw st control_payload_head(2)])
  have new: "ho_session_id out \<notin> cm_retired_sids mc1" using c(4) x(4) b(7) by simp
  have frag: "is_handshake_fragment (m2s ! l)" if "l < unat M2_FRAG_COUNT" for l using x(12,13) that by simp
  have ys: "\<forall>d \<in> set (cds @ [(r3, jit3, now3, created3, j)]). snd (snd (snd (snd d))) < unat M2_FRAG_COUNT"
    using sched(2) by (auto simp: m2_schedule_def)
  have r: "run (client_step P) (map (\<lambda>(rnd, jit, l). ClientDatagram rnd jit (m2s ! l))
       (map to_client_machine (cds @ [(r3, jit3, now3, created3, j)]))) h =
      (replicate (length cds) (Inr ClientNone) @ [Inr (ClientM3Sent [m3] out)], h1)" using x(2) by simp
  have s': "wire_established P (fst (snd (snd (snd (r3, jit3, now3, created3, j))))) Client out = Inr s" using x(6) by simp
  obtain mc2 where y: "run (client_mgr_step P) (map (\<lambda>(rnd, jit, now, created, l). CDatagram rnd jit now created (m2s ! l) srv)
         (cds @ [(r3, jit3, now3, created3, j)])) mc1 =
       (replicate (length cds) (Inr [ME_None]) @ [Inr [ME_Send [m3, probe] (ccf_server_addr (cm_cfg mc1))]], mc2)"
    "cm_session mc2 = Some s1" "\<not> cm_ready mc2" "cm_cfg mc2 = cm_cfg mc1"
    by (rule client_adopts [OF frag ys r b(3,4) new s' e])
  show thesis
    by (rule that [OF b(2) x(1) y(1) [unfolded b(5)] x(3) y(2,3) y(4) [unfolded b(5)] e us _ _ x(7)])
      (use n s uw st x(10,11) in \<open>simp_all add: session_ok_def\<close>)
qed

section \<open>Two concrete managers\<close>

definition demo_client_draws :: ClientDraws where
  "demo_client_draws = \<lparr>cd_sids = (\<lambda>_. Inr 5), cd_kem_seed = replicate 64 1, cd_x_seed = replicate 32 2, cd_jitter = None\<rparr>"

definition demo_client_deliveries :: "client_delivery list" where
  "demo_client_deliveries = map (\<lambda>(rnd, jit, l). (rnd, jit, 6, 6, l)) demo_m2_order"

lemma demo_client_deliveries_machine: "map to_client_machine demo_client_deliveries = demo_m2_order"
  by (simp add: demo_client_deliveries_def demo_m2_order_def)

lemma demo_fresh_client:
  obtains mc where "client_manager_new demo_client_cfg session_limits_default = Inr mc" "cm_hs mc = None" "cm_session mc = None"
    "cm_cfg mc = demo_client_cfg" "cm_used_sids mc = {}" "cm_used_order mc = []" "cm_retired_sids mc = {}"
proof -
  have "ccf_version demo_client_cfg = PROTOCOL_VERSION" using demo_client_ready by (simp add: client_ready_def)
  moreover have "session_limits_validate session_limits_default = Inr ()"
    by (simp add: session_limits_validate_def session_limits_default_def from_secs_def from_millis_def)
  ultimately show thesis using that by (simp add: client_manager_new_def)
qed

lemma demo_draw:
  assumes "cm_used_sids mc = {}" "cm_used_order mc = []"
  shows "fst (fresh_sid (cd_sids demo_client_draws) mc) = Inr (to_be 8 (5 :: u64))"
proof -
  have "[0..<8 :: nat] = 0 # [1..<8]" by (simp add: upt_conv_Cons)
  then show ?thesis
    using assms by (simp add: fresh_sid_def demo_client_draws_def random_sid_def SID_HISTORY_CAP_def)
qed

lemma demo_can_connect:
  assumes "cm_hs mc = None" "cm_session mc = None" "cm_cfg mc = demo_client_cfg" "cm_used_sids mc = {}" "cm_used_order mc = []"
    "cm_retired_sids mc = {}" "mg_hs ms = demo_server" "mg_sessions ms = []"
  shows "can_connect demo demo_client_draws (to_be 8 (5 :: u64)) demo_addr mc ms"
proof -
  have "client_ready demo demo_client_cfg (to_be 8 (5 :: u64)) (replicate 64 1) (replicate 32 2)"
    using demo_client_ready by (simp add: client_ready_def)
  moreover have "can_admit (to_be 8 (5 :: u64)) demo_addr demo_server"
    using demo_server_ready(3) by (simp add: can_admit_def demo_server_def server_new_def Let_def)
  ultimately show ?thesis
    using assms demo_draw [OF assms(4,5)] demo_server_ready(4,5) by (simp add: can_connect_def) (simp add: demo_client_draws_def)
qed

section \<open>Properties\<close>

text \<open>C1: the tunnel comes up and carries data. An idle client manager and a server manager whose
  identities match, with the fragments of M2 delivered in any order and with repetitions, and those of M1
  too once fragment 0 has come first (the server drops fragments of an M1 it has not seen start), go
  through the whole exchange: the client starts a handshake, the server answers, the client adopts an
  unconfirmed session and sends M3 with a probe, the server establishes the session and answers the
  probe, the answer confirms the client's session, and the next application payload arrives at the
  server, padded to its slot, under the agreed session id.\<close>

theorem tunnel_comes_up:
  assumes "hkdf_correct P" "hash_sized P" "aead_correct P" "manager_reachable P ms" "client_mgr_reachable P mc"
    and "can_connect P rnd0 sid from mc ms" "server_ready P (sv_cfg (mg_hs ms)) rnd" "length r3 = 32"
    and "m1_schedule t0 (mg_hs ms) (map to_machine ds) i" "m2_schedule (map to_client_machine cds) j"
    and "live t0 (mg_hs ms) (mc_hs ck)" "live t0 (mg_hs ms) (mc_hs ck3)"
    and "fail_peek from (mc_now ck4) (mg_limits ms) (mg_fail_gate ms)" "fail_peek from (mc_now ck5) (mg_limits ms) (mg_fail_gate ms)"
    and "length payload \<le> PAYLOAD_LEN"
  shows "\<exists>m1s mc1 m2s ms1 m3 probe mc2 ms2 ack ms3 mc3 data mc4 inner ms4.
    manager_begin_handshake P rnd0 now0 mc = (Inr (ME_Send m1s (ccf_server_addr (cm_cfg mc))), mc1) \<and>
    run (manager_step P) (map (\<lambda>(rnd, order, ck, l). MDatagram rnd order ck (m1s ! l) from) (ds @ [(rnd, order, ck, i)])) ms =
       (replicate (length ds) (Inr [ME_None]) @ [Inr [ME_Send m2s from]], ms1) \<and>
    run (client_mgr_step P) (map (\<lambda>(rnd, jit, now, created, l). CDatagram rnd jit now created (m2s ! l) srv)
         (cds @ [(r3, jit3, now3, created3, j)])) mc1 =
       (replicate (length cds) (Inr [ME_None]) @ [Inr [ME_Send [m3, probe] (ccf_server_addr (cm_cfg mc))]], mc2) \<and>
    client_manager_state mc2 = CM_Unconfirmed \<and>
    manager_handle_datagram P rnd3 order3 ck3 m3 from ms1 = (Inr (ME_Established sid from), ms2) \<and>
    manager_handle_datagram P rnd4 order4 ck4 probe from ms2 = (Inr (ME_SendPacket ack from), ms3) \<and>
    client_manager_handle P r6 jit6 now6 created6 ack srv mc2 = (Inr ME_None, mc3) \<and>
    client_manager_state mc3 = CM_Established \<and>
    client_app_outbound P now7 payload mc3 = (Inr (ME_SendPacket data srv), mc4) \<and>
    manager_handle_datagram P rnd5 order5 ck5 data from ms3 = (Inr (ME_AppData sid inner), ms4) \<and>
    ip_msg_type inner = Data \<and> ip_payload inner = copy_at 0 payload (replicate PAYLOAD_LEN 0)"
proof -
  note inv = reachable_inv [OF assms(4)] client_reachable_inv [OF assms(5)]
  obtain m1s mc1 m2s ms1 m3 probe mc2 ms2 s s1 e where x:
    "manager_begin_handshake P rnd0 now0 mc = (Inr (ME_Send m1s (ccf_server_addr (cm_cfg mc))), mc1)"
    "run (manager_step P) (map (\<lambda>(rnd, order, ck, l). MDatagram rnd order ck (m1s ! l) from) (ds @ [(rnd, order, ck, i)])) ms =
       (replicate (length ds) (Inr [ME_None]) @ [Inr [ME_Send m2s from]], ms1)"
    "run (client_mgr_step P) (map (\<lambda>(rnd, jit, now, created, l). CDatagram rnd jit now created (m2s ! l) srv)
         (cds @ [(r3, jit3, now3, created3, j)])) mc1 =
       (replicate (length cds) (Inr [ME_None]) @ [Inr [ME_Send [m3, probe] (ccf_server_addr (cm_cfg mc))]], mc2)"
    "manager_handle_datagram P rnd3 order3 ck3 m3 from ms1 = (Inr (ME_Established sid from), ms2)"
    "cm_session mc2 = Some s1" "\<not> cm_ready mc2" "cm_cfg mc2 = cm_cfg mc"
    "wire_encrypt P Handshake (control_payload CONTROL_PROBE) s = (Inr probe, s1)"
    "up s" "cs_send_counter (ws_cipher s) = 0" "ws_session_id s = sid"
    "map_of (mg_sessions ms2) sid = Some e" "up (se_session e)" "cs_send_counter (ws_cipher (se_session e)) = 0"
    "in_step s (se_session e)" "in_step (se_session e) s"
    "mg_limits ms2 = mg_limits ms" "mg_fail_gate ms2 = mg_fail_gate ms"
    by (rule connect [OF assms(1-3) inv assms(6-12)])
  have e: "map_of (mg_sessions ms2) (ws_session_id s) = Some e" using x(11,12) by simp
  have pk: "fail_peek from (mc_now ck4) (mg_limits ms2) (mg_fail_gate ms2)" using assms(13) x(17,18) by simp
  obtain probe' s1' ack inner s2 ms3 e1 where y: "wire_encrypt P Handshake (control_payload CONTROL_PROBE) s = (Inr probe', s1')"
    "manager_handle_datagram P rnd4 order4 ck4 probe' from ms2 = (Inr (ME_SendPacket ack from), ms3)"
    "wire_decrypt P ack s1' = (Inr inner, s2)" "ip_msg_type inner = Handshake"
    "\<not> is_handshake_fragment ack" "packet_sid ack = ws_session_id s1'" "ws_session_id s2 = ws_session_id s" "up s2"
    "map_of (mg_sessions ms3) (ws_session_id s) = Some e1" "up (se_session e1)"
    "in_step s2 (se_session e1)" "in_step (se_session e1) s2" "mg_limits ms3 = mg_limits ms2" "mg_fail_gate ms3 = mg_fail_gate ms2"
    by (rule probe_round [OF assms(3) x(9,10) e x(13-16) pk])
  have [simp]: "probe' = probe" "s1' = s1" using y(1) x(8) by simp_all
  let ?mc3 = "mc2\<lparr>cm_session := Some s2, cm_ready := True, cm_rounds_unanswered := 0, cm_peer := srv\<rparr>"
  have ack: "client_manager_handle P r6 jit6 now6 created6 ack srv mc2 = (Inr ME_None, ?mc3)"
    by (rule client_receives_control [OF x(5) y(5)]) (use y(3,4,6) in simp_all)
  have len: "length (copy_at 0 payload (replicate PAYLOAD_LEN 0)) = PAYLOAD_LEN" using assms(15) by (simp add: copy_at_def)
  obtain data s3 r3' where z: "wire_encrypt P Data (copy_at 0 payload (replicate PAYLOAD_LEN 0)) s2 = (Inr data, s3)"
    "wire_decrypt P data (se_session e1) = (Inr (sealed_inner Data (copy_at 0 payload (replicate PAYLOAD_LEN 0)) (ws_cipher s2)), r3')"
    "\<not> is_handshake_fragment data" "packet_sid data = ws_session_id s2"
    by (rule exchange [OF assms(3) y(8,10-12) len])
  have sent: "client_app_outbound P now7 payload ?mc3 = (Inr (ME_SendPacket data srv), ?mc3\<lparr>cm_session := Some s3\<rparr>)"
    using client_sends [OF _ assms(15) z(1), of ?mc3] by simp
  have e1: "map_of (mg_sessions ms3) (packet_sid data) = Some e1" "packet_sid data = sid" using z(4) y(7,9) x(11) by simp_all
  have pk5: "fail_peek from (mc_now ck5) (mg_limits ms3) (mg_fail_gate ms3)" using assms(14) x(17,18) y(13,14) by simp
  note got = server_receives(1) [OF e1(1) z(3) pk5 z(2), unfolded e1(2)]
  show ?thesis
    by (intro exI conjI) (rule x(1-4) y(2) [simplified] ack sent got |
        use x(5,6) in \<open>simp add: client_manager_state_def sealed_inner_def\<close>)+
qed

theorem tunnel_comes_up_witness:
  "\<exists>ms mc m1s mc1 data mc3 mc4 inner ms3 ms4. manager_reachable demo ms \<and> client_mgr_reachable demo mc \<and>
    manager_begin_handshake demo demo_client_draws 1 mc = (Inr (ME_Send m1s (ccf_server_addr demo_client_cfg)), mc1) \<and>
    client_manager_state mc3 = CM_Established \<and>
    client_app_outbound demo 9 [1, 2, 3] mc3 = (Inr (ME_SendPacket data demo_addr), mc4) \<and>
    manager_handle_datagram demo demo_draws [] demo_manager_clock data demo_addr ms3 =
      (Inr (ME_AppData (to_be 8 (5 :: u64)) inner), ms4) \<and> take 3 (ip_payload inner) = [1, 2, 3]"
proof -
  obtain ms where ms: "manager_new 0 0 demo_server_cfg session_limits_default = Inr ms" "mg_hs ms = demo_server" "mg_sessions ms = []"
    "mg_limits ms = session_limits_default" "mg_fail_gate ms = fail_gate_new 0"
    by (rule demo_fresh_manager)
  obtain mc where mc: "client_manager_new demo_client_cfg session_limits_default = Inr mc" "cm_hs mc = None" "cm_session mc = None"
    "cm_cfg mc = demo_client_cfg" "cm_used_sids mc = {}" "cm_used_order mc = []" "cm_retired_sids mc = {}"
    by (rule demo_fresh_client)
  have cc: "can_connect demo demo_client_draws (to_be 8 (5 :: u64)) demo_addr mc ms" by (rule demo_can_connect [OF mc(2-7) ms(2,3)])
  have r3: "length (replicate 32 (9 :: byte)) = 32" by simp
  have sr: "server_ready demo (sv_cfg (mg_hs ms)) demo_draws" using demo_server_ready(2) ms(2) by simp
  have sched: "m1_schedule 0 (mg_hs ms) (map to_machine demo_deliveries) 3"
    "m2_schedule (map to_client_machine demo_client_deliveries) 3"
    using demo_schedules ms(2) by (simp_all add: demo_deliveries_machine demo_client_deliveries_machine)
  have lv: "live 0 (mg_hs ms) (mc_hs demo_manager_clock)" using demo_server_ready(6) ms(2) by (simp add: demo_manager_clock_def)
  have pk: "fail_peek demo_addr (mc_now demo_manager_clock) (mg_limits ms) (mg_fail_gate ms)"
    by (simp add: fail_peek_def ms session_limits_default_def fail_gate_new_def)
  have len: "length [1, 2, 3 :: byte] \<le> PAYLOAD_LEN" by (simp add: layout_simps)
  note rs = manager_reachable.fresh [OF ms(1), of demo] client_mgr_reachable.fresh [OF mc(1), of demo]
  have "take 3 (copy_at 0 [1, 2, 3 :: byte] (replicate PAYLOAD_LEN 0)) = [1, 2, 3]" by (simp add: copy_at_def)
  then show ?thesis
    using tunnel_comes_up [OF demo_hkdf demo_hash demo_aead rs cc sr r3 sched lv lv pk pk len,
        where ?now0.0 = 1 and srv = demo_addr and ?now7.0 = 9 and ?rnd5.0 = demo_draws and ?order5.0 = "[]"] rs mc(4) by metis
qed

end
