(* ===== verification/Client_Guarantees.thy ===== *)
theory Client_Guarantees
  imports Tunnel
begin

text \<open>What the client session manager promises over every run of its operations: one live object and
  bounded memory, no session is ever recreated or revived under a retired id, the gate opens only on an
  authenticated packet, the tunnel never gets stuck, and a tick applies the deadlines exactly.\<close>

section \<open>The gate\<close>

lemma ready_build_probe [simp]: "cm_ready (snd (build_probe P m)) = cm_ready m"
  by (simp add: build_probe_def Let_def case_prod_beta split: option.split)

lemma ready_teardown: "cm_ready (snd (teardown P now b m)) \<Longrightarrow> cm_ready m"
  by (auto simp: teardown_def retire_sid_def Let_def split: option.splits if_splits prod.splits sum.splits)

lemma ready_emit:
  assumes "\<not> cm_ready m1" "\<not> cm_ready m2"
  shows "\<not> cm_ready (snd (case res of
      Inr packet \<Rightarrow> (Inr (ME_SendPacket packet peer), m1)
    | Inl SE_RekeyRequired \<Rightarrow> (Inr (ME_Closed sid CR_NonceExhausted), m2)
    | Inl e \<Rightarrow> (Inl (MgrSession e), m1)))"
  using assms by (simp split: sum.split SessionError.split)

lemma ready_closed: "\<not> cm_ready m \<Longrightarrow> \<not> cm_ready (snd (teardown P now True (m\<lparr>cm_session := Some s\<rparr>)))"
  using ready_teardown [of P now True "m\<lparr>cm_session := Some s\<rparr>"] by auto

lemma ready_send:
  assumes "\<not> cm_ready m"
  shows "\<not> cm_ready (snd (client_send_encrypted P now mt payload m))"
proof (cases "cm_session m")
  case None
  then show ?thesis using assms by (simp add: client_send_encrypted_def)
next
  case (Some s)
  show ?thesis unfolding client_send_encrypted_def Some option.case Let_def case_prod_beta
    by (rule ready_emit) (use assms ready_closed [OF assms] in simp_all)
qed

lemma ready_cover:
  assumes "\<not> cm_ready m"
  shows "\<not> cm_ready (snd (client_cover_packet P rnd now m))"
proof (cases "cm_session m")
  case None
  then show ?thesis using assms by (simp add: client_cover_packet_def)
next
  case (Some s)
  show ?thesis unfolding client_cover_packet_def Some option.case Let_def case_prod_beta
    by (rule ready_emit) (use assms ready_closed [OF assms] in simp_all)
qed

lemma ready_queue [simp]:
  "cm_ready (log_drop now m) = cm_ready m" "cm_ready (snd (enqueue now payload m)) = cm_ready m"
  "cm_ready (snd (expire_queued log_now now m)) = cm_ready m"
  by (simp_all add: log_drop_def enqueue_def expire_queued_def Let_def split: option.split)

lemma ready_slot:
  assumes "\<not> cm_ready m"
  shows "\<not> cm_ready (snd (take_slot P log_now closed_at now m))"
proof -
  obtain e1 m1 where a: "take_queued_payload P log_now closed_at now m = (e1, m1)" by fastforce
  have "\<not> cm_ready (snd (take_queued_payload P log_now closed_at now m))"
    using assms ready_queue(3) [of log_now now m]
    by (auto simp: take_queued_payload_def Let_def case_prod_beta split: list.split intro!: ready_send)
  then have m1: "\<not> cm_ready m1" by (simp add: a)
  obtain e2 m2 where b: "take_probe P now m1 = (e2, m2)" by fastforce
  have "cm_ready (snd (take_probe P now m1)) = cm_ready m1"
    by (simp add: take_probe_def Let_def case_prod_beta split: option.split)
  then have "\<not> cm_ready m2" using m1 by (simp add: b)
  then show ?thesis using a b m1 assms by (simp add: take_slot_def split: option.split)
qed

lemma ready_close:
  assumes "\<not> cm_ready m"
  shows "\<not> cm_ready (snd (close_now P reason now m))" "\<not> cm_ready (snd (client_close P now m))"
  using assms ready_teardown [of P now True m]
  by (auto simp: close_now_def client_close_def Let_def case_prod_beta split: option.split)

lemma ready_deadlines:
  assumes "\<not> cm_ready m"
  shows "\<not> cm_ready (snd (deadlines P now m))"
proof -
  have 1: "\<not> cm_ready (snd (handshake_deadline now m))" using assms by (simp add: handshake_deadline_def Let_def split: option.split)
  have 2: "\<not> cm_ready (snd (lifetime_deadline P now m'))" if "\<not> cm_ready m'" for m'
    using that ready_close(1) [OF that] by (simp add: lifetime_deadline_def Let_def split: option.split)
  have 3: "\<not> cm_ready (snd (confirm_stage P now m'))" "\<not> cm_ready (snd (liveness_stage P now m'))" if "\<not> cm_ready m'" for m'
    using that ready_close(1) [OF that] by (simp_all add: confirm_stage_def liveness_stage_def)
  show ?thesis using 3(2) [OF 3(1) [OF 2 [OF 1]]] by (simp add: deadlines_def Let_def case_prod_beta)
qed

lemma ready_on_m3_sent: "\<not> cm_ready m \<Longrightarrow> \<not> cm_ready (snd (on_m3_sent P now created ps out m))"
  by (simp add: on_m3_sent_def Let_def case_prod_beta split: sum.split)

lemma ready_timer:
  assumes "\<not> cm_ready m"
  shows "\<not> cm_ready (snd (manager_on_timer P jit now created m))"
proof (cases "cm_hs m")
  case None
  then show ?thesis using assms by (simp add: manager_on_timer_def Let_def case_prod_beta)
next
  case (Some h)
  then show ?thesis
    using assms ready_on_m3_sent [of "m\<lparr>cm_hs := Some (snd (client_on_timer jit h))\<rparr>"]
    by (auto simp: manager_on_timer_def Let_def case_prod_beta split: sum.split ClientEvent.split HandshakeV2Error.split)
qed

lemma ready_begin: "\<not> cm_ready m \<Longrightarrow> client_mgr_inv P m \<Longrightarrow> \<not> cm_ready (snd (manager_begin_handshake P rnd now m))"
  by (rule begin_cases [of P m rnd now]) auto

lemma ready_fragment:
  assumes "\<not> cm_ready m" "is_handshake_fragment pkt"
  shows "\<not> cm_ready (snd (client_manager_handle P rnd jit now created pkt from m))"
proof (cases "cm_hs m")
  case None
  then show ?thesis using assms by (simp add: client_manager_handle_def)
next
  case (Some h)
  then show ?thesis
    using assms ready_on_m3_sent [of "m\<lparr>cm_hs := Some (snd (client_handle_datagram P rnd jit pkt h))\<rparr>"]
    by (auto simp: client_manager_handle_def Let_def case_prod_beta split: sum.split ClientEvent.split)
qed

lemma ready_only_datagram:
  assumes inv: "client_mgr_inv P m" and r: "\<not> cm_ready m" "cm_ready (snd (client_mgr_step P i m))"
  obtains rnd jit now created pkt "from" where "i = CDatagram rnd jit now created pkt from" "\<not> is_handshake_fragment pkt"
proof (cases i)
  case (CDatagram rnd jit now created pkt "from")
  have "\<not> is_handshake_fragment pkt"
    using ready_fragment [OF r(1), of pkt P rnd jit now created "from"] r(2) CDatagram by auto
  then show thesis by (rule that [OF CDatagram])
next
  case (CTick log_now now)
  then show thesis
    using r ready_deadlines [OF r(1)] by (simp add: client_tick_eq Let_def case_prod_beta)
qed (use r ready_begin [OF r(1) inv] ready_timer [OF r(1)] ready_slot [OF r(1)] ready_send [OF r(1)] ready_cover [OF r(1)] ready_close [OF r(1)]
     in \<open>auto simp: Let_def case_prod_beta client_app_outbound_def client_tun_outbound_def split: if_splits\<close>)

text \<open>The packet is for the session the client holds and opens under it.\<close>

definition authenticates :: "primitives \<Rightarrow> WirePacket \<Rightarrow> ClientSessionManager \<Rightarrow> bool" where
  "authenticates P pkt m =
     (\<not> is_handshake_fragment pkt \<and>
      (case cm_session m of None \<Rightarrow> False
       | Some s \<Rightarrow> packet_sid pkt = ws_session_id s \<and> \<not> isl (fst (wire_decrypt P pkt s))))"

lemma for_held_session:
  assumes "client_on_data_packet P now pkt from m \<noteq> (Inr ME_None, m)" "cm_session m = Some s"
  shows "packet_sid pkt = ws_session_id s"
  using assms by (auto simp: client_on_data_packet_def packet_sid_def Let_def split: if_splits)

lemma opens_authentic:
  assumes inv: "client_mgr_inv P m" and hs: "\<not> is_handshake_fragment pkt"
    and r: "\<not> cm_ready m" "cm_ready (snd (client_on_data_packet P now pkt from m))"
  shows "authenticates P pkt m"
  using inv
proof (cases rule: client_data_cases [of P m now pkt "from"])
  case (exhausted s s1)
  then show ?thesis using r ready_closed [OF r(1)] by simp
next
  case (closed s s1 inner)
  have "client_session s" using client_mgr_invD(4) [OF inv closed(1)] by blast
  then have "client_mgr_inv P (m\<lparr>cm_session := Some s1\<rparr>)"
    by (rule settles_inv [OF settles_session [OF inv closed(1) decrypt_continues [OF _ closed(2)]]])
  then have "client_mgr_inv P (m\<lparr>cm_session := Some s1, cm_ready := True, cm_rounds_unanswered := 0, cm_peer := from\<rparr>)"
    using settles_inv [OF settles_ready, of P "m\<lparr>cm_session := Some s1\<rparr>"] by (simp add: client_mgr_inv_def)
  from teardown_effect(1,2) [OF this, of now False] have "\<not> cm_ready (snd (client_on_data_packet P now pkt from m))"
    using client_mgr_invD(3) [OF settles_inv] closed(4) by simp
  then show ?thesis using r(2) by blast
next
  case (received s s1 inner)
  have "client_on_data_packet P now pkt from m \<noteq> (Inr ME_None, m)" using r by auto
  from for_held_session [OF this received(1)] show ?thesis using received hs by (simp add: authenticates_def)
qed (use r in simp_all)

lemma delivers_authentic:
  assumes inv: "client_mgr_inv P m" and hs: "\<not> is_handshake_fragment pkt"
    and d: "fst (client_on_data_packet P now pkt from m) = Inr (ME_AppData sid inner)"
  shows "authenticates P pkt m \<and> cm_ready (snd (client_on_data_packet P now pkt from m))"
  using inv
proof (cases rule: client_data_cases [of P m now pkt "from"])
  case (received s s1 inner)
  have "client_on_data_packet P now pkt from m \<noteq> (Inr ME_None, m)" using d by auto
  from for_held_session [OF this received(1)] show ?thesis using received hs by (simp add: authenticates_def)
qed (use d in simp_all)

lemma fragment_no_data:
  assumes "is_handshake_fragment pkt"
  shows "fst (client_manager_handle P rnd jit now created pkt from m) \<noteq> Inr (ME_AppData sid inner)"
proof -
  have "fst (on_m3_sent P now created ps out m') \<noteq> Inr (ME_AppData sid inner)" for ps out m'
    by (simp add: on_m3_sent_def Let_def case_prod_beta split: sum.split)
  then show ?thesis
    using assms by (auto simp: client_manager_handle_def Let_def case_prod_beta split: option.split sum.split ClientEvent.split)
qed

section \<open>The deadlines of a tick\<close>

text \<open>Why a session is closed by a tick: its age, the missing confirmation, or the unanswered rounds.\<close>

definition close_reason :: "instant \<Rightarrow> ClientSessionManager \<Rightarrow> CloseReason option" where
  "close_reason now m =
     (case cm_prepared_at m of
        None \<Rightarrow> None
      | Some p \<Rightarrow>
          if (case sl_lifetime_cap (cm_limits m) of None \<Rightarrow> False | Some t \<Rightarrow> t \<le> now - p) then Some CR_LifetimeCap
          else if \<not> cm_ready m \<and> (case sl_confirm_timeout (cm_limits m) of None \<Rightarrow> False | Some t \<Rightarrow> t \<le> now - p)
          then Some CR_NotConfirmed
          else if cm_ready m \<and> sl_liveness_rounds (cm_limits m) \<le> cm_rounds_unanswered m then Some CR_PeerUnresponsive
          else None)"

lemma close_now_effect:
  assumes "cm_session m = Some s"
  shows "ME_Closed sid r \<in> set (fst (close_now P reason now m)) \<longleftrightarrow> sid = ws_session_id s \<and> r = reason"
    "cm_pending_closed (snd (close_now P reason now m)) = cm_pending_closed m"
    "cm_ready (snd (close_now P reason now m)) = False" "cm_prepared_at (snd (close_now P reason now m)) = None"
    "cm_session (snd (close_now P reason now m)) = None"
  using assms
  by (auto simp: close_now_def session_id_of_def teardown_def retire_sid_def Let_def split: prod.splits sum.splits if_splits)

lemma after_close:
  assumes "cm_session m = Some s" "close_now P reason now m = (evs, m1)"
  shows "confirm_stage P now m1 = ([], m1)" "liveness_stage P now m1 = ([], m1)"
  using close_now_effect(3,4) [OF assms(1), of P reason now] assms(2)
  by (simp_all add: confirm_stage_def confirm_deadline_passed_def liveness_stage_def)

lemma deadlines_eq:
  assumes inv: "client_mgr_inv P m" and s: "cm_session m = Some s"
  shows "deadlines P now m = (case close_reason now m of None \<Rightarrow> ([], m) | Some r \<Rightarrow> close_now P r now m)"
proof -
  have hs: "handshake_deadline now m = ([], m)" using client_mgr_invD(1) [OF inv] s by (simp add: handshake_deadline_def)
  obtain p where p: "cm_prepared_at m = Some p" using client_mgr_invD(4) [OF inv s] by blast
  define life where "life = (case sl_lifetime_cap (cm_limits m) of None \<Rightarrow> False | Some t \<Rightarrow> t \<le> now - p)"
  define conf where "conf = (\<not> cm_ready m \<and> (case sl_confirm_timeout (cm_limits m) of None \<Rightarrow> False | Some t \<Rightarrow> t \<le> now - p))"
  have l: "lifetime_deadline P now m = (if life then close_now P CR_LifetimeCap now m else ([], m))"
    by (simp add: lifetime_deadline_def p life_def split: option.split)
  have c: "confirm_stage P now m = (if conf then close_now P CR_NotConfirmed now m else ([], m))"
    by (simp add: confirm_stage_def confirm_deadline_passed_def p conf_def split: option.split)
  have r: "close_reason now m = (if life then Some CR_LifetimeCap else if conf then Some CR_NotConfirmed
      else if cm_ready m \<and> sl_liveness_rounds (cm_limits m) \<le> cm_rounds_unanswered m then Some CR_PeerUnresponsive else None)"
    by (simp add: close_reason_def p life_def conf_def)
  obtain e1 m1 where x1: "close_now P CR_LifetimeCap now m = (e1, m1)" by fastforce
  obtain e2 m2 where x2: "close_now P CR_NotConfirmed now m = (e2, m2)" by fastforce
  obtain e3 m3 where x3: "close_now P CR_PeerUnresponsive now m = (e3, m3)" by fastforce
  show ?thesis
    using after_close [OF s x1] after_close(2) [OF s x2]
    by (simp add: deadlines_def hs l c r x1 x2 x3 liveness_stage_def)
qed

lemma deadlines_session:
  assumes "client_mgr_inv P m" "cm_session m = Some s"
  shows "ME_Closed sid r \<in> set (fst (deadlines P now m)) \<longleftrightarrow> sid = ws_session_id s \<and> close_reason now m = Some r"
    "cm_session (snd (deadlines P now m)) = (if close_reason now m = None then Some s else None)"
    "cm_pending_closed (snd (deadlines P now m)) = cm_pending_closed m"
  using close_now_effect [OF assms(2)] assms(2) by (auto simp: deadlines_eq [OF assms] split: option.split)

lemma expire_frame [simp]:
  "cm_session (snd (expire_queued log_now now m)) = cm_session m"
  "cm_pending_closed (snd (expire_queued log_now now m)) = cm_pending_closed m"
  by (simp_all add: expire_queued_def log_drop_def Let_def split: option.split)

lemma teardown_no_handshake: "cm_hs m = None \<Longrightarrow> cm_hs (snd (teardown P now b m)) = None"
  by (simp add: teardown_def retire_sid_def Let_def split: option.split prod.split sum.split)

lemma tick_no_handshake: "cm_hs m = None \<Longrightarrow> cm_hs (snd (client_manager_tick P log_now now m)) = None"
proof -
  assume n: "cm_hs m = None"
  have c: "cm_hs (snd (close_now P reason now m')) = None" if "cm_hs m' = None" for reason m'
    using teardown_no_handshake [OF that, of P now True] that by (simp add: close_now_def Let_def case_prod_beta split: option.split)
  have l: "cm_hs (snd (lifetime_deadline P now m)) = None"
    using c [OF n] n by (simp add: lifetime_deadline_def Let_def split: option.split)
  have "cm_hs (snd (confirm_stage P now m')) = None" "cm_hs (snd (liveness_stage P now m')) = None" if "cm_hs m' = None" for m'
    using c [OF that] that by (simp_all add: confirm_stage_def liveness_stage_def)
  then have "cm_hs (snd (deadlines P now m)) = None"
    using l n by (simp add: deadlines_def handshake_deadline_def Let_def case_prod_beta)
  moreover have "cm_hs (snd (expire_queued log_now now m')) = cm_hs m'" for m'
    by (simp add: expire_queued_def log_drop_def Let_def split: option.split)
  ultimately show ?thesis by (simp add: client_tick_eq Let_def case_prod_beta)
qed

lemma run_alive:
  assumes "client_mgr_inv P m"
  shows "alive m \<longrightarrow> alive (snd (run (client_mgr_step P) is m))" "cm_limits (snd (run (client_mgr_step P) is m)) = cm_limits m"
    "cm_cfg (snd (run (client_mgr_step P) is m)) = cm_cfg m"
proof -
  have "(alive m \<longrightarrow> alive (snd (run (client_mgr_step P) is m))) \<and> cm_limits (snd (run (client_mgr_step P) is m)) = cm_limits m \<and>
    cm_cfg (snd (run (client_mgr_step P) is m)) = cm_cfg m"
    using assms
  proof (induction "is" arbitrary: m)
    case (Cons i "is")
    have "evolves P m (snd (client_mgr_step P i m))" by (rule client_mgr_evolves [OF Cons.prems])
    then show ?case using Cons.IH [of "snd (client_mgr_step P i m)"] by (auto simp: evolves_def simp del: client_mgr_step.simps)
  qed simp
  then show "alive m \<longrightarrow> alive (snd (run (client_mgr_step P) is m))" "cm_limits (snd (run (client_mgr_step P) is m)) = cm_limits m"
    "cm_cfg (snd (run (client_mgr_step P) is m)) = cm_cfg m" by blast+
qed

section \<open>A concrete client with a session\<close>

lemma demo_connected:
  obtains m s ack inner s1 where "client_mgr_reachable demo m" "cm_session m = Some s" "\<not> cm_ready m"
    "\<not> is_handshake_fragment ack" "packet_sid ack = ws_session_id s" "wire_decrypt demo ack s = (Inr inner, s1)"
    "ip_msg_type inner = Handshake" "cm_prepared_at m \<noteq> None" "cm_limits m = session_limits_default"
proof -
  obtain ms where ms: "manager_new 0 0 demo_server_cfg session_limits_default = Inr ms" "mg_hs ms = demo_server" "mg_sessions ms = []"
    "mg_limits ms = session_limits_default" "mg_fail_gate ms = fail_gate_new 0"
    by (rule demo_fresh_manager)
  obtain mc where mc: "client_manager_new demo_client_cfg session_limits_default = Inr mc" "cm_hs mc = None" "cm_session mc = None"
    "cm_cfg mc = demo_client_cfg" "cm_used_sids mc = {}" "cm_used_order mc = []" "cm_retired_sids mc = {}"
    by (rule demo_fresh_client)
  have lim: "cm_limits mc = session_limits_default" using mc(1) by (auto simp: client_manager_new_def split: if_splits sum.splits)
  have cc: "can_connect demo demo_client_draws (to_be 8 (5 :: u64)) demo_addr mc ms" by (rule demo_can_connect [OF mc(2-7) ms(2,3)])
  have r3: "length (replicate 32 (9 :: byte)) = 32" by simp
  have sr: "server_ready demo (sv_cfg (mg_hs ms)) demo_draws" using demo_server_ready(2) ms(2) by simp
  have sched: "m1_schedule 0 (mg_hs ms) (map to_machine demo_deliveries) 3"
    "m2_schedule (map to_client_machine demo_client_deliveries) 3"
    using demo_schedules ms(2) by (simp_all add: demo_deliveries_machine demo_client_deliveries_machine)
  have lv: "live 0 (mg_hs ms) (mc_hs demo_manager_clock)" using demo_server_ready(6) ms(2) by (simp add: demo_manager_clock_def)
  note rc = client_mgr_reachable.fresh [OF mc(1), of demo]
  note con = connect [where ?now0.0 = 1 and ?jit3.0 = None and ?now3.0 = 6 and ?created3.0 = 6 and srv = demo_addr and order = "[]"
      and ?rnd3.0 = demo_draws and ?order3.0 = "[]",
      OF demo_hkdf demo_hash demo_aead manager_new_inv [OF ms(1)] client_reachable_inv [OF rc] cc sr r3 sched lv lv]
  obtain m1s mc1 m2s ms1 m3 probe m ms2 s s1 e where x:
    "manager_begin_handshake demo demo_client_draws 1 mc = (Inr (ME_Send m1s (ccf_server_addr (cm_cfg mc))), mc1)"
    "run (manager_step demo) (map (\<lambda>(rnd, order, ck, l). MDatagram rnd order ck (m1s ! l) demo_addr)
         (demo_deliveries @ [(demo_draws, [], demo_manager_clock, 3)])) ms =
       (replicate (length demo_deliveries) (Inr [ME_None]) @ [Inr [ME_Send m2s demo_addr]], ms1)"
    "run (client_mgr_step demo) (map (\<lambda>(rnd, jit, now, created, l). CDatagram rnd jit now created (m2s ! l) demo_addr)
         (demo_client_deliveries @ [(replicate 32 9, None, 6, 6, 3)])) mc1 =
       (replicate (length demo_client_deliveries) (Inr [ME_None]) @ [Inr [ME_Send [m3, probe] (ccf_server_addr (cm_cfg mc))]], m)"
    "manager_handle_datagram demo demo_draws [] demo_manager_clock m3 demo_addr ms1 = (Inr (ME_Established (to_be 8 (5 :: u64)) demo_addr), ms2)"
    "cm_session m = Some s1" "\<not> cm_ready m" "cm_cfg m = cm_cfg mc"
    "wire_encrypt demo Handshake (control_payload CONTROL_PROBE) s = (Inr probe, s1)"
    "up s" "cs_send_counter (ws_cipher s) = 0" "ws_session_id s = to_be 8 (5 :: u64)"
    "map_of (mg_sessions ms2) (to_be 8 (5 :: u64)) = Some e" "up (se_session e)" "cs_send_counter (ws_cipher (se_session e)) = 0"
    "in_step s (se_session e)" "in_step (se_session e) s" "mg_limits ms2 = mg_limits ms" "mg_fail_gate ms2 = mg_fail_gate ms"
    by (rule con)
  have e: "map_of (mg_sessions ms2) (ws_session_id s) = Some e" using x(11,12) by simp
  have pk: "fail_peek demo_addr (mc_now demo_manager_clock) (mg_limits ms2) (mg_fail_gate ms2)"
    by (simp add: fail_peek_def x(17,18) ms session_limits_default_def fail_gate_new_def)
  obtain probe' s1' ack inner s2 ms3 where y: "wire_encrypt demo Handshake (control_payload CONTROL_PROBE) s = (Inr probe', s1')"
    "manager_handle_datagram demo demo_draws [] demo_manager_clock probe' demo_addr ms2 = (Inr (ME_SendPacket ack demo_addr), ms3)"
    "wire_decrypt demo ack s1' = (Inr inner, s2)" "ip_msg_type inner = Handshake"
    "\<not> is_handshake_fragment ack" "packet_sid ack = ws_session_id s1'"
    by (rule probe_round [OF demo_aead x(9,10) e x(13-16) pk])
  have eq: "s1' = s1" using y(1) x(8) by simp
  have r1: "client_mgr_reachable demo mc1" using client_mgr_reachable.step [OF rc, of "CBegin demo_client_draws 1"] x(1) by simp
  have r: "client_mgr_reachable demo m" using client_reachable_run [OF r1] x(3) by (metis snd_conv)
  have "cm_limits mc1 = cm_limits mc"
    using begin_evolves [OF client_reachable_inv [OF rc], of demo_client_draws 1] x(1) by (simp add: evolves_def)
  then have "cm_limits m = cm_limits mc" using run_alive(2) [OF client_reachable_inv [OF r1]] x(3) by (metis snd_conv)
  then have l: "cm_limits m = session_limits_default" using lim by simp
  have a: "packet_sid ack = ws_session_id s1" "wire_decrypt demo ack s1 = (Inr inner, s2)" using y(3,6) eq by simp_all
  have "cm_prepared_at m \<noteq> None" using client_mgr_invD(4) [OF client_reachable_inv [OF r] x(5)] by blast
  then show thesis by (rule that [OF r x(5,6) y(5) a y(4) _ l])
qed

section \<open>Properties\<close>

text \<open>C28: whatever datagrams, timers, slots, ticks, writes and closes a client manager sees, it never holds a
  handshake and a session at once, its session is a client session under an id it has not retired, the
  confirmation gate is only ever open on a session, and its memory is bounded: 64 queued payloads, 64
  remembered and 1024 retired session ids, the M3 retransmission budget and two retransmissions per close.\<close>

theorem client_one_live_object:
  assumes "client_manager_new cfg limits = Inr m0"
  shows "let m = snd (run (client_mgr_step P) is m0) in
     (cm_hs m = None \<or> cm_session m = None) \<and> (cm_ready m \<longrightarrow> cm_session m \<noteq> None) \<and>
     (\<forall>s. cm_session m = Some s \<longrightarrow> ws_role s = Client \<and> ws_state s \<in> {Established, Rekey} \<and> ws_session_id s \<notin> cm_retired_sids m) \<and>
     length (cm_out_queue m) \<le> 64 \<and> card (cm_used_sids m) \<le> 64 \<and> card (cm_retired_sids m) \<le> 1024 \<and>
     cm_m3_attempts m \<le> ccf_m3_max_attempts cfg \<and> (\<forall>pc \<in> set (cm_pending_closes m). unat (pc_attempts_left pc) \<le> 2)"
proof -
  let ?m = "snd (run (client_mgr_step P) is m0)"
  have inv0: "client_mgr_inv P m0" by (rule client_manager_new_inv [OF assms])
  have inv: "client_mgr_inv P ?m" by (rule client_mgr.run_inv [OF inv0])
  note d = client_mgr_invD [OF inv]
  have cfg: "cm_cfg ?m = cfg"
    unfolding run_alive(3) [OF inv0] using assms by (auto simp: client_manager_new_def split: if_splits sum.splits)
  have card: "card sids \<le> cap" if "history_ok cap sids order" for cap sids order
    using that card_length [of order] by (simp add: history_ok_def)
  have "cm_ready ?m \<longrightarrow> cm_session ?m \<noteq> None" using d(3) by blast
  moreover have "ws_role s = Client \<and> ws_state s \<in> {Established, Rekey} \<and> ws_session_id s \<notin> cm_retired_sids ?m"
    if "cm_session ?m = Some s" for s using d(4) [OF that] by (simp add: client_session_def)
  moreover have "unat (pc_attempts_left pc) \<le> 2" if "pc \<in> set (cm_pending_closes ?m)" for pc
    using d(9) [OF that] by (simp add: close_ok_def)
  moreover have "card (cm_used_sids ?m) \<le> 64" "card (cm_retired_sids ?m) \<le> 1024"
    using card [OF d(5)] card [OF d(6)] by (simp_all add: SID_HISTORY_CAP_def RETIRED_SID_CAP_def)
  ultimately show ?thesis
    using d(1,7,8) cfg unfolding Let_def OUTBOUND_QUEUE_CAP_def by blast
qed

theorem client_one_live_object_witness:
  "\<exists>m0. client_manager_new demo_client_cfg session_limits_default = Inr m0 \<and>
     length (cm_out_queue (snd (run (client_mgr_step demo) [CApp 1 [7], CBegin demo_client_draws 2] m0))) \<le> 64"
proof -
  obtain m0 where m0: "client_manager_new demo_client_cfg session_limits_default = Inr m0" by (rule demo_fresh_client)
  show ?thesis
    using m0 client_one_live_object [OF m0, of demo "[CApp 1 [7], CBegin demo_client_draws 2]"] unfolding Let_def by blast
qed

text \<open>C24: a client session is adopted once and never recreated. Across any step a session that stays keeps its
  id and keys, its send counter never goes back and its replay window never reopens; a session that goes leaves
  its id retired, and no session is held under a retired id.\<close>

theorem client_session_never_recreated:
  assumes "client_mgr_reachable P m"
  shows "let m1 = snd (client_mgr_step P i m) in
     (\<forall>s s1. cm_session m = Some s \<longrightarrow> cm_session m1 = Some s1 \<longrightarrow> continues s s1) \<and>
     (\<forall>s. cm_session m = Some s \<longrightarrow> cm_session m1 = None \<longrightarrow> ws_session_id s \<in> cm_retired_sids m1) \<and>
     (\<forall>s1. cm_session m1 = Some s1 \<longrightarrow> ws_session_id s1 \<notin> cm_retired_sids m1 \<and> cm_retired_sids m1 = cm_retired_sids m)"
proof -
  let ?m1 = "snd (client_mgr_step P i m)"
  have e: "evolves P m ?m1" by (rule client_mgr_evolves [OF client_reachable_inv [OF assms]])
  then have inv: "client_mgr_inv P ?m1" and r: "retires m ?m1" by (simp_all add: evolves_def)
  have "ws_session_id s1 \<notin> cm_retired_sids ?m1 \<and> cm_retired_sids ?m1 = cm_retired_sids m" if "cm_session ?m1 = Some s1" for s1
    using client_mgr_invD(4) [OF inv that] r that by (cases "cm_session m") (simp_all add: retires_def)
  moreover have "ws_session_id s \<in> cm_retired_sids ?m1" if "cm_session m = Some s" "cm_session ?m1 = None" for s
    using r that by (simp add: retires_def)
  moreover have "continues s s1" if "cm_session m = Some s" "cm_session ?m1 = Some s1" for s s1
    using e that by (simp add: evolves_def)
  ultimately show ?thesis unfolding Let_def by blast
qed

theorem client_session_never_recreated_witness:
  "\<exists>m s. client_mgr_reachable demo m \<and> cm_session m = Some s \<and>
     (cm_session (snd (client_mgr_step demo (CClose 7) m)) = None \<longrightarrow>
        ws_session_id s \<in> cm_retired_sids (snd (client_mgr_step demo (CClose 7) m)))"
proof -
  obtain m s where m: "client_mgr_reachable demo m" "cm_session m = Some s" by (rule demo_connected)
  show ?thesis using m client_session_never_recreated [OF m(1), of "CClose 7"] unfolding Let_def by blast
qed

text \<open>C25: the confirmation gate of the client opens only on a datagram that is not a handshake fragment and that
  decrypts under the session the client holds, and every datagram the client hands to the application
  was authenticated this way and leaves the gate open.\<close>

theorem client_gate_opens_on_authentic:
  assumes "client_mgr_reachable P m"
  shows "(\<not> cm_ready m \<and> cm_ready (snd (client_mgr_step P i m)) \<longrightarrow>
      (\<exists>rnd jit now created pkt from. i = CDatagram rnd jit now created pkt from \<and> authenticates P pkt m)) \<and>
    (fst (client_manager_handle P rnd jit now created pkt from m) = Inr (ME_AppData sid inner) \<longrightarrow>
      authenticates P pkt m \<and> cm_ready (snd (client_manager_handle P rnd jit now created pkt from m)))"
proof -
  have inv: "client_mgr_inv P m" by (rule client_reachable_inv [OF assms])
  have "\<exists>rnd jit now created pkt from. i = CDatagram rnd jit now created pkt from \<and> authenticates P pkt m"
    if r: "\<not> cm_ready m" "cm_ready (snd (client_mgr_step P i m))"
  proof -
    obtain rnd jit now created pkt "from" where i: "i = CDatagram rnd jit now created pkt from" "\<not> is_handshake_fragment pkt"
      by (rule ready_only_datagram [OF inv r])
    then have "authenticates P pkt m"
      using opens_authentic [OF inv i(2), of now "from"] r by (simp add: client_manager_handle_def)
    then show ?thesis using i(1) by blast
  qed
  moreover have "authenticates P pkt m \<and> cm_ready (snd (client_manager_handle P rnd jit now created pkt from m))"
    if d: "fst (client_manager_handle P rnd jit now created pkt from m) = Inr (ME_AppData sid inner)"
  proof -
    have hs: "\<not> is_handshake_fragment pkt" using fragment_no_data [of pkt P rnd jit now created "from" m sid inner] d by blast
    then have "client_manager_handle P rnd jit now created pkt from m = client_on_data_packet P now pkt from m"
      by (simp add: client_manager_handle_def)
    then show ?thesis using delivers_authentic [OF inv hs, of now "from" sid inner] d by simp
  qed
  ultimately show ?thesis by blast
qed

theorem client_gate_opens_on_authentic_witness:
  "\<exists>m ack. client_mgr_reachable demo m \<and> \<not> cm_ready m \<and>
     cm_ready (snd (client_mgr_step demo (CDatagram [] None 8 8 ack demo_addr) m)) \<and> authenticates demo ack m"
proof -
  obtain m s ack inner s1 where m: "client_mgr_reachable demo m" "cm_session m = Some s" "\<not> cm_ready m"
    "\<not> is_handshake_fragment ack" "packet_sid ack = ws_session_id s" "wire_decrypt demo ack s = (Inr inner, s1)"
    "ip_msg_type inner = Handshake"
    by (rule demo_connected)
  have "cm_ready (snd (client_mgr_step demo (CDatagram [] None 8 8 ack demo_addr) m))"
    using client_receives_control [OF m(2,4-7)] by simp
  then show ?thesis
    using client_gate_opens_on_authentic [OF m(1), of "CDatagram [] None 8 8 ack demo_addr"] m(1,3) by blast
qed

text \<open>The client never gets stuck. Once a handshake was started, in every later state the client is
  handshaking, holds a session or asks to be re-armed; and from an idle state the next call with a fresh
  session id starts a handshake again.\<close>

lemma client_never_stuck:
  assumes "client_mgr_reachable P m" "manager_begin_handshake P rnd now m = (Inr ev, m0)"
  shows "let m1 = snd (run (client_mgr_step P) is m0) in
     client_manager_state m1 = CM_Idle \<longrightarrow> needs_rearm m1 \<and>
       (\<forall>rnd now sid. fst (fresh_sid (cd_sids rnd) m1) = Inr sid \<longrightarrow>
          client_ready P (cm_cfg m1) sid (cd_kem_seed rnd) (cd_x_seed rnd) \<longrightarrow>
          (\<exists>ps m2. manager_begin_handshake P rnd now m1 = (Inr (ME_Send ps (ccf_server_addr (cm_cfg m1))), m2) \<and>
             client_manager_state m2 = CM_Handshaking))"
proof -
  let ?m1 = "snd (run (client_mgr_step P) is m0)"
  have inv: "client_mgr_inv P m" by (rule client_reachable_inv [OF assms(1)])
  have r0: "client_mgr_reachable P m0" using client_mgr_reachable.step [OF assms(1), of "CBegin rnd now"] assms(2) by simp
  have "alive m0" using inv by (rule begin_cases [of P m rnd now]) (use assms(2) in \<open>auto simp: alive_def\<close>)
  then have al: "alive ?m1" using run_alive(1) [OF client_reachable_inv [OF r0]] by blast
  have inv1: "client_mgr_inv P ?m1" by (rule client_reachable_inv [OF client_reachable_run [OF r0]])
  have "needs_rearm ?m1" and idle: "cm_hs ?m1 = None" "cm_session ?m1 = None" if "client_manager_state ?m1 = CM_Idle"
    using that al by (auto simp: client_manager_state_def alive_def needs_rearm_def split: if_splits)
  moreover have "\<exists>ps m2. manager_begin_handshake P rnd now ?m1 = (Inr (ME_Send ps (ccf_server_addr (cm_cfg ?m1))), m2) \<and>
      client_manager_state m2 = CM_Handshaking"
    if i: "client_manager_state ?m1 = CM_Idle" and f: "fst (fresh_sid (cd_sids rnd) ?m1) = Inr sid"
      and c: "client_ready P (cm_cfg ?m1) sid (cd_kem_seed rnd) (cd_x_seed rnd)" for rnd now sid
  proof -
    obtain m' where f': "fresh_sid (cd_sids rnd) ?m1 = (Inr sid, m')" using f by (cases "fresh_sid (cd_sids rnd) ?m1") auto
    obtain h m2 where "manager_begin_handshake P rnd now ?m1 = (Inr (ME_Send (ch_m1_frags h) (ccf_server_addr (cm_cfg ?m1))), m2)"
      "cm_hs m2 = Some h" "cm_session m2 = None"
      by (rule begin_honest [OF inv1 idle [OF i] f' c])
    then show ?thesis by (auto simp: client_manager_state_def)
  qed
  ultimately show ?thesis unfolding Let_def by blast
qed

text \<open>C30: a tick of a client that holds a session closes it exactly when a deadline has passed (its lifetime, else
  the confirmation of an unconfirmed one, else the unanswered rounds of a confirmed one), reports exactly that
  close and the queued ones, and otherwise keeps the session as it is.\<close>

theorem client_tick_deadlines:
  assumes "client_mgr_reachable P m" "cm_session m = Some s"
  shows "let (out, m1) = client_manager_tick P log_now now m in
     cm_session m1 = (if close_reason now m = None then Some s else None) \<and>
     (ME_Closed sid reason \<in> set out \<longleftrightarrow>
        (sid = ws_session_id s \<and> close_reason now m = Some reason) \<or> ME_Closed sid reason \<in> set (cm_pending_closed m)) \<and>
     cm_pending_closed m1 = [] \<and> (close_reason now m \<noteq> None \<longrightarrow> needs_rearm m1)"
proof -
  have inv: "client_mgr_inv P m" by (rule client_reachable_inv [OF assms(1)])
  note d = deadlines_session [OF inv assms(2)]
  let ?m1 = "snd (client_manager_tick P log_now now m)"
  have ses: "cm_session ?m1 = (if close_reason now m = None then Some s else None)"
    using d(2) [of now] by (simp add: client_tick_eq Let_def case_prod_beta)
  have st: "settles P m ?m1" by (rule client_tick_settles [OF inv])
  have hs: "cm_hs ?m1 = None"
  proof -
    have "cm_hs m = None" using client_mgr_invD(1) [OF inv] assms(2) by simp
    then show ?thesis by (simp add: tick_no_handshake)
  qed
  have "alive ?m1" using st assms(2) by (simp add: settles_def alive_def)
  then have "needs_rearm ?m1" if "close_reason now m \<noteq> None" using that ses hs by (simp add: alive_def needs_rearm_def)
  moreover have "ME_Closed sid reason \<in> set (fst (client_manager_tick P log_now now m)) \<longleftrightarrow>
      (sid = ws_session_id s \<and> close_reason now m = Some reason) \<or> ME_Closed sid reason \<in> set (cm_pending_closed m)"
    using d(1) [of sid reason now] d(3) [of now] by (auto simp: client_tick_eq Let_def case_prod_beta retransmits_no_close)
  moreover have "cm_pending_closed ?m1 = []" by (simp add: client_tick_eq Let_def case_prod_beta)
  ultimately show ?thesis using ses by (simp add: case_prod_beta)
qed

theorem client_tick_deadlines_witness:
  "\<exists>m s. client_mgr_reachable demo m \<and> cm_session m = Some s \<and>
     (let (out, m1) = client_manager_tick demo 0 (the (cm_prepared_at m) + from_secs 30) m in
        cm_session m1 = None \<and> ME_Closed (ws_session_id s) CR_NotConfirmed \<in> set out)"
proof -
  obtain m s where m: "client_mgr_reachable demo m" "cm_session m = Some s" "\<not> cm_ready m" "cm_prepared_at m \<noteq> None"
    "cm_limits m = session_limits_default"
    by (rule demo_connected)
  obtain p where p: "cm_prepared_at m = Some p" using m(4) by blast
  have "close_reason (p + from_secs 30) m = Some CR_NotConfirmed"
    using m p by (simp add: close_reason_def session_limits_default_def)
  then show ?thesis
    using m p client_tick_deadlines [OF m(1,2), of 0 "p + from_secs 30" "ws_session_id s" CR_NotConfirmed]
    by (intro exI [of _ m] exI [of _ s]) (auto simp: case_prod_beta)
qed

text \<open>C32: nonce exhaustion is reported as a close when a payload meets it, but not when a liveness probe does.
  The probe that meets it yields nothing and leaves the session held in the rekey state without asking for a
  re-arm; from then on every write and every packet of the peer is answered with a wrong-state error instead
  of a close.\<close>

theorem probe_exhaustion_strands:
  assumes "cm_session m = Some s" "ws_state s = Established" "is_counter_exhausted (cs_send_counter (ws_cipher s))"
    and "cm_next_probe_at m = Some due" "due \<le> now" "length payload \<le> PAYLOAD_LEN"
    and "\<not> is_handshake_fragment pkt" "packet_sid pkt = ws_session_id s"
  shows "fst (client_app_outbound P t payload m) = Inr (ME_Closed (ws_session_id s) CR_NonceExhausted) \<and>
    (let (ev, m1) = take_probe P now m in
       ev = None \<and> cm_session m1 \<noteq> None \<and> \<not> needs_rearm m1 \<and>
       fst (client_app_outbound P t payload m1) = Inl (MgrSession (SE_WrongState Established Rekey)) \<and>
       fst (client_manager_handle P rnd jit t created pkt from m1) = Inl (MgrSession (SE_WrongState Established Rekey)))"
proof -
  have len: "length (copy_at 0 payload (replicate PAYLOAD_LEN 0)) = PAYLOAD_LEN" using assms(6) by (simp add: copy_at_def)
  have w: "wire_encrypt P mt pl s = (Inl SE_RekeyRequired, s\<lparr>ws_state := Rekey\<rparr>)" if "length pl = PAYLOAD_LEN" for mt pl
    using encrypt_exhausted [OF that assms(3), of P mt] assms(2) by (simp add: wire_encrypt_def require_established_def)
  let ?m1 = "m\<lparr>cm_next_probe_at := Some (now + sl_liveness_probe_interval (cm_limits m)), cm_session := Some (s\<lparr>ws_state := Rekey\<rparr>)\<rparr>"
  have p: "take_probe P now m = (None, ?m1)"
    using assms(1,4,5) w [OF control_payload_head(2)] by (simp add: take_probe_def build_probe_def)
  have out: "fst (client_app_outbound P t payload ?m1) = Inl (MgrSession (SE_WrongState Established Rekey))"
    using assms(6) by (simp add: client_app_outbound_def client_send_encrypted_def wire_encrypt_def require_established_def Let_def)
  have "fst (client_manager_handle P rnd jit t created pkt from ?m1) = Inl (MgrSession (SE_WrongState Established Rekey))"
    using assms(7,8) by (simp add: client_manager_handle_def client_on_data_packet_def packet_sid_def wire_decrypt_def
        require_established_def)
  then show ?thesis
    using assms(1,6) w [OF len] out p by (simp add: client_app_outbound_def client_send_encrypted_def needs_rearm_def Let_def)
qed

theorem probe_exhaustion_strands_witness:
  "\<exists>m s pkt. cm_session m = Some s \<and> is_counter_exhausted (cs_send_counter (ws_cipher s)) \<and> packet_sid pkt = ws_session_id s \<and>
     (let (ev, m1) = take_probe demo 7 m in cm_session m1 \<noteq> None \<and>
        fst (client_app_outbound demo 8 [1] m1) = Inl (MgrSession (SE_WrongState Established Rekey)))"
proof -
  obtain mc where mc: "client_manager_new demo_client_cfg session_limits_default = Inr mc" by (rule demo_fresh_client)
  obtain c where c: "cipher_new demo Client (replicate 32 1) (replicate 8 5) = Inr c"
    using cipher_new_ok [OF demo_hkdf, of "replicate 8 5" Client "replicate 32 1"] by auto
  define s where "s = \<lparr>ws_role = Client, ws_session_id = replicate 8 5, ws_state = Established,
    ws_cipher = c\<lparr>cs_send_counter := - 1\<rparr>, ws_metrics = metrics_default\<rparr>"
  define m where "m = mc\<lparr>cm_session := Some s, cm_next_probe_at := Some 0\<rparr>"
  let ?pkt = "WirePacket (replicate 1280 5)"
  have x: "is_counter_exhausted (cs_send_counter (ws_cipher s))" by (simp add: s_def is_counter_exhausted_def)
  have p: "\<not> is_handshake_fragment ?pkt" "packet_sid ?pkt = ws_session_id s"
    by (simp_all add: is_handshake_fragment_def hs_types layout_simps packet_sid_def slice_def s_def)
  have len: "length [1 :: byte] \<le> PAYLOAD_LEN" by (simp add: layout_simps)
  have m: "cm_session m = Some s" "cm_next_probe_at m = Some 0" "ws_state s = Established" by (simp_all add: m_def s_def)
  show ?thesis
    using probe_exhaustion_strands [OF m(1,3) x m(2) _ len p, of 7 demo 8] m(1) x p(2)
    by (intro exI [of _ m] exI [of _ s] exI [of _ ?pkt]) (auto simp: case_prod_beta)
qed

end
