(* ===== verification/Client_Driver.thy ===== *)
theory Client_Driver
  imports Server_Driver Client_Guarantees
begin

text \<open>
  The client driver \<open>run_client_manager\<close> of \<open>session_manager.rs\<close>: it connects, relays application data,
  keeps the three pinned timers (cover, session slot, retransmission) and starts a new handshake after
  every close. An iteration is the head of the loop followed by one arm of the \<open>select!\<close>. A pinned timer
  is the deadline it sleeps until (\<open>None\<close> sleeps forever).
\<close>

section \<open>State\<close>

record ClientDriver = Effects +
  dr_manager :: ClientSessionManager
  dr_was_ready :: bool
  dr_cover_sched :: CoverScheduler
  dr_cover_arm :: "instant option"
  dr_slot_arm :: "instant option"
  dr_retransmit :: "instant option"
  dr_reset_noticed :: bool

text \<open>What one iteration reads. \<open>cr_now\<close> is the reading an arm passes to the manager, \<open>cr_slot_now\<close> the one
  it passes to \<open>take_slot\<close>, \<open>cr_op\<close>, \<open>cr_created\<close> and \<open>cr_log\<close> the manager's own readings, \<open>cr_rnd\<close>, \<open>cr_jit\<close>
  and \<open>cr_fill\<close> its draws. The timers are set at the head of the loop, by the \<open>k\<close>-th close of the
  iteration and at its end; the \<open>k\<close>-th close also draws a new handshake.\<close>

record ClientReadings =
  cr_now :: instant
  cr_slot_now :: instant
  cr_op :: instant
  cr_created :: instant
  cr_log :: instant
  cr_rnd :: bytes
  cr_jit :: "u64 option"
  cr_fill :: "string + bytes"
  cr_start :: instant
  cr_slot_head :: instant
  cr_slot_close :: "nat \<Rightarrow> instant"
  cr_slot_end :: instant
  cr_retransmit_close :: "nat \<Rightarrow> instant \<times> u64 option"
  cr_retransmit_end :: "instant \<times> u64 option"
  cr_rearm :: "nat \<Rightarrow> ClientDraws \<times> instant"

definition client_slot_timer :: "instant \<Rightarrow> ClientSessionManager \<Rightarrow> bool \<Rightarrow> instant option" where
  "client_slot_timer now m cover_owns_slot =
     (if cover_owns_slot then None else map_option (\<lambda>delay. now + delay) (next_slot_delay now m))"

definition client_retransmit_timer :: "instant \<times> u64 option \<Rightarrow> ClientSessionManager \<Rightarrow> instant option" where
  "client_retransmit_timer r m = map_option (\<lambda>delay. fst r + delay) (manager_next_delay (snd r) m)"

section \<open>Closing and re-arming\<close>

definition rearm_client ::
  "primitives \<Rightarrow> Environment \<Rightarrow> ClientDraws \<times> instant \<Rightarrow> ClientDriver \<Rightarrow> (ManagerError + unit) \<times> ClientDriver" where
  "rearm_client P E draws d =
     (let (res, m) = manager_begin_handshake P (fst draws) (snd draws) (dr_manager d); d1 = d\<lparr>dr_manager := m\<rparr>
      in (case res of
            Inr (ME_Send packets peer) \<Rightarrow> send_packets E packets peer d1
          | Inr _ \<Rightarrow> (Inr (), d1)
          | Inl (InvalidState _) \<Rightarrow> (Inr (), d1)
          | Inl _ \<Rightarrow> (Inr (), d1)))"

text \<open>What every arm does with a \<open>Closed\<close> event.\<close>

definition client_closed ::
  "primitives \<Rightarrow> Environment \<Rightarrow> ClientReadings \<Rightarrow> nat \<Rightarrow> bytes \<Rightarrow> CloseReason \<Rightarrow> ClientDriver \<Rightarrow>
   (ManagerError + unit) \<times> ClientDriver" where
  "client_closed P E x k sid reason d =
     (let sched = scheduler_stop (dr_cover_sched d);
          d1 = d\<lparr>dr_was_ready := False, dr_cover_sched := sched, dr_cover_arm := cover_sleep sched,
                 dr_slot_arm := client_slot_timer (cr_slot_close x k) (dr_manager d) False\<rparr>
      in and_then (notify_app E (MN_Closed sid reason) d1) (\<lambda>_ d2.
           and_then (rearm_client P E (cr_rearm x k) d2) (\<lambda>_ d3.
             (Inr (), d3\<lparr>dr_retransmit := client_retransmit_timer (cr_retransmit_close x k) (dr_manager d3)\<rparr>))))"

section \<open>Head of the loop\<close>

definition cover_owns_slot :: "ClientDriver \<Rightarrow> bool" where
  "cover_owns_slot d = (sch_next (dr_cover_sched d) \<noteq> None)"

definition client_loop_head ::
  "Environment \<Rightarrow> ClientReadings \<Rightarrow> ClientDriver \<Rightarrow> (ManagerError + unit) \<times> ClientDriver" where
  "client_loop_head E x d =
     (if cm_ready (dr_manager d) \<and> \<not> dr_was_ready d then
        let sched = scheduler_start (cr_start x) (dr_cover_sched d);
            d1 = d\<lparr>dr_was_ready := True, dr_cover_sched := sched, dr_cover_arm := cover_sleep sched\<rparr>;
            d2 = d1\<lparr>dr_slot_arm := client_slot_timer (cr_slot_head x) (dr_manager d1) (cover_owns_slot d1)\<rparr>
        in (case session_id_of (dr_manager d2) of
              Some sid \<Rightarrow> notify_app E (MN_Ready sid) d2
            | None \<Rightarrow> (Inr (), d2))
      else (Inr (), d))"

section \<open>Arms\<close>

definition set_slot :: "ClientReadings \<Rightarrow> ClientDriver \<Rightarrow> ClientDriver" where
  "set_slot x d = d\<lparr>dr_slot_arm := client_slot_timer (cr_slot_end x) (dr_manager d) (cover_owns_slot d)\<rparr>"

definition set_retransmit :: "ClientReadings \<Rightarrow> ClientDriver \<Rightarrow> ClientDriver" where
  "set_retransmit x d = d\<lparr>dr_retransmit := client_retransmit_timer (cr_retransmit_end x) (dr_manager d)\<rparr>"

definition client_recv_arm ::
  "primitives \<Rightarrow> Environment \<Rightarrow> ClientReadings \<Rightarrow> HandshakeV2Error + (WirePacket \<times> SocketAddr) \<Rightarrow> ClientDriver \<Rightarrow>
   (ManagerError + flow) \<times> ClientDriver" where
  "client_recv_arm P E x r d =
     (case r of
        Inl HE_DatagramRejected \<Rightarrow> (Inr Continue, d)
      | Inl HE_TransportReset \<Rightarrow> (Inr Continue, d\<lparr>dr_reset_noticed := True\<rparr>)
      | Inl e \<Rightarrow> (Inl (MgrHandshake e), d)
      | Inr (pkt, from) \<Rightarrow>
          let was_unconfirmed = (client_manager_state (dr_manager d) = CM_Unconfirmed);
              (res, m) = client_manager_handle P (cr_rnd x) (cr_jit x) (cr_op x) (cr_created x) pkt from (dr_manager d)
          in and_then (res, d\<lparr>dr_manager := m, dr_reset_noticed := False\<rparr>) (\<lambda>ev d1.
               and_then
                 (case ev of
                    ME_Send packets peer \<Rightarrow> send_packets E packets peer d1
                  | ME_SendPacket packet peer \<Rightarrow> send_packet E packet peer d1
                  | ME_AppData sid inner \<Rightarrow> notify_app E (MN_Data sid inner) d1
                  | ME_Closed sid reason \<Rightarrow> client_closed P E x 0 sid reason d1
                  | ME_Established _ _ \<Rightarrow> (Inr (), d1)
                  | ME_None \<Rightarrow> (Inr (), d1)
                  | ME_OutboundDropped _ \<Rightarrow> (Inr (), d1))
                 (\<lambda>_ d2.
                   let d3 = (if \<not> was_unconfirmed \<and> client_manager_state (dr_manager d2) = CM_Unconfirmed
                             then set_retransmit x d2 else d2)
                   in (Inr Continue, set_slot x d3))))"

definition client_app_arm ::
  "primitives \<Rightarrow> Environment \<Rightarrow> ClientReadings \<Rightarrow> bytes option \<Rightarrow> ClientDriver \<Rightarrow> (ManagerError + flow) \<times> ClientDriver" where
  "client_app_arm P E x cmd d =
     (case cmd of
        None \<Rightarrow> (Inr Finished, d)
      | Some payload \<Rightarrow>
          let (res, m) = client_app_outbound P (cr_op x) payload (dr_manager d); d1 = d\<lparr>dr_manager := m\<rparr>
          in (case res of
                Inr ev \<Rightarrow>
                  and_then
                    (case ev of
                       ME_SendPacket packet peer \<Rightarrow> send_packet E packet peer d1
                     | ME_Closed sid reason \<Rightarrow> client_closed P E x 0 sid reason d1
                     | ME_OutboundDropped dropped \<Rightarrow> notify_app E (MN_OutboundDropped dropped) d1
                     | _ \<Rightarrow> (Inr (), set_slot x d1))
                    (\<lambda>_ d2. (Inr Continue, d2))
              | Inl NoSession \<Rightarrow> (Inr Continue, d1)
              | Inl (MgrSession (SE_Codec (WrongLength _ _ _))) \<Rightarrow> (Inr Continue, d1)
              | Inl e \<Rightarrow> (Inl e, d1)))"

definition client_retransmit_arm ::
  "primitives \<Rightarrow> Environment \<Rightarrow> ClientReadings \<Rightarrow> ClientDriver \<Rightarrow> (ManagerError + flow) \<times> ClientDriver" where
  "client_retransmit_arm P E x d =
     (let (res, m) = manager_on_timer P (cr_jit x) (cr_op x) (cr_created x) (dr_manager d)
      in and_then (res, d\<lparr>dr_manager := m\<rparr>) (\<lambda>ev d1.
           and_then
             (case ev of
                ME_Send packets peer \<Rightarrow> and_then (send_packets E packets peer d1) (\<lambda>_ d2. (Inr (), set_retransmit x d2))
              | ME_Closed sid reason \<Rightarrow> client_closed P E x 0 sid reason d1
              | _ \<Rightarrow> (Inr (), set_retransmit x d1))
             (\<lambda>_ d2. (Inr Continue, d2))))"

definition client_tick_event ::
  "primitives \<Rightarrow> Environment \<Rightarrow> ClientReadings \<Rightarrow> nat \<Rightarrow> ManagerEvent \<Rightarrow> ClientDriver \<Rightarrow> (ManagerError + unit) \<times> ClientDriver" where
  "client_tick_event P E x k ev d =
     (case ev of
        ME_SendPacket packet peer \<Rightarrow> send_packet E packet peer d
      | ME_Closed sid reason \<Rightarrow> client_closed P E x k sid reason d
      | ME_OutboundDropped dropped \<Rightarrow> notify_app E (MN_OutboundDropped dropped) d
      | _ \<Rightarrow> (Inr (), d))"

fun client_tick_events ::
  "primitives \<Rightarrow> Environment \<Rightarrow> ClientReadings \<Rightarrow> nat \<Rightarrow> ManagerEvent list \<Rightarrow> ClientDriver \<Rightarrow>
   (ManagerError + unit) \<times> ClientDriver" where
  "client_tick_events P E x k [] d = (Inr (), d)"
| "client_tick_events P E x k (ev # evs) d =
     and_then (client_tick_event P E x k ev d) (\<lambda>_. client_tick_events P E x (Suc k) evs)"

definition client_tick_arm ::
  "primitives \<Rightarrow> Environment \<Rightarrow> ClientReadings \<Rightarrow> ClientDriver \<Rightarrow> (ManagerError + flow) \<times> ClientDriver" where
  "client_tick_arm P E x d =
     (let (evs, m) = client_manager_tick P (cr_log x) (cr_now x) (dr_manager d)
      in and_then (client_tick_events P E x 0 evs (d\<lparr>dr_manager := m\<rparr>)) (\<lambda>_ d1.
           if needs_rearm (dr_manager d1)
           then and_then (rearm_client P E (cr_rearm x (length evs)) d1) (\<lambda>_ d2. (Inr Continue, set_retransmit x d2))
           else (Inr Continue, d1)))"

text \<open>The packet of a session slot: sent, or the close it ran into.\<close>

definition client_slot_event ::
  "primitives \<Rightarrow> Environment \<Rightarrow> ClientReadings \<Rightarrow> ManagerEvent option \<Rightarrow> ClientDriver \<Rightarrow> (ManagerError + unit) \<times> ClientDriver" where
  "client_slot_event P E x ev d =
     (case ev of
        Some (ME_SendPacket packet peer) \<Rightarrow> send_packet E packet peer d
      | Some (ME_Closed sid reason) \<Rightarrow> client_closed P E x 0 sid reason d
      | _ \<Rightarrow> (Inr (), d))"

definition client_slot_arm ::
  "primitives \<Rightarrow> Environment \<Rightarrow> ClientReadings \<Rightarrow> ClientDriver \<Rightarrow> (ManagerError + flow) \<times> ClientDriver" where
  "client_slot_arm P E x d =
     (let (ev, m) = take_slot P (cr_log x) (cr_op x) (cr_slot_now x) (dr_manager d)
      in and_then (client_slot_event P E x ev (d\<lparr>dr_manager := m\<rparr>)) (\<lambda>_ d1. (Inr Continue, set_slot x d1)))"

definition client_cover_arm ::
  "primitives \<Rightarrow> Environment \<Rightarrow> ClientReadings \<Rightarrow> ClientDriver \<Rightarrow> (ManagerError + flow) \<times> ClientDriver" where
  "client_cover_arm P E x d =
     (let (due, sched) = on_deadline (cr_now x) (dr_cover_sched d); d1 = d\<lparr>dr_cover_sched := sched\<rparr>
      in and_then
           (if due then
              let (slot, m) = take_slot P (cr_log x) (cr_op x) (cr_slot_now x) (dr_manager d1);
                  (ev, m1) = (case slot of
                      Some ev \<Rightarrow> (Inr (Some ev), m)
                    | None \<Rightarrow>
                        (case client_cover_packet P (cr_fill x) (cr_op x) m of
                           (Inr ev, m1) \<Rightarrow> (Inr (Some ev), m1)
                         | (Inl NoSession, m1) \<Rightarrow> (Inr None, m1)
                         | (Inl e, m1) \<Rightarrow> (Inl e, m1)))
              in and_then (ev, d1\<lparr>dr_manager := m1\<rparr>) (client_slot_event P E x)
            else (Inr (), d1))
           (\<lambda>_ d2. (Inr Continue, d2\<lparr>dr_cover_arm := cover_sleep (dr_cover_sched d2)\<rparr>)))"

section \<open>The loop\<close>

datatype client_arm =
    ClientRecv "HandshakeV2Error + (WirePacket \<times> SocketAddr)"
  | ClientApp "bytes option"
  | ClientRetransmit
  | ClientTick
  | ClientSlot
  | ClientCover

fun client_arm_step ::
  "primitives \<Rightarrow> Environment \<Rightarrow> ClientReadings \<Rightarrow> client_arm \<Rightarrow> ClientDriver \<Rightarrow> (ManagerError + flow) \<times> ClientDriver" where
  "client_arm_step P E x (ClientRecv r) d = client_recv_arm P E x r d"
| "client_arm_step P E x (ClientApp cmd) d = client_app_arm P E x cmd d"
| "client_arm_step P E x ClientRetransmit d = client_retransmit_arm P E x d"
| "client_arm_step P E x ClientTick d = client_tick_arm P E x d"
| "client_arm_step P E x ClientSlot d = client_slot_arm P E x d"
| "client_arm_step P E x ClientCover d = client_cover_arm P E x d"

definition client_iteration ::
  "primitives \<Rightarrow> Environment \<Rightarrow> ClientReadings \<times> client_arm \<Rightarrow> ClientDriver \<Rightarrow> (ManagerError + flow) \<times> ClientDriver" where
  "client_iteration P E i d = and_then (client_loop_head E (fst i) d) (\<lambda>_. client_arm_step P E (fst i) (snd i))"

definition client_connect ::
  "primitives \<Rightarrow> Environment \<Rightarrow> ClientReadings \<Rightarrow> ClientSessionManager \<Rightarrow> CoverPolicy \<Rightarrow>
   (ManagerError + unit) \<times> ClientDriver" where
  "client_connect P E x manager cover =
     (let (res, m) = manager_begin_handshake P (fst (cr_rearm x 0)) (snd (cr_rearm x 0)) manager;
          sched = scheduler_new cover;
          d = \<lparr>ef_log = [], dr_manager = m, dr_was_ready = False, dr_cover_sched = sched, dr_cover_arm = None,
               dr_slot_arm = None, dr_retransmit = None, dr_reset_noticed = False\<rparr>
      in and_then (res, d) (\<lambda>ev d1.
           and_then (case ev of ME_Send packets peer \<Rightarrow> send_packets E packets peer d1 | _ \<Rightarrow> (Inr (), d1)) (\<lambda>_ d2.
             (Inr (), d2\<lparr>dr_cover_arm := cover_sleep (dr_cover_sched d2),
                         dr_slot_arm := client_slot_timer (cr_slot_end x) (dr_manager d2) False,
                         dr_retransmit := client_retransmit_timer (cr_retransmit_end x) (dr_manager d2)\<rparr>))))"

definition run_client_manager ::
  "primitives \<Rightarrow> Environment \<Rightarrow> ClientSessionManager \<Rightarrow> CoverPolicy \<Rightarrow> ClientReadings \<Rightarrow>
   (ClientReadings \<times> client_arm) list \<Rightarrow> (ManagerError + flow) \<times> ClientDriver" where
  "run_client_manager P E manager cover x inputs =
     and_then (client_connect P E x manager cover) (\<lambda>_. drive (client_iteration P E) inputs)"

section \<open>Closes are reported\<close>

text \<open>An operation that loses the session says so.\<close>

definition reports :: "ClientSessionManager \<Rightarrow> ManagerEvent list \<Rightarrow> ClientSessionManager \<Rightarrow> bool" where
  "reports m evs m1 \<longleftrightarrow> (cm_session m \<noteq> None \<longrightarrow> cm_session m1 = None \<longrightarrow> closed_in evs \<noteq> {})"

lemma send_reports:
  "client_send_encrypted P t mt payload m = (res, m1) \<Longrightarrow> reports m (case res of Inr ev \<Rightarrow> [ev] | Inl _ \<Rightarrow> []) m1"
  by (auto simp: client_send_encrypted_def reports_def Let_def split: option.splits prod.splits sum.splits SessionError.splits)

lemma cover_reports:
  "client_cover_packet P rnd t m = (res, m1) \<Longrightarrow> reports m (case res of Inr ev \<Rightarrow> [ev] | Inl _ \<Rightarrow> []) m1"
  by (auto simp: client_cover_packet_def reports_def Let_def split: option.splits prod.splits sum.splits SessionError.splits)

lemma outbound_reports:
  assumes "client_app_outbound P t payload m = (res, m1)"
  shows "reports m (case res of Inr ev \<Rightarrow> [ev] | Inl _ \<Rightarrow> []) m1"
proof (cases "PAYLOAD_LEN < length payload \<or> cm_session m = None")
  case True
  then show ?thesis using assms by (auto simp: client_app_outbound_def reports_def)
next
  case False
  then show ?thesis using assms send_reports by (auto simp: client_app_outbound_def Let_def)
qed

lemma take_queued_reports:
  assumes "take_queued_payload P log t now m = (ev, m1)"
  shows "reports m (case ev of Some e \<Rightarrow> [e] | None \<Rightarrow> []) m1"
proof -
  obtain n m0 where e: "expire_queued log now m = (n, m0)" by fastforce
  have s0: "cm_session m0 = cm_session m" using expire_frame(1) [of log now m] e by simp
  show ?thesis
  proof (cases "cm_out_queue m0")
    case Nil
    then show ?thesis using assms e s0 by (auto simp: take_queued_payload_def reports_def)
  next
    case (Cons q qs)
    let ?m2 = "m0\<lparr>cm_out_queue := qs\<rparr>"
    obtain res m2 where r: "client_send_encrypted P t Data (copy_at 0 (take PAYLOAD_LEN (qp_payload q)) (replicate PAYLOAD_LEN 0)) ?m2 = (res, m2)"
      by fastforce
    have "ev = Some (case res of Inr ev \<Rightarrow> ev | Inl _ \<Rightarrow> ME_None)" "m1 = m2"
      using assms e Cons r by (auto simp: take_queued_payload_def)
    then show ?thesis using send_reports [OF r] s0 by (cases res) (auto simp: reports_def)
  qed
qed

lemma take_probe_session: "cm_session (snd (take_probe P now m)) = None \<longleftrightarrow> cm_session m = None"
proof -
  have "cm_session (snd (build_probe P (m\<lparr>cm_next_probe_at := t\<rparr>))) = None \<longleftrightarrow> cm_session m = None" for t
    by (simp add: build_probe_session)
  then show ?thesis by (simp add: take_probe_def Let_def case_prod_beta split: option.split)
qed

lemma take_slot_reports:
  assumes "take_slot P log t now m = (ev, m1)"
  shows "reports m (case ev of Some e \<Rightarrow> [e] | None \<Rightarrow> []) m1"
proof -
  obtain q m2 where q: "take_queued_payload P log t now m = (q, m2)" by fastforce
  obtain p m3 where p: "take_probe P now m2 = (p, m3)" by fastforce
  note r = take_queued_reports [OF q] and s = take_probe_session [of P now m2]
  show ?thesis
    using assms q p r s by (auto simp: take_slot_def reports_def split: if_splits option.splits)
qed

lemma data_reports:
  assumes "client_mgr_inv P m" "client_on_data_packet P now pkt from m = (Inr ev, m1)"
  shows "reports m [ev] m1"
  using assms(1) by (cases rule: client_data_cases [of P m now pkt "from"]) (use assms(2) in \<open>auto simp: reports_def\<close>)

lemma tick_reports:
  assumes inv: "client_mgr_inv P m" and t: "client_manager_tick P log now m = (evs, m1)"
  shows "reports m evs m1"
proof (cases "cm_session m")
  case (Some s)
  note d = deadlines_session [OF inv Some, where now = now]
  have "cm_session m1 = (if close_reason now m = None then Some s else None)"
    using d(2) arg_cong [OF t, of snd] by (auto simp: client_tick_eq Let_def case_prod_beta)
  moreover have "closed_in (fst (deadlines P now m)) \<subseteq> closed_in evs"
    using arg_cong [OF t, of fst] by (auto simp: client_tick_eq Let_def case_prod_beta)
  ultimately show ?thesis using d(1) by (auto simp: reports_def closed_in_def split: if_splits)
qed (simp add: reports_def)

section \<open>Timers\<close>

definition retransmitting :: "ClientSessionManager \<Rightarrow> bool" where
  "retransmitting m \<longleftrightarrow> cm_hs m \<noteq> None \<or> (cm_session m \<noteq> None \<and> \<not> cm_ready m \<and> \<not> cm_m3_exhausted m)"

lemma retransmit_timer_set: "client_retransmit_timer r m \<noteq> None \<longleftrightarrow> retransmitting m"
  by (auto simp: client_retransmit_timer_def manager_next_delay_def retransmitting_def split: option.split)

lemma slot_timer_set: "client_mgr_inv P m \<Longrightarrow> client_slot_timer now m b \<noteq> None \<longleftrightarrow> cm_session m \<noteq> None \<and> \<not> b"
  using client_mgr_invD(4) [of P m]
  by (auto simp: client_slot_timer_def next_slot_delay_def Let_def split: option.split)

lemma cover_sleep_next [simp]: "cover_sleep sched = sch_next sched"
  by (simp add: cover_sleep_def split: option.split)

lemma scheduler_stopped [simp]: "sch_next (scheduler_stop sched) = None"
  by (simp add: scheduler_stop_def)

text \<open>The timers fit the manager: the retransmission is armed while a handshake or an unconfirmed session is
  in flight, the cover schedule runs exactly when it is enabled and the loop has seen the session
  confirmed, and a session slot is armed exactly while a session is held and no cover schedule replaces it.
  The sleep of the cover schedule (\<open>exact\<close>) ends when the schedule is due.\<close>

definition armed :: "primitives \<Rightarrow> CoverPolicy \<Rightarrow> bool \<Rightarrow> ClientDriver \<Rightarrow> bool" where
  "armed P pol exact d \<longleftrightarrow>
     (let m = dr_manager d; due = sch_next (dr_cover_sched d) in
      client_mgr_inv P m \<and> alive m \<and> (exact \<longrightarrow> dr_cover_arm d = due) \<and>
      (retransmitting m \<longrightarrow> dr_retransmit d \<noteq> None) \<and>
      (dr_slot_arm d \<noteq> None \<longleftrightarrow> cm_session m \<noteq> None \<and> due = None) \<and>
      sch_policy (dr_cover_sched d) = pol \<and> (due \<noteq> None \<longleftrightarrow> dr_was_ready d \<and> cp_enabled pol) \<and>
      (dr_was_ready d \<longrightarrow> cm_ready m))"

lemma armedD:
  assumes "armed P pol exact d"
  shows "client_mgr_inv P (dr_manager d)" "alive (dr_manager d)" "exact \<Longrightarrow> dr_cover_arm d = sch_next (dr_cover_sched d)"
    "retransmitting (dr_manager d) \<Longrightarrow> dr_retransmit d \<noteq> None"
    "dr_slot_arm d \<noteq> None \<longleftrightarrow> cm_session (dr_manager d) \<noteq> None \<and> sch_next (dr_cover_sched d) = None"
    "sch_next (dr_cover_sched d) \<noteq> None \<longleftrightarrow> dr_was_ready d \<and> cp_enabled pol"
    "dr_was_ready d \<Longrightarrow> cm_ready (dr_manager d)" "sch_policy (dr_cover_sched d) = pol"
  using assms unfolding armed_def Let_def by blast+

lemma armed_log [simp]: "armed P pol exact (d\<lparr>ef_log := es\<rparr>) = armed P pol exact d" "armed P pol exact (d\<lparr>dr_reset_noticed := b\<rparr>) = armed P pol exact d"
  by (simp_all add: armed_def)

lemma effect_driver:
  "\<exists>es. snd (send_packet E p peer d) = d\<lparr>ef_log := es\<rparr>" "\<exists>es. snd (send_packets E ps peer d) = d\<lparr>ef_log := es\<rparr>"
  "\<exists>es. snd (notify_app E n d) = d\<lparr>ef_log := es\<rparr>"
  using send_packet_log [of E p peer d] send_packets_log [of E ps peer d] notify_app_log [of E n d] by blast+

lemma armed_effect:
  "send_packet E p peer d = (r, d1) \<Longrightarrow> armed P pol exact d1 = armed P pol exact d"
  "send_packets E ps peer d = (r, d1) \<Longrightarrow> armed P pol exact d1 = armed P pol exact d"
  "notify_app E n d = (r, d1) \<Longrightarrow> armed P pol exact d1 = armed P pol exact d"
  using effect_driver(1) [of E p peer d] effect_driver(2) [of E ps peer d] effect_driver(3) [of E n d]
  by (metis armed_log(1) snd_conv)+

lemma ready_held: "client_mgr_inv P m \<Longrightarrow> cm_ready m \<Longrightarrow> cm_session m \<noteq> None"
  using client_mgr_invD(3) by blast

lemma settles_retransmitting: "settles P m m1 \<Longrightarrow> retransmitting m1 \<Longrightarrow> retransmitting m"
  by (auto simp: settles_def quiet_def retransmitting_def split: option.splits)

text \<open>An operation that keeps the session keeps everything armed.\<close>

lemma armed_settles:
  assumes a: "armed P pol exact d" and s: "settles P (dr_manager d) m" and k: "cm_session (dr_manager d) \<noteq> None \<Longrightarrow> cm_session m \<noteq> None"
  shows "armed P pol exact (d\<lparr>dr_manager := m\<rparr>)"
proof -
  note A = armedD [OF a]
  have "cm_session (dr_manager d) \<noteq> None" if "cm_session m \<noteq> None"
    using s that by (auto simp: settles_def split: option.splits)
  then have held: "cm_session m \<noteq> None \<longleftrightarrow> cm_session (dr_manager d) \<noteq> None" using k by blast
  have ready: "cm_ready m" if "dr_was_ready d"
    using s k ready_held [OF A(1)] A(7) that by (auto simp: settles_def quiet_def)
  have "client_mgr_inv P m" "alive m" using s A(2) by (simp_all add: settles_def)
  then show ?thesis
    using A(3-6,8) settles_retransmitting [OF s] held ready by (simp add: armed_def Let_def)
qed

lemma begin_session:
  assumes "client_mgr_inv P m" "manager_begin_handshake P rnd now m = (res, m1)"
  shows "client_mgr_inv P m1" "alive m \<Longrightarrow> alive m1" "cm_session m1 = cm_session m" "cm_session m \<noteq> None \<Longrightarrow> m1 = m"
proof -
  have e: "evolves P m m1" using begin_evolves [OF assms(1), of rnd now] assms(2) by simp
  then show "client_mgr_inv P m1" "alive m \<Longrightarrow> alive m1" by (simp_all add: evolves_def)
  show "cm_session m1 = cm_session m" "cm_session m \<noteq> None \<Longrightarrow> m1 = m"
    using assms(1) by (cases rule: begin_cases [of P m rnd now]; use assms(2) in auto)+
qed

lemma rearm_manager:
  assumes "manager_begin_handshake P (fst draws) (snd draws) (dr_manager d) = (res, m)"
  shows "\<exists>es. snd (rearm_client P E draws d) = d\<lparr>dr_manager := m, ef_log := ef_log d @ es\<rparr>"
proof -
  have "\<exists>es. snd (send_packets E ps peer (d\<lparr>dr_manager := m\<rparr>)) = d\<lparr>dr_manager := m, ef_log := ef_log d @ es\<rparr>" for ps peer
    using send_packets_log [of E ps peer "d\<lparr>dr_manager := m\<rparr>"] by simp
  moreover have "d\<lparr>dr_manager := m\<rparr> = d\<lparr>dr_manager := m, ef_log := ef_log d @ []\<rparr>" by simp
  ultimately show ?thesis
    using assms by (auto simp: rearm_client_def Let_def split: sum.split ManagerEvent.split ManagerError.split intro: exI [of _ "[]"])
qed

text \<open>After a close everything is armed, whatever was before.\<close>

lemma closed_armed:
  assumes inv: "client_mgr_inv P (dr_manager d)" and al: "alive (dr_manager d)" and pol: "sch_policy (dr_cover_sched d) = pol"
    and c: "client_closed P E x k sid reason d = (Inr u, d1)"
  shows "armed P pol exact d1"
proof -
  let ?d1 = "d\<lparr>dr_was_ready := False, dr_cover_sched := scheduler_stop (dr_cover_sched d), dr_cover_arm := None,
    dr_slot_arm := client_slot_timer (cr_slot_close x k) (dr_manager d) False\<rparr>"
  obtain d2 d3 where d2: "notify_app E (MN_Closed sid reason) ?d1 = (Inr (), d2)"
    and d3: "rearm_client P E (cr_rearm x k) d2 = (Inr (), d3)"
    and d1: "d1 = d3\<lparr>dr_retransmit := client_retransmit_timer (cr_retransmit_close x k) (dr_manager d3)\<rparr>"
    using c by (auto simp: client_closed_def and_then_Inr Let_def)
  obtain es where e2: "d2 = ?d1\<lparr>ef_log := ef_log ?d1 @ es\<rparr>" using notify_app_log [of E "MN_Closed sid reason" ?d1] d2 by auto
  obtain res m where b: "manager_begin_handshake P (fst (cr_rearm x k)) (snd (cr_rearm x k)) (dr_manager d2) = (res, m)" by fastforce
  obtain fs where e3: "d3 = d2\<lparr>dr_manager := m, ef_log := ef_log d2 @ fs\<rparr>"
    using rearm_manager [OF b, of E] d3 by auto
  have m: "dr_manager d2 = dr_manager d" by (simp add: e2)
  note B = begin_session [OF inv, of "fst (cr_rearm x k)" "snd (cr_rearm x k)" res m, OF b [unfolded m]]
  have "client_slot_timer (cr_slot_close x k) (dr_manager d) False \<noteq> None \<longleftrightarrow> cm_session m \<noteq> None"
    using slot_timer_set [OF inv] B(3) by simp
  then show ?thesis
    using B(1,2) al pol retransmit_timer_set [of "cr_retransmit_close x k" m]
    by (simp add: d1 e3 e2 armed_def scheduler_stop_def Let_def)
qed

lemma slot_armed: "armed P pol exact d \<Longrightarrow> armed P pol exact (set_slot x d)"
  using slot_timer_set [of P "dr_manager d" "cr_slot_end x"]
  by (auto simp: armed_def set_slot_def cover_owns_slot_def Let_def)

lemma retransmit_armed: "armed P pol exact d \<Longrightarrow> armed P pol exact (set_retransmit x d)"
  using retransmit_timer_set [of "cr_retransmit_end x" "dr_manager d"] by (auto simp: armed_def set_retransmit_def Let_def)

lemma no_close: "closed_in [ev] = {} \<longleftrightarrow> (\<forall>sid r. ev \<noteq> ME_Closed sid r)"
  by (auto simp: closed_in_def)

text \<open>An operation of the manager, then what the arm does with its event.\<close>

lemma operation_armed:
  assumes a: "armed P pol exact d" and s: "settles P (dr_manager d) m" and r: "reports (dr_manager d) evs m" and n: "closed_in evs = {}"
  shows "armed P pol exact (d\<lparr>dr_manager := m\<rparr>)"
  by (rule armed_settles [OF a s]) (use r n in \<open>auto simp: reports_def\<close>)

lemma close_armed:
  assumes a: "armed P pol exact d" and s: "settles P (dr_manager d) m"
    and c: "client_closed P E x k sid reason (d\<lparr>dr_manager := m\<rparr>) = (Inr u, d1)"
  shows "armed P pol exact' d1"
  by (rule closed_armed [OF _ _ _ c]) (use armedD(2,8) [OF a] s in \<open>simp_all add: settles_def\<close>)

lemma head_armed:
  assumes a: "armed P pol True d" and h: "client_loop_head E x d = (Inr u, d1)"
  shows "armed P pol True d1"
proof (cases "cm_ready (dr_manager d) \<and> \<not> dr_was_ready d")
  case True
  define sched where "sched = scheduler_start (cr_start x) (dr_cover_sched d)"
  define d2 where "d2 = d\<lparr>dr_was_ready := True, dr_cover_sched := sched, dr_cover_arm := sch_next sched,
     dr_slot_arm := client_slot_timer (cr_slot_head x) (dr_manager d) (sch_next sched \<noteq> None)\<rparr>"
  have h1: "(case session_id_of (dr_manager d) of Some sid \<Rightarrow> notify_app E (MN_Ready sid) d2 | None \<Rightarrow> (Inr (), d2)) = (Inr u, d1)"
    using h True by (simp add: client_loop_head_def cover_owns_slot_def d2_def sched_def Let_def cong: option.case_cong)
  note A = armedD [OF a]
  have "sch_next (dr_cover_sched d) = None" using A(6) True by blast
  then have "sch_next sched \<noteq> None \<longleftrightarrow> cp_enabled pol" "sch_policy sched = pol"
    using A(8) by (auto simp: sched_def scheduler_start_def split: if_splits)
  then have "armed P pol True d2"
    using A(1,2,4) True slot_timer_set [OF A(1), of "cr_slot_head x"]
    by (cases "sch_next sched") (simp_all add: armed_def d2_def Let_def)
  then show ?thesis using h1 armed_effect(3) by (auto split: option.splits)
next
  case False
  then show ?thesis using a h by (auto simp: client_loop_head_def split: if_splits)
qed

lemma app_armed:
  assumes a: "armed P pol exact d" and h: "client_app_arm P E x cmd d = (Inr f, d1)"
  shows "armed P pol exact d1"
proof (cases cmd)
  case None
  then show ?thesis using a h by (simp add: client_app_arm_def)
next
  case (Some payload)
  obtain res m where o: "client_app_outbound P (cr_op x) payload (dr_manager d) = (res, m)" by fastforce
  have s: "settles P (dr_manager d) m" using client_outbound_settles(1) [OF armedD(1) [OF a], of "cr_op x" payload] o by simp
  note op = operation_armed [OF a s outbound_reports [OF o]]
  let ?d = "d\<lparr>dr_manager := m\<rparr>"
  show ?thesis
  proof (cases res)
    case (Inl e)
    then have "d1 = ?d" using h Some o by (auto simp: client_app_arm_def Let_def split: ManagerError.splits SessionError.splits CodecError.splits)
    then show ?thesis using op Inl by simp
  next
    case (Inr ev)
    show ?thesis
    proof (cases "\<exists>sid r. ev = ME_Closed sid r")
      case True
      then show ?thesis using h Some o Inr close_armed [OF a s] by (auto simp: client_app_arm_def and_then_Inr Let_def)
    next
      case False
      then have "armed P pol exact ?d" using op Inr by (simp add: no_close)
      then show ?thesis
        using h Some o Inr False slot_armed by (cases ev) (auto simp: client_app_arm_def and_then_Inr armed_effect Let_def)
    qed
  qed
qed

text \<open>A datagram either settles and reports, or adopts the session of the handshake.\<close>

lemma handle_cases:
  assumes inv: "client_mgr_inv P m" and h: "client_manager_handle P rnd jit now created pkt from m = (Inr ev, m1)"
  obtains (settled) "settles P m m1" "reports m [ev] m1"
  | (adopted) ps peer where "cm_session m = None" "evolves P m m1" "cm_session m1 \<noteq> None" "\<not> cm_ready m1" "ev = ME_Send ps peer"
proof (cases "is_handshake_fragment pkt \<and> (\<exists>hs. cm_hs m = Some hs)")
  case False
  then have "settles P m m1 \<and> reports m [ev] m1"
    using h settles_refl [OF inv] client_data_settles [OF inv, of now pkt "from"] data_reports [OF inv, of now pkt "from" ev m1]
    by (auto simp: client_manager_handle_def reports_def split: option.splits if_splits)
  then show thesis using settled by blast
next
  case True
  then obtain hs where hs: "cm_hs m = Some hs" by blast
  obtain r h1 where st: "client_step P (ClientDatagram rnd jit pkt) hs = (r, h1)" by fastforce
  note ms = machine_step [OF inv hs st]
  let ?m = "m\<lparr>cm_hs := Some h1\<rparr>"
  have n: "cm_session m = None" using client_mgr_invD(1) [OF inv] hs by simp
  show thesis
  proof (cases "\<exists>ps out. r = Inr (ClientM3Sent ps out)")
    case False
    then have "m1 = ?m" using h True hs st by (auto simp: client_manager_handle_def Let_def split: sum.splits ClientEvent.splits)
    then show thesis using settled ms(1) n by (simp add: reports_def)
  next
    case m3: True
    then obtain ps out where out: "r = Inr (ClientM3Sent ps out)" by blast
    have o: "on_m3_sent P now created ps out ?m = (Inr ev, m1)"
      using h True hs st out by (simp add: client_manager_handle_def)
    have n': "cm_session ?m = None" using n by simp
    from n' show thesis
    proof (cases rule: on_m3_sent_cases [of ?m out P now created ps])
      case retired
      then show thesis using settled ms(1) n o by (simp add: reports_def)
    next
      case (failed e)
      then show thesis using o by simp
    next
      case (adopted s m2 probe m3)
      have "evolves P m m1" using client_handle_evolves [OF inv, of rnd jit now created pkt "from"] h by simp
      moreover have "cm_session m1 \<noteq> None" using build_probe_session [of P m2] adopted(3-5) o by auto
      moreover have "\<not> cm_ready m1" using ready_build_probe [of P m2, unfolded adopted(4) snd_conv] adopted(3,5) o by auto
      ultimately show thesis using that(2) n o adopted(5) by auto
    qed
  qed
qed

lemma adopted_armed:
  assumes a: "armed P pol exact d" and n: "cm_session (dr_manager d) = None" and e: "evolves P (dr_manager d) m"
    and m: "cm_session m \<noteq> None" "\<not> cm_ready m"
  shows "armed P pol exact (set_slot x (set_retransmit x (d\<lparr>dr_manager := m, dr_reset_noticed := b, ef_log := es\<rparr>)))"
proof -
  note A = armedD [OF a]
  have w: "\<not> dr_was_ready d" using A(1,7) n ready_held by blast
  moreover have "sch_next (dr_cover_sched d) = None" using A(6) w by blast
  moreover have inv: "client_mgr_inv P m" "alive m" using e A(2) by (simp_all add: evolves_def)
  ultimately show ?thesis
    using A(3,8) m(1) slot_timer_set [OF inv(1), of "cr_slot_end x"] retransmit_timer_set [of "cr_retransmit_end x" m]
    by (simp add: armed_def set_slot_def set_retransmit_def cover_owns_slot_def)
qed

lemma effect_shape:
  "send_packet E p peer d = (r, d1) \<Longrightarrow> \<exists>es. d1 = d\<lparr>ef_log := es\<rparr>" "send_packets E ps peer d = (r, d1) \<Longrightarrow> \<exists>es. d1 = d\<lparr>ef_log := es\<rparr>"
  "notify_app E n d = (r, d1) \<Longrightarrow> \<exists>es. d1 = d\<lparr>ef_log := es\<rparr>"
  using effect_driver(1) [of E p peer d] effect_driver(2) [of E ps peer d] effect_driver(3) [of E n d] by simp_all

lemma recv_armed:
  assumes a: "armed P pol exact d" and h: "client_recv_arm P E x r d = (Inr f, d1)"
  shows "armed P pol exact d1"
proof (cases r)
  case (Inl e)
  then show ?thesis using a h by (auto simp: client_recv_arm_def split: HandshakeV2Error.splits)
next
  case (Inr pf)
  obtain pkt "from" where pf: "pf = (pkt, from)" by fastforce
  define unconfirmed where "unconfirmed = (client_manager_state (dr_manager d) = CM_Unconfirmed)"
  define fin where "fin d2 = set_slot x (if \<not> unconfirmed \<and> client_manager_state (dr_manager d2) = CM_Unconfirmed
     then set_retransmit x d2 else d2)" for d2
  obtain ev m d2 where m: "client_manager_handle P (cr_rnd x) (cr_jit x) (cr_op x) (cr_created x) pkt from (dr_manager d) = (Inr ev, m)"
    and e: "(case ev of ME_Send packets peer \<Rightarrow> send_packets E packets peer (d\<lparr>dr_manager := m, dr_reset_noticed := False\<rparr>)
       | ME_SendPacket packet peer \<Rightarrow> send_packet E packet peer (d\<lparr>dr_manager := m, dr_reset_noticed := False\<rparr>)
       | ME_AppData sid inner \<Rightarrow> notify_app E (MN_Data sid inner) (d\<lparr>dr_manager := m, dr_reset_noticed := False\<rparr>)
       | ME_Closed sid reason \<Rightarrow> client_closed P E x 0 sid reason (d\<lparr>dr_manager := m, dr_reset_noticed := False\<rparr>)
       | ME_Established _ _ \<Rightarrow> (Inr (), d\<lparr>dr_manager := m, dr_reset_noticed := False\<rparr>)
       | ME_None \<Rightarrow> (Inr (), d\<lparr>dr_manager := m, dr_reset_noticed := False\<rparr>)
       | ME_OutboundDropped _ \<Rightarrow> (Inr (), d\<lparr>dr_manager := m, dr_reset_noticed := False\<rparr>)) = (Inr (), d2)"
    and d1: "d1 = fin d2"
    using h unfolding Inr pf client_recv_arm_def
    by (auto simp: and_then_Inr Let_def fin_def unconfirmed_def split: prod.splits)
  have fin: "armed P pol exact d2 \<Longrightarrow> armed P pol exact d1" using slot_armed retransmit_armed by (simp add: d1 fin_def)
  from armedD(1) [OF a] m show ?thesis
  proof (cases rule: handle_cases)
    case settled
    note op = operation_armed [OF a settled]
    have im: "client_mgr_inv P m" "alive m" using settled(1) armedD(2) [OF a] by (simp_all add: settles_def)
    show ?thesis
    proof (cases "\<exists>sid r. ev = ME_Closed sid r")
      case True
      then obtain sid r where c: "client_closed P E x 0 sid r (d\<lparr>dr_manager := m, dr_reset_noticed := False\<rparr>) = (Inr (), d2)"
        using e by auto
      show ?thesis by (rule fin [OF closed_armed [OF _ _ _ c]]) (use im armedD(8) [OF a] in simp_all)
    next
      case False
      then have "armed P pol exact (d\<lparr>dr_manager := m, dr_reset_noticed := False\<rparr>)" using op by (simp add: no_close)
      then have "armed P pol exact d2" using e False armed_effect by (cases ev) auto
      then show ?thesis by (rule fin)
    qed
  next
    case (adopted ps peer)
    obtain es where d2: "d2 = d\<lparr>dr_manager := m, dr_reset_noticed := False, ef_log := es\<rparr>"
      using e adopted(5) effect_shape(2) by fastforce
    have "d1 = set_slot x (set_retransmit x (d\<lparr>dr_manager := m, dr_reset_noticed := False, ef_log := es\<rparr>))"
      using adopted(1,3,4) by (simp add: d1 fin_def unconfirmed_def d2 client_manager_state_def)
    then show ?thesis using adopted_armed [OF a adopted(1-4)] by simp
  qed
qed

lemma timer_reports:
  assumes inv: "client_mgr_inv P m" and t: "manager_on_timer P jit now created m = (Inr ev, m1)"
  shows "reports m [ev] m1"
proof (cases "cm_session m")
  case (Some s)
  have "cm_hs m = None" using client_mgr_invD(1) [OF inv] Some by simp
  moreover have "cm_session (snd (build_probe P (m\<lparr>cm_m3_attempts := n\<rparr>))) \<noteq> None" for n using build_probe_session [of P] Some by simp
  ultimately have "cm_session (snd (manager_on_timer P jit now created m)) \<noteq> None"
    using Some by (simp add: manager_on_timer_def Let_def case_prod_beta)
  then show ?thesis using t by (auto simp: reports_def)
qed (simp add: reports_def)

lemma retransmit_arm_armed:
  assumes a: "armed P pol exact d" and h: "client_retransmit_arm P E x d = (Inr f, d1)"
  shows "armed P pol exact d1"
proof -
  obtain ev m where m: "manager_on_timer P (cr_jit x) (cr_op x) (cr_created x) (dr_manager d) = (Inr ev, m)"
    using h by (auto simp: client_retransmit_arm_def and_then_Inr split: prod.splits)
  have s: "settles P (dr_manager d) m"
    using on_timer_settles [OF armedD(1) [OF a], of "cr_jit x" "cr_op x" "cr_created x"] m by simp
  note op = operation_armed [OF a s timer_reports [OF armedD(1) [OF a] m]] and cl = close_armed [OF a s]
  show ?thesis
  proof (cases "\<exists>sid r. ev = ME_Closed sid r")
    case True
    then show ?thesis using h m cl by (auto simp: client_retransmit_arm_def and_then_Inr)
  next
    case False
    then have "armed P pol exact (d\<lparr>dr_manager := m\<rparr>)" using op by (simp add: no_close)
    then show ?thesis
      using h m False retransmit_armed by (cases ev) (auto simp: client_retransmit_arm_def and_then_Inr armed_effect)
  qed
qed

lemma tick_event_armed:
  assumes a: "armed P pol exact d" and h: "client_tick_event P E x k ev d = (Inr u, d1)"
  shows "armed P pol exact d1"
  using h a closed_armed [OF armedD(1,2,8) [OF a]] by (cases ev) (auto simp: client_tick_event_def armed_effect)

lemma tick_event_manager:
  assumes "client_tick_event P E x k ev d = (Inr u, d1)" "closed_in [ev] = {}"
  shows "dr_manager d1 = dr_manager d" "dr_cover_sched d1 = dr_cover_sched d"
  using assms by (cases ev; auto simp: client_tick_event_def dest: effect_shape)+

lemma tick_events_armed:
  assumes "client_tick_events P E x k evs d = (Inr u, d1)" "client_mgr_inv P (dr_manager d)" "alive (dr_manager d)"
    "sch_policy (dr_cover_sched d) = pol" "armed P pol exact d \<or> closed_in evs \<noteq> {}"
  shows "armed P pol exact d1"
  using assms
proof (induction evs arbitrary: k d)
  case (Cons ev evs)
  obtain d2 where e: "client_tick_event P E x k ev d = (Inr (), d2)" and r: "client_tick_events P E x (Suc k) evs d2 = (Inr u, d1)"
    using Cons.prems(1) by (auto simp: and_then_Inr)
  show ?case
  proof (cases "armed P pol exact d \<or> closed_in [ev] \<noteq> {}")
    case True
    have "armed P pol exact d2"
      using True tick_event_armed [OF _ e] e closed_armed [OF Cons.prems(2-4)] by (auto simp: closed_in_def client_tick_event_def)
    then show ?thesis using Cons.IH [OF r] armedD(1,2,8) by blast
  next
    case False
    then have "closed_in evs \<noteq> {}" using Cons.prems(5) by (auto simp: closed_in_def)
    then show ?thesis using Cons.IH [OF r] Cons.prems(2-4) tick_event_manager [OF e] False by simp
  qed
qed simp

lemma rearm_armed:
  assumes a: "armed P pol exact d" and n: "cm_session (dr_manager d) = None" and r: "rearm_client P E draws d = (Inr u, d1)"
  shows "armed P pol exact (set_retransmit x d1)"
proof -
  obtain res m where b: "manager_begin_handshake P (fst draws) (snd draws) (dr_manager d) = (res, m)" by fastforce
  obtain es where d1: "d1 = d\<lparr>dr_manager := m, ef_log := ef_log d @ es\<rparr>" using rearm_manager [OF b, of E] r by auto
  note A = armedD [OF a] and B = begin_session [OF armedD(1) [OF a] b]
  have w: "\<not> dr_was_ready d" using A(1,7) n ready_held by blast
  moreover have "sch_next (dr_cover_sched d) = None" using A(6) w by blast
  ultimately show ?thesis
    using A(2,3,5,8) B n retransmit_timer_set [of "cr_retransmit_end x" m] by (simp add: d1 armed_def set_retransmit_def)
qed

lemma events_armed:
  assumes a: "armed P pol exact d" and m: "client_manager_tick P (cr_log x) (cr_now x) (dr_manager d) = (evs, m)"
    and e: "client_tick_events P E x k evs (d\<lparr>dr_manager := m\<rparr>) = (Inr u, d1)"
  shows "armed P pol exact d1"
proof -
  have s: "settles P (dr_manager d) m" using client_tick_settles [OF armedD(1) [OF a], of "cr_log x" "cr_now x"] m by simp
  show ?thesis
    by (rule tick_events_armed [OF e])
      (use operation_armed [OF a s tick_reports [OF armedD(1) [OF a] m]] s armedD(2,8) [OF a] in \<open>auto simp: settles_def\<close>)
qed

lemma tick_armed:
  assumes a: "armed P pol exact d" and h: "client_tick_arm P E x d = (Inr f, d1)"
  shows "armed P pol exact d1"
proof -
  obtain evs m where m: "client_manager_tick P (cr_log x) (cr_now x) (dr_manager d) = (evs, m)" by fastforce
  obtain d2 where e: "client_tick_events P E x 0 evs (d\<lparr>dr_manager := m\<rparr>) = (Inr (), d2)"
    and r: "(if needs_rearm (dr_manager d2)
       then and_then (rearm_client P E (cr_rearm x (length evs)) d2) (\<lambda>_ d2. (Inr Continue, set_retransmit x d2))
       else (Inr Continue, d2)) = (Inr f, d1)"
    using h m by (auto simp: client_tick_arm_def and_then_Inr)
  show ?thesis
    using events_armed [OF a m e] r rearm_armed [where draws = "cr_rearm x (length evs)" and d = d2]
    by (auto simp: and_then_Inr needs_rearm_def split: if_splits)
qed

lemma slot_event_armed:
  assumes a: "armed P pol exact d" and s: "settles P (dr_manager d) m"
    and r: "reports (dr_manager d) (case ev of Some e \<Rightarrow> [e] | None \<Rightarrow> []) m"
    and h: "client_slot_event P E x ev (d\<lparr>dr_manager := m\<rparr>) = (Inr u, d1)"
  shows "armed P pol exact d1"
proof (cases "\<exists>sid r. ev = Some (ME_Closed sid r)")
  case True
  then show ?thesis using h close_armed [OF a s] by (auto simp: client_slot_event_def)
next
  case False
  then have "armed P pol exact (d\<lparr>dr_manager := m\<rparr>)" using operation_armed [OF a s r] by (cases ev) (simp_all add: no_close)
  then show ?thesis
    using h False by (auto simp: client_slot_event_def armed_effect split: option.splits ManagerEvent.splits)
qed

lemma slot_arm_armed:
  assumes a: "armed P pol exact d" and h: "client_slot_arm P E x d = (Inr f, d1)"
  shows "armed P pol exact d1"
proof -
  obtain ev m where m: "take_slot P (cr_log x) (cr_op x) (cr_slot_now x) (dr_manager d) = (ev, m)" by fastforce
  have s: "settles P (dr_manager d) m"
    using take_slot_settles [OF armedD(1) [OF a], of "cr_log x" "cr_op x" "cr_slot_now x"] m by simp
  obtain d2 where d2: "client_slot_event P E x ev (d\<lparr>dr_manager := m\<rparr>) = (Inr (), d2)" "d1 = set_slot x d2"
    using h m by (auto simp: client_slot_arm_def and_then_Inr)
  show ?thesis unfolding d2(2) by (rule slot_armed [OF slot_event_armed [OF a s take_slot_reports [OF m] d2(1)]])
qed

lemma deadline_armed:
  assumes a: "armed P pol exact d" and o: "on_deadline now (dr_cover_sched d) = (due, sched)"
  shows "armed P pol False (d\<lparr>dr_cover_sched := sched\<rparr>)"
proof -
  note A = armedD [OF a]
  have pol: "sch_policy sched = pol"
    using o A(8) by (cases "sch_next (dr_cover_sched d)") (auto simp: on_deadline_def split: if_splits)
  have "cp_enabled pol" if "sch_next (dr_cover_sched d) \<noteq> None" using that A(6) by simp
  then have next_iff: "sch_next sched \<noteq> None \<longleftrightarrow> sch_next (dr_cover_sched d) \<noteq> None"
    using o A(8) by (cases "sch_next (dr_cover_sched d)") (auto simp: on_deadline_def split: if_splits)
  show ?thesis using A(1,2,4-7) pol next_iff
    by (cases "sch_next sched"; cases "sch_next (dr_cover_sched d)") (simp_all add: armed_def Let_def)
qed

lemma cover_arm_armed:
  assumes a: "armed P pol exact d" and h: "client_cover_arm P E x d = (Inr f, d1)"
  shows "armed P pol True d1"
proof -
  obtain due sched where o: "on_deadline (cr_now x) (dr_cover_sched d) = (due, sched)" by fastforce
  let ?d = "d\<lparr>dr_cover_sched := sched\<rparr>"
  note b = deadline_armed [OF a o]
  obtain slot m where t: "take_slot P (cr_log x) (cr_op x) (cr_slot_now x) (dr_manager d) = (slot, m)" by fastforce
  obtain res mc where c: "client_cover_packet P (cr_fill x) (cr_op x) m = (res, mc)" by fastforce
  have st: "settles P (dr_manager d) m"
    using take_slot_settles [OF armedD(1) [OF a], of "cr_log x" "cr_op x" "cr_slot_now x"] t by simp
  have sc: "settles P m mc" using client_cover_settles [OF settles_inv [OF st], of "cr_fill x" "cr_op x"] c by simp
  note slot = slot_event_armed [OF b, simplified, OF st take_slot_reports [OF t]]
  have quiet: "armed P pol False (?d\<lparr>dr_manager := m\<rparr>)" if "slot = None"
    using operation_armed [OF b, simplified, OF st take_slot_reports [OF t]] that by simp
  have cover: "reports m (case ev of None \<Rightarrow> [] | Some e \<Rightarrow> [e]) mc"
    if "res = Inr e \<and> ev = Some e \<or> res = Inl NoSession \<and> ev = None" for e ev
    using cover_reports [OF c] that by auto
  note cv = slot_event_armed [OF quiet, simplified, OF _ sc cover]
  obtain d2 where e: "(if due then
        and_then (case slot of Some ev \<Rightarrow> (Inr (Some ev), ?d\<lparr>dr_manager := m\<rparr>)
           | None \<Rightarrow> (case res of Inr ev \<Rightarrow> (Inr (Some ev), ?d\<lparr>dr_manager := mc\<rparr>)
                | Inl NoSession \<Rightarrow> (Inr None, ?d\<lparr>dr_manager := mc\<rparr>) | Inl e \<Rightarrow> (Inl e, ?d\<lparr>dr_manager := mc\<rparr>)))
          (client_slot_event P E x)
       else (Inr (), ?d)) = (Inr (), d2)" and d1: "d1 = d2\<lparr>dr_cover_arm := sch_next (dr_cover_sched d2)\<rparr>"
    using h o t c by (auto simp: client_cover_arm_def and_then_Inr Let_def split: if_splits option.splits sum.splits ManagerError.splits)
  have "armed P pol False d2"
    using e b slot cv by (auto simp: and_then_Inr split: if_splits option.splits sum.splits ManagerError.splits)
  then show ?thesis by (auto simp: d1 armed_def Let_def)
qed

lemma iteration_armed:
  assumes a: "armed P pol True d" and h: "client_iteration P E i d = (Inr f, d1)"
  shows "armed P pol True d1"
proof -
  obtain d2 where d2: "client_loop_head E (fst i) d = (Inr (), d2)" and s: "client_arm_step P E (fst i) (snd i) d2 = (Inr f, d1)"
    using h by (auto simp: client_iteration_def and_then_Inr)
  note b = head_armed [OF a d2]
  show ?thesis
    using s recv_armed [OF b] app_armed [OF b] retransmit_arm_armed [OF b] tick_armed [OF b] slot_arm_armed [OF b] cover_arm_armed [OF b]
    by (cases "snd i") simp_all
qed

lemma connect_armed:
  assumes inv: "client_mgr_inv P m" and h: "client_connect P E x m cover = (Inr u, d)"
  shows "armed P cover True d"
proof -
  obtain ev m1 where b: "manager_begin_handshake P (fst (cr_rearm x 0)) (snd (cr_rearm x 0)) m = (Inr ev, m1)"
    using h by (auto simp: client_connect_def and_then_Inr Let_def split: prod.splits)
  note B = begin_session [OF inv b]
  from inv have al: "alive m1 \<and> cm_session m1 = None"
    by (cases rule: begin_cases [of P m "fst (cr_rearm x 0)" "snd (cr_rearm x 0)"]) (use b in \<open>auto simp: alive_def\<close>)
  define d0 :: ClientDriver where
    "d0 = \<lparr>ef_log = [], dr_manager = m1, dr_was_ready = False, dr_cover_sched = scheduler_new cover, dr_cover_arm = None,
       dr_slot_arm = None, dr_retransmit = None, dr_reset_noticed = False\<rparr>"
  obtain es where "d = d0\<lparr>ef_log := es, dr_cover_arm := cover_sleep (scheduler_new cover),
      dr_slot_arm := client_slot_timer (cr_slot_end x) m1 False, dr_retransmit := client_retransmit_timer (cr_retransmit_end x) m1\<rparr>"
    using h b effect_shape(2) by (cases ev) (fastforce simp: client_connect_def and_then_Inr Let_def d0_def)+
  then show ?thesis
    using B(1) al retransmit_timer_set [of "cr_retransmit_end x" m1] slot_timer_set [OF B(1), of "cr_slot_end x"]
    by (simp add: d0_def armed_def scheduler_new_def)
qed

lemma client_run_armed:
  assumes inv: "client_mgr_inv P m" and h: "run_client_manager P E m cover x inputs = (Inr f, d)"
  shows "armed P cover True d"
proof -
  obtain d0 where c: "client_connect P E x m cover = (Inr (), d0)" and r: "drive (client_iteration P E) inputs d0 = (Inr f, d)"
    using h by (auto simp: run_client_manager_def and_then_Inr)
  show ?thesis by (rule drive_inv [of inputs "armed P cover True", OF _ connect_armed [OF inv c] r]) (rule iteration_armed)
qed

text \<open>At the \<open>select!\<close> the loop knows whether the session is confirmed.\<close>

lemma head_ready:
  assumes "armed P pol True d" "client_loop_head E x d = (Inr u, d1)"
  shows "dr_was_ready d1 \<longleftrightarrow> cm_ready (dr_manager d1)"
proof (cases "cm_ready (dr_manager d) \<and> \<not> dr_was_ready d")
  case True
  then have "dr_was_ready d1 \<and> cm_ready (dr_manager d1)"
    using assms(2) by (auto simp: client_loop_head_def Let_def dest: effect_shape split: option.splits)
  then show ?thesis by simp
next
  case False
  then show ?thesis using assms armedD(7) [OF assms(1)] by (auto simp: client_loop_head_def)
qed

text \<open>A retransmission timer nothing needs any more fires once without effect and is disarmed.\<close>

lemma retransmit_idle:
  assumes "\<not> retransmitting (dr_manager d)"
  shows "client_retransmit_arm P E x d = (Inr Continue, d\<lparr>dr_retransmit := None\<rparr>)"
proof -
  have "manager_on_timer P (cr_jit x) (cr_op x) (cr_created x) (dr_manager d) = (Inr ME_None, dr_manager d)"
    using assms by (auto simp: manager_on_timer_def retransmitting_def)
  moreover have "client_retransmit_timer (cr_retransmit_end x) (dr_manager d) = None"
    using assms retransmit_timer_set by blast
  ultimately show ?thesis by (simp add: client_retransmit_arm_def set_retransmit_def and_then_def)
qed

end
