(* ===== verification/Driver_Guarantees.thy ===== *)
theory Driver_Guarantees
  imports Client_Driver
begin

text \<open>What the client loop promises: it goes on whatever it receives, no wake-up is lost, and a tick
  reconnects a client that lost its session. The model of the loop is in \<open>Client_Driver\<close>.\<close>

section \<open>Errors that end the loop\<close>

text \<open>A session that a probe left in the rekey state answers the next use with an error.\<close>

definition stranded :: "ClientSessionManager \<Rightarrow> bool" where
  "stranded m \<longleftrightarrow> (\<exists>s. cm_session m = Some s \<and> ws_state s = Rekey)"

definition strands :: "(ManagerError + 'a) \<Rightarrow> ClientSessionManager \<Rightarrow> bool" where
  "strands res m \<longleftrightarrow> res = Inl (MgrSession (SE_WrongState Established Rekey)) \<and> stranded m"

lemma client_encrypt_outcome:
  assumes s: "client_session s" and P: "aead_correct P" and len: "length payload = PAYLOAD_LEN"
  shows "(\<exists>pkt. fst (wire_encrypt P mt payload s) = Inr pkt) \<or> fst (wire_encrypt P mt payload s) = Inl SE_RekeyRequired \<or>
    wire_encrypt P mt payload s = (Inl (SE_WrongState Established Rekey), s) \<and> ws_state s = Rekey"
proof (cases "ws_state s = Rekey")
  case True
  then show ?thesis by (simp add: wire_encrypt_def require_established_def)
next
  case False
  then have "session_ok Client (ws_session_id s) s" using s by (simp add: client_session_def session_ok_def)
  then show ?thesis by (rule held_encrypt [OF _ P len, where mt = mt]) auto
qed

lemma send_outcome:
  assumes inv: "client_mgr_inv P m" and P: "aead_correct P" and len: "length payload = PAYLOAD_LEN"
    and h: "client_send_encrypted P t mt payload m = (res, m1)" and n: "cm_session m \<noteq> None"
  shows "(\<exists>ev. res = Inr ev) \<or> strands res m1"
proof -
  obtain s where s: "cm_session m = Some s" using n by blast
  have "client_session s" using client_mgr_invD(4) [OF inv s] by blast
  from client_encrypt_outcome [OF this P len, of mt] show ?thesis
    using h s by (cases "wire_encrypt P mt payload s") (auto simp: client_send_encrypted_def strands_def stranded_def Let_def)
qed

lemma outbound_outcome:
  assumes inv: "client_mgr_inv P m" and P: "aead_correct P" and h: "client_app_outbound P t payload m = (res, m1)"
  shows "(\<exists>ev. res = Inr ev) \<or> (\<exists>n. res = Inl (MgrSession (SE_Codec (WrongLength ''payload'' PAYLOAD_LEN n)))) \<or> strands res m1"
proof (cases "PAYLOAD_LEN < length payload \<or> cm_session m = None")
  case True
  then show ?thesis using h by (auto simp: client_app_outbound_def enqueue_def Let_def split: if_splits)
next
  case False
  have "length (copy_at 0 payload (replicate PAYLOAD_LEN 0)) = PAYLOAD_LEN" using False by (simp add: copy_at_def)
  from send_outcome [OF inv P this, of t Data res m1] show ?thesis using h False by (auto simp: client_app_outbound_def Let_def)
qed

lemma cover_outcome:
  assumes inv: "client_mgr_inv P m" and P: "aead_correct P" and len: "length fill = PAYLOAD_LEN"
    and h: "client_cover_packet P (Inr fill) t m = (res, m1)"
  shows "(\<exists>ev. res = Inr ev) \<or> res = Inl NoSession \<or> strands res m1"
proof (cases "cm_session m")
  case None
  then show ?thesis using h by (simp add: client_cover_packet_def)
next
  case (Some s)
  have "client_session s" using client_mgr_invD(4) [OF inv Some] by blast
  from client_encrypt_outcome [OF this P len, of Cover] show ?thesis
    using h Some by (cases "wire_encrypt P Cover fill s")
      (auto simp: client_cover_packet_def wire_cover_eq strands_def stranded_def Let_def)
qed

lemma timer_outcome:
  assumes "manager_on_timer P jit now created m = (res, m1)"
  shows "\<exists>ev. res = Inr ev"
proof (cases "cm_hs m")
  case (Some hs)
  obtain r h1 where t: "client_on_timer jit hs = (r, h1)" by fastforce
  have "r = Inl HE_Timeout \<or> (\<exists>ps. r = Inr (ClientEmit ps))"
    using t by (auto simp: client_on_timer_def Let_def split: ClientState.splits if_splits)
  then show ?thesis using assms Some t by (auto simp: manager_on_timer_def Let_def)
qed (use assms in \<open>auto simp: manager_on_timer_def Let_def split: if_splits prod.splits\<close>)

lemma handle_outcome:
  assumes P: "primitives_ok P" and inv: "client_mgr_inv P m" and rnd: "length rnd = 32"
    and h: "client_manager_handle P rnd jit now created pkt from m = (res, m1)"
  shows "(\<exists>ev. res = Inr ev) \<or> strands res m1"
proof (cases "is_handshake_fragment pkt")
  case False
  then have d: "client_on_data_packet P now pkt from m = (res, m1)" using h by (simp add: client_manager_handle_def)
  from inv show ?thesis
    by (cases rule: client_data_cases [of P m now pkt "from"]) (use d in \<open>auto simp: strands_def stranded_def\<close>)
next
  case frag: True
  show ?thesis
  proof (cases "cm_hs m")
    case None
    then show ?thesis using h frag by (auto simp: client_manager_handle_def)
  next
    case (Some hs)
    obtain ev h1 where st: "client_step P (ClientDatagram rnd jit pkt) hs = (Inr ev, h1)"
      using client_handle_total [OF P rnd, of jit pkt hs] by (metis client_step.simps(1) prod.collapse)
    have m3: "\<exists>e. r = Inr e" if "ev = ClientM3Sent ps out" "on_m3_sent P now created ps out m' = (r, m2)" for ps out m' r m2
      using established_total [of P out created Client] machine_step(2) [OF inv Some st] that P
      by (auto simp: on_m3_sent_def Let_def primitives_ok_def split: prod.splits if_splits)
    show ?thesis
    proof (cases "\<exists>ps out. ev = ClientM3Sent ps out")
      case True
      then obtain ps out where ev: "ev = ClientM3Sent ps out" by blast
      show ?thesis using m3 [OF ev] h frag Some st by (simp add: client_manager_handle_def ev)
    next
      case False
      then show ?thesis using h frag Some st by (cases ev) (auto simp: client_manager_handle_def)
    qed
  qed
qed

section \<open>The loop goes on\<close>

text \<open>What the environment of an iteration must do for the loop to go on: the random source delivers, a receive
  error is one of the two transient ones, and the application has not hung up.\<close>

definition client_survivable :: "ClientReadings \<times> client_arm \<Rightarrow> bool" where
  "client_survivable i =
     (length (cr_rnd (fst i)) = 32 \<and> (\<exists>f. cr_fill (fst i) = Inr f \<and> length f = PAYLOAD_LEN) \<and>
      (case snd i of
         ClientRecv r \<Rightarrow> (case r of Inl e \<Rightarrow> e = HE_DatagramRejected \<or> e = HE_TransportReset | Inr _ \<Rightarrow> True)
       | ClientApp cmd \<Rightarrow> cmd \<noteq> None
       | _ \<Rightarrow> True))"

lemma working_rearm [simp]: "working E \<Longrightarrow> fst (rearm_client P E draws d) = Inr ()"
  by (simp add: rearm_client_def Let_def case_prod_beta split: sum.split ManagerEvent.split ManagerError.split)

lemma working_closed [simp]: "working E \<Longrightarrow> fst (client_closed P E x k sid reason d) = Inr ()"
  by (simp add: client_closed_def and_then_total Let_def)

lemma working_tick_events [simp]: "working E \<Longrightarrow> fst (client_tick_events P E x k evs d) = Inr ()"
  by (induction evs arbitrary: k d) (simp_all add: client_tick_event_def and_then_total split: ManagerEvent.split)

lemma working_slot_event [simp]: "working E \<Longrightarrow> fst (client_slot_event P E x ev d) = Inr ()"
  by (simp add: client_slot_event_def split: option.split ManagerEvent.split)

lemma working_head [simp]: "working E \<Longrightarrow> fst (client_loop_head E x d) = Inr ()"
  by (simp add: client_loop_head_def Let_def split: option.split)

text \<open>An iteration goes on, or meets a stranded session.\<close>

definition goes_on :: "(ManagerError + flow) \<times> ClientDriver \<Rightarrow> bool" where
  "goes_on r \<longleftrightarrow> fst r = Inr Continue \<or> strands (fst r) (dr_manager (snd r))"

lemma goes_on_Inr: "fst r = Inr () \<Longrightarrow> goes_on (and_then r (\<lambda>_ d. (Inr Continue, f d)))"
  by (simp add: goes_on_def and_then_total)

lemma recv_survives:
  assumes P: "primitives_ok P" and E: "working E" and a: "armed P pol exact d" and i: "client_survivable (x, ClientRecv r)"
  shows "goes_on (client_recv_arm P E x r d)"
proof (cases r)
  case (Inl e)
  then show ?thesis using i by (auto simp: client_survivable_def client_recv_arm_def goes_on_def)
next
  case (Inr pf)
  obtain pkt "from" where pf: "pf = (pkt, from)" by fastforce
  obtain res m where m: "client_manager_handle P (cr_rnd x) (cr_jit x) (cr_op x) (cr_created x) pkt from (dr_manager d) = (res, m)" by fastforce
  have "(\<exists>ev. res = Inr ev) \<or> strands res m"
    by (rule handle_outcome [OF P armedD(1) [OF a] _ m]) (use i in \<open>simp add: client_survivable_def\<close>)
  then show ?thesis
  proof
    assume "\<exists>ev. res = Inr ev"
    then obtain ev where "res = Inr ev" by blast
    then show ?thesis
      using E by (simp add: Inr pf client_recv_arm_def m Let_def goes_on_Inr split: ManagerEvent.split)
  next
    assume "strands res m"
    then show ?thesis by (simp add: Inr pf client_recv_arm_def m strands_def goes_on_def)
  qed
qed

lemma app_survives:
  assumes P: "primitives_ok P" and E: "working E" and a: "armed P pol exact d"
  shows "goes_on (client_app_arm P E x (Some payload) d)"
proof -
  obtain res m where o: "client_app_outbound P (cr_op x) payload (dr_manager d) = (res, m)" by fastforce
  have "aead_correct P" using P by (simp add: primitives_ok_def)
  from outbound_outcome [OF armedD(1) [OF a] this o]
  consider (ok) ev where "res = Inr ev" | (long) n where "res = Inl (MgrSession (SE_Codec (WrongLength ''payload'' PAYLOAD_LEN n)))"
    | (stuck) "strands res m" by blast
  then show ?thesis
  proof cases
    case ok
    then show ?thesis using E by (simp add: client_app_arm_def o Let_def goes_on_Inr split: ManagerEvent.split)
  next
    case long
    then show ?thesis by (simp add: client_app_arm_def o Let_def goes_on_def)
  next
    case stuck
    then show ?thesis by (simp add: client_app_arm_def o Let_def strands_def goes_on_def)
  qed
qed

lemma retransmit_survives:
  assumes E: "working E"
  shows "goes_on (client_retransmit_arm P E x d)"
proof -
  obtain res m where o: "manager_on_timer P (cr_jit x) (cr_op x) (cr_created x) (dr_manager d) = (res, m)" by fastforce
  obtain ev where "res = Inr ev" using timer_outcome [OF o] by blast
  then show ?thesis
    using E by (simp add: client_retransmit_arm_def o goes_on_Inr and_then_total split: ManagerEvent.split)
qed

lemma tick_slot_survive:
  assumes E: "working E"
  shows "fst (client_tick_arm P E x d) = Inr Continue" "fst (client_slot_arm P E x d) = Inr Continue"
  using E by (simp_all add: client_tick_arm_def client_slot_arm_def case_prod_beta Let_def and_then_total)

lemma cover_survives:
  assumes P: "primitives_ok P" and E: "working E" and a: "armed P pol exact d" and i: "client_survivable (x, ClientCover)"
  shows "goes_on (client_cover_arm P E x d)"
proof -
  obtain fill where f: "cr_fill x = Inr fill" "length fill = PAYLOAD_LEN" using i by (auto simp: client_survivable_def)
  obtain due sched where o: "on_deadline (cr_now x) (dr_cover_sched d) = (due, sched)" by fastforce
  obtain slot m where t: "take_slot P (cr_log x) (cr_op x) (cr_slot_now x) (dr_manager d) = (slot, m)" by fastforce
  obtain res mc where c: "client_cover_packet P (Inr fill) (cr_op x) m = (res, mc)" by fastforce
  have inv: "client_mgr_inv P m"
    using take_slot_settles [OF armedD(1) [OF a], of "cr_log x" "cr_op x" "cr_slot_now x"] t by (simp add: settles_inv)
  have "aead_correct P" using P by (simp add: primitives_ok_def)
  from cover_outcome [OF inv this f(2) c]
  consider (ok) ev where "res = Inr ev" | (none) "res = Inl NoSession" | (stuck) "strands res mc" by blast
  then show ?thesis
    by cases (use E in \<open>simp_all add: client_cover_arm_def o t c f(1) Let_def goes_on_def and_then_total strands_def split: option.split\<close>)
qed

lemma iteration_goes_on:
  assumes P: "primitives_ok P" and E: "working E" and a: "armed P pol True d" and i: "client_survivable i"
  shows "goes_on (client_iteration P E i d)"
proof -
  obtain x arm where xa: "i = (x, arm)" by fastforce
  obtain d1 where h: "client_loop_head E x d = (Inr (), d1)" using working_head [OF E, of x d] by (metis prod.collapse)
  note b = head_armed [OF a h]
  have "goes_on (client_arm_step P E x arm d1)"
    using i recv_survives [OF P E b] app_survives [OF P E b] retransmit_survives [OF E] tick_slot_survive [OF E] cover_survives [OF P E b]
    by (cases arm) (auto simp: xa client_survivable_def goes_on_def)
  then show ?thesis by (simp add: client_iteration_def xa h)
qed

lemma drive_goes_on:
  assumes P: "primitives_ok P" and E: "working E" and "armed P pol True d" "\<And>i. i \<in> set inputs \<Longrightarrow> client_survivable i"
  shows "goes_on (drive (client_iteration P E) inputs d)"
  using assms(3,4)
proof (induction inputs arbitrary: d)
  case (Cons i inputs)
  obtain r d1 where it: "client_iteration P E i d = (r, d1)" by fastforce
  have "goes_on (r, d1)" using iteration_goes_on [OF P E Cons.prems(1), of i] Cons.prems(2) it by simp
  then show ?case
    using Cons.IH [of d1] Cons.prems it iteration_armed [OF Cons.prems(1), of E i Continue d1] by (auto simp: goes_on_def strands_def)
qed (simp add: goes_on_def)

section \<open>A tick reconnects\<close>

lemma begin_outcome:
  assumes "client_mgr_inv P m" "manager_begin_handshake P rnd now m = (res, m1)"
  shows "client_manager_state m1 \<noteq> CM_Idle \<or> cm_hs m = None \<and> cm_session m = None \<and> (\<exists>e. res = Inl e)"
  using assms(1)
  by (cases rule: begin_cases [of P m rnd now]) (use assms(2) in \<open>auto simp: client_manager_state_def\<close>)

lemma tick_reconnects:
  assumes a: "armed P pol True d" and h: "client_tick_arm P E x d = (Inr f, d1)"
  shows "client_manager_state (dr_manager d1) \<noteq> CM_Idle \<or>
    (\<exists>k m e. manager_begin_handshake P (fst (cr_rearm x k)) (snd (cr_rearm x k)) m = (Inl e, dr_manager d1) \<and>
       client_manager_state m = CM_Idle)"
proof -
  obtain evs m where m: "client_manager_tick P (cr_log x) (cr_now x) (dr_manager d) = (evs, m)" by fastforce
  obtain d2 where e: "client_tick_events P E x 0 evs (d\<lparr>dr_manager := m\<rparr>) = (Inr (), d2)"
    and r: "(if needs_rearm (dr_manager d2)
       then and_then (rearm_client P E (cr_rearm x (length evs)) d2) (\<lambda>_ d2. (Inr Continue, set_retransmit x d2))
       else (Inr Continue, d2)) = (Inr f, d1)"
    using h m by (auto simp: client_tick_arm_def and_then_Inr)
  have a2: "armed P pol True d2" by (rule events_armed [OF a m e])
  show ?thesis
  proof (cases "needs_rearm (dr_manager d2)")
    case True
    obtain res m3 where b: "manager_begin_handshake P (fst (cr_rearm x (length evs))) (snd (cr_rearm x (length evs))) (dr_manager d2) = (res, m3)"
      by fastforce
    have "dr_manager d1 = m3" using r True rearm_manager [OF b, of E] by (auto simp: and_then_Inr set_retransmit_def)
    moreover have "client_manager_state (dr_manager d2) = CM_Idle" using True by (simp add: needs_rearm_def client_manager_state_def)
    ultimately show ?thesis using begin_outcome [OF armedD(1) [OF a2] b] b by blast
  next
    case False
    then show ?thesis using r armedD(2) [OF a2] by (auto simp: client_manager_state_def alive_def needs_rearm_def)
  qed
qed

section \<open>A concrete run\<close>

definition demo_client_readings :: ClientReadings where
  "demo_client_readings =
     \<lparr>cr_now = from_secs 60, cr_slot_now = 7, cr_op = 7, cr_created = 7, cr_log = 7, cr_rnd = replicate 32 9, cr_jit = None,
      cr_fill = Inr (replicate PAYLOAD_LEN 3), cr_start = 7, cr_slot_head = 7, cr_slot_close = (\<lambda>_. 7), cr_slot_end = 7,
      cr_retransmit_close = (\<lambda>_. (7, None)), cr_retransmit_end = (7, None), cr_rearm = (\<lambda>_. (demo_client_draws, 1))\<rparr>"

lemma demo_connect:
  obtains m d where "client_mgr_reachable demo m" "client_connect demo demo_env demo_client_readings m cover = (Inr (), d)"
    "cm_hs (dr_manager d) \<noteq> None"
proof -
  obtain m where m: "client_manager_new demo_client_cfg session_limits_default = Inr m" "cm_hs m = None" "cm_session m = None"
    "cm_cfg m = demo_client_cfg" "cm_used_sids m = {}" "cm_used_order m = []" "cm_retired_sids m = {}"
    by (rule demo_fresh_client)
  have r: "client_mgr_reachable demo m" by (rule client_mgr_reachable.fresh [OF m(1)])
  have cr: "client_ready demo (cm_cfg m) (to_be 8 (5 :: u64)) (cd_kem_seed demo_client_draws) (cd_x_seed demo_client_draws)"
    using demo_client_ready by (simp add: client_ready_def m(4) demo_client_draws_def)
  obtain m' where f: "fresh_sid (cd_sids demo_client_draws) m = (Inr (to_be 8 (5 :: u64)), m')"
    using demo_draw [OF m(5,6)] by (cases "fresh_sid (cd_sids demo_client_draws) m") auto
  obtain h :: ClientHandshake and m0 where b:
    "manager_begin_handshake demo demo_client_draws 1 m = (Inr (ME_Send (ch_m1_frags h) (ccf_server_addr (cm_cfg m))), m0)" "cm_hs m0 = Some h"
    by (rule begin_honest [OF client_reachable_inv [OF r] m(2,3) f cr])
  define d0 :: ClientDriver where "d0 = \<lparr>ef_log = [], dr_manager = m0, dr_was_ready = False, dr_cover_sched = scheduler_new cover,
    dr_cover_arm = None, dr_slot_arm = None, dr_retransmit = None, dr_reset_noticed = False\<rparr>"
  obtain d1 where s: "send_packets demo_env (ch_m1_frags h) (ccf_server_addr (cm_cfg m)) d0 = (Inr (), d1)"
    using working_sends [OF demo_env_working] by (metis prod.collapse)
  obtain es where d1: "d1 = d0\<lparr>ef_log := es\<rparr>" using effect_shape(2) [OF s] by blast
  have "client_connect demo demo_env demo_client_readings m cover =
      (Inr (), d1\<lparr>dr_cover_arm := cover_sleep (dr_cover_sched d1), dr_slot_arm := client_slot_timer 7 (dr_manager d1) False,
        dr_retransmit := client_retransmit_timer (7, None) (dr_manager d1)\<rparr>)"
    using b s by (simp add: client_connect_def demo_client_readings_def d0_def)
  from that [OF r this] show thesis using b(2) by (simp add: d1 d0_def)
qed

lemma demo_survivable: "arm \<noteq> ClientApp None \<Longrightarrow> (\<And>e. arm = ClientRecv (Inl e) \<Longrightarrow> e = HE_TransportReset) \<Longrightarrow>
  client_survivable (demo_client_readings, arm)"
  by (auto simp: client_survivable_def demo_client_readings_def split: client_arm.split sum.split)

section \<open>Properties\<close>

text \<open>C6: nothing the network or the application sends stops the client. Once connected, with primitives that keep
  their promises, a transport that sends and an application that listens, the client driver goes on after any
  sequence of datagrams of any content from any source, transport resets, payloads of any length,
  retransmissions, ticks, slots and cover deadlines. The one way out is a use of a session whose nonces ran out
  on a probe.\<close>

theorem client_driver_survives:
  assumes "primitives_ok P" "client_mgr_reachable P m" "working E" "client_connect P E x m cover = (Inr (), d0)"
    and "\<forall>i \<in> set inputs. client_survivable i"
  shows "let (res, d) = run_client_manager P E m cover x inputs in
     res = Inr Continue \<or>
     res = Inl (MgrSession (SE_WrongState Established Rekey)) \<and>
       (\<exists>s. cm_session (dr_manager d) = Some s \<and> ws_state s = Rekey)"
proof -
  have "goes_on (drive (client_iteration P E) inputs d0)"
    using drive_goes_on [OF assms(1,3) connect_armed [OF client_reachable_inv [OF assms(2)] assms(4)]] assms(5) by blast
  then show ?thesis
    using assms(4) by (simp add: run_client_manager_def goes_on_def strands_def stranded_def case_prod_beta)
qed

theorem client_driver_survives_witness:
  "\<exists>m. client_mgr_reachable demo m \<and>
     (let (res, d) = run_client_manager demo demo_env m cover_policy_default demo_client_readings
        [(demo_client_readings, ClientRecv (Inr (WirePacket (replicate 1280 5), demo_addr))),
         (demo_client_readings, ClientRecv (Inl HE_TransportReset)),
         (demo_client_readings, ClientApp (Some (replicate 2000 1))),
         (demo_client_readings, ClientTick), (demo_client_readings, ClientRetransmit)] in
      res = Inr Continue \<or> res = Inl (MgrSession (SE_WrongState Established Rekey)) \<and>
       (\<exists>s. cm_session (dr_manager d) = Some s \<and> ws_state s = Rekey))"
proof -
  obtain m d where m: "client_mgr_reachable demo m"
    "client_connect demo demo_env demo_client_readings m cover_policy_default = (Inr (), d)"
    by (rule demo_connect)
  show ?thesis
    using m(1) by (intro exI [of _ m] conjI client_driver_survives [OF demo_ok _ demo_env_working m(2)]) (auto intro: demo_survivable)
qed

text \<open>C8: the timers of the client driver fit its state. Whenever the loop waits, the cover timer sleeps until
  the schedule is due and is armed exactly when cover is enabled and the session is confirmed; the slot
  timer is armed exactly when a session is held and no cover timer paces it, so the two never run together
  and a session is never without one; the retransmission timer is armed while a handshake or an unconfirmed
  session with attempts left is in flight, and when it has outlived its need its next firing only disarms
  it; an idle client asks to be re-armed.\<close>

theorem client_timers_armed:
  assumes "client_mgr_reachable P m" "run_client_manager P E m cover x inputs = (Inr f, d)"
    and "client_loop_head E y d = (Inr (), d1)"
  shows "let m1 = dr_manager d1; st = client_manager_state m1;
       resend = (st = CM_Handshaking \<or> st = CM_Unconfirmed \<and> \<not> cm_m3_exhausted m1) in
     dr_cover_arm d1 = sch_next (dr_cover_sched d1) \<and>
     (dr_cover_arm d1 \<noteq> None \<longleftrightarrow> st = CM_Established \<and> cp_enabled cover) \<and>
     (dr_slot_arm d1 \<noteq> None \<longleftrightarrow> st = CM_Unconfirmed \<or> st = CM_Established \<and> \<not> cp_enabled cover) \<and>
     (if resend then dr_retransmit d1 \<noteq> None
      else client_retransmit_arm P E z d1 = (Inr Continue, d1\<lparr>dr_retransmit := None\<rparr>)) \<and>
     (st = CM_Idle \<longrightarrow> needs_rearm m1)"
proof -
  have a0: "armed P cover True d" by (rule client_run_armed [OF client_reachable_inv [OF assms(1)] assms(2)])
  note a = head_armed [OF a0 assms(3)] and r = head_ready [OF a0 assms(3)]
  note A = armedD [OF a]
  let ?m = "dr_manager d1" and ?st = "client_manager_state (dr_manager d1)"
  have est: "?st = CM_Established \<longleftrightarrow> dr_was_ready d1" and unc: "?st = CM_Unconfirmed \<longleftrightarrow> cm_session ?m \<noteq> None \<and> \<not> dr_was_ready d1"
    using r ready_held [OF A(1)] by (auto simp: client_manager_state_def)
  have res: "retransmitting ?m \<longleftrightarrow> ?st = CM_Handshaking \<or> ?st = CM_Unconfirmed \<and> \<not> cm_m3_exhausted ?m"
    using client_mgr_invD(1) [OF A(1)] by (auto simp: retransmitting_def client_manager_state_def)
  have "?st = CM_Idle \<Longrightarrow> needs_rearm ?m"
    using A(2) by (auto simp: client_manager_state_def alive_def needs_rearm_def split: if_splits)
  moreover have "dr_cover_arm d1 \<noteq> None \<longleftrightarrow> ?st = CM_Established \<and> cp_enabled cover" using A(3,6) est by simp
  moreover have "dr_slot_arm d1 \<noteq> None \<longleftrightarrow> ?st = CM_Unconfirmed \<or> ?st = CM_Established \<and> \<not> cp_enabled cover"
    using A(5,6) est unc r ready_held [OF A(1)] by auto
  ultimately show ?thesis
    using A(3,4) retransmit_idle [of d1 P E z] unfolding Let_def res [symmetric] by simp
qed

theorem client_timers_armed_witness:
  "\<exists>m d d1. client_mgr_reachable demo m \<and>
     run_client_manager demo demo_env m cover_policy_default demo_client_readings [] = (Inr Continue, d) \<and>
     client_loop_head demo_env demo_client_readings d = (Inr (), d1) \<and>
     client_manager_state (dr_manager d1) = CM_Handshaking \<and> dr_retransmit d1 \<noteq> None \<and> dr_slot_arm d1 = None"
proof -
  obtain m d where m: "client_mgr_reachable demo m"
    "client_connect demo demo_env demo_client_readings m cover_policy_default = (Inr (), d)" "cm_hs (dr_manager d) \<noteq> None"
    by (rule demo_connect)
  have r: "run_client_manager demo demo_env m cover_policy_default demo_client_readings [] = (Inr Continue, d)"
    using m(2) by (simp add: run_client_manager_def)
  have inv: "client_mgr_inv demo (dr_manager d)" by (rule armedD(1) [OF connect_armed [OF client_reachable_inv [OF m(1)] m(2)]])
  have h: "client_loop_head demo_env demo_client_readings d = (Inr (), d)"
    using ready_held [OF inv] client_mgr_invD(1) [OF inv] m(3) by (auto simp: client_loop_head_def)
  have st: "client_manager_state (dr_manager d) = CM_Handshaking"
    using client_mgr_invD(1) [OF inv] m(3) by (auto simp: client_manager_state_def)
  show ?thesis
    using m(1) r h st client_timers_armed [OF m(1) r h] by (intro exI [of _ m] exI [of _ d]) (simp add: Let_def)
qed

text \<open>C7: a lost tunnel comes back by itself. After every tick the client is handshaking or holds a session, whatever
  was lost before it or in it, unless starting a handshake failed as the last thing in that very tick; then the
  client asks to be re-armed, and the next tick tries again.\<close>

theorem client_tick_reconnects:
  assumes "client_mgr_reachable P m" "run_client_manager P E m cover x0 inputs = (Inr f, d)"
    and "client_iteration P E (x, ClientTick) d = (Inr g, d1)"
  shows "client_manager_state (dr_manager d1) \<in> {CM_Handshaking, CM_Unconfirmed, CM_Established} \<or>
    needs_rearm (dr_manager d1) \<and>
    (\<exists>k m1 e. manager_begin_handshake P (fst (cr_rearm x k)) (snd (cr_rearm x k)) m1 = (Inl e, dr_manager d1) \<and>
       client_manager_state m1 = CM_Idle)"
proof -
  have a: "armed P cover True d" by (rule client_run_armed [OF client_reachable_inv [OF assms(1)] assms(2)])
  obtain d2 where h: "client_loop_head E x d = (Inr (), d2)" "client_tick_arm P E x d2 = (Inr g, d1)"
    using assms(3) by (auto simp: client_iteration_def and_then_Inr)
  have "alive (dr_manager d1)" by (rule armedD(2) [OF iteration_armed [OF a assms(3)]])
  then have "client_manager_state (dr_manager d1) = CM_Idle \<Longrightarrow> needs_rearm (dr_manager d1)"
    by (auto simp: client_manager_state_def alive_def needs_rearm_def split: if_splits)
  then show ?thesis
    using tick_reconnects [OF head_armed [OF a h(1)] h(2)] by (cases "client_manager_state (dr_manager d1)") auto
qed

theorem client_tick_reconnects_witness:
  "\<exists>m d d1. client_mgr_reachable demo m \<and>
     run_client_manager demo demo_env m cover_policy_default demo_client_readings [] = (Inr Continue, d) \<and>
     client_iteration demo demo_env (demo_client_readings, ClientTick) d = (Inr Continue, d1) \<and>
     (client_manager_state (dr_manager d1) \<in> {CM_Handshaking, CM_Unconfirmed, CM_Established} \<or> needs_rearm (dr_manager d1))"
proof -
  obtain m d where m: "client_mgr_reachable demo m"
    "client_connect demo demo_env demo_client_readings m cover_policy_default = (Inr (), d)"
    by (rule demo_connect)
  have r: "run_client_manager demo demo_env m cover_policy_default demo_client_readings [] = (Inr Continue, d)"
    using m(2) by (simp add: run_client_manager_def)
  obtain d2 where h: "client_loop_head demo_env demo_client_readings d = (Inr (), d2)"
    using working_head [OF demo_env_working] by (metis prod.collapse)
  obtain d1 where i: "client_iteration demo demo_env (demo_client_readings, ClientTick) d = (Inr Continue, d1)"
    using tick_slot_survive(1) [OF demo_env_working, of demo demo_client_readings d2] h
    by (cases "client_tick_arm demo demo_env demo_client_readings d2")
      (simp add: client_iteration_def)
  show ?thesis using m(1) r i client_tick_reconnects [OF m(1) r i] by blast
qed

end
