(* ===== verification/Egress.thy ===== *)
theory Egress
  imports Prelude
begin

text \<open>
  The server-side destination policy, module \<open>egress\<close> of \<open>pq-tunnel-bin/src/forward.rs\<close>, over the address
  predicates of the standard library it uses. An \<open>Ipv4Addr\<close> is its four octets, an \<open>Ipv6Addr\<close> its sixteen.
\<close>

unbundle bit_operations_syntax

section \<open>Addresses\<close>

datatype IpAddr = IpV4 bytes | IpV6 bytes

fun ip_of :: "SocketAddr \<Rightarrow> IpAddr" where
  "ip_of (SocketAddrV4 ip _) = IpV4 ip"
| "ip_of (SocketAddrV6 ip _ _ _) = IpV6 ip"

fun port_of :: "SocketAddr \<Rightarrow> u16" where
  "port_of (SocketAddrV4 _ port) = port"
| "port_of (SocketAddrV6 _ port _ _) = port"

definition v4_is_loopback :: "bytes \<Rightarrow> bool" where
  "v4_is_loopback v4 \<longleftrightarrow> v4 ! 0 = 127"

definition v4_is_multicast :: "bytes \<Rightarrow> bool" where
  "v4_is_multicast v4 \<longleftrightarrow> 224 \<le> v4 ! 0 \<and> v4 ! 0 \<le> 239"

definition v4_is_broadcast :: "bytes \<Rightarrow> bool" where
  "v4_is_broadcast v4 \<longleftrightarrow> v4 = [255, 255, 255, 255]"

definition v4_is_link_local :: "bytes \<Rightarrow> bool" where
  "v4_is_link_local v4 \<longleftrightarrow> v4 ! 0 = 169 \<and> v4 ! 1 = 254"

text \<open>The eight big-endian words of an IPv6 address, and the address with given words.\<close>

definition segments :: "bytes \<Rightarrow> u16 list" where
  "segments v6 = map (\<lambda>i. from_be [v6 ! (2 * i), v6 ! (2 * i + 1)]) [0..<8]"

definition v6_new :: "u16 list \<Rightarrow> bytes" where
  "v6_new ws = concat (map (to_be 2) ws)"

definition v6_is_loopback :: "bytes \<Rightarrow> bool" where
  "v6_is_loopback v6 \<longleftrightarrow> v6 = v6_new [0, 0, 0, 0, 0, 0, 0, 1]"

definition v6_is_unspecified :: "bytes \<Rightarrow> bool" where
  "v6_is_unspecified v6 \<longleftrightarrow> v6 = v6_new [0, 0, 0, 0, 0, 0, 0, 0]"

definition v6_is_multicast :: "bytes \<Rightarrow> bool" where
  "v6_is_multicast v6 \<longleftrightarrow> v6 ! 0 = 0xFF"

definition to_ipv4_mapped :: "bytes \<Rightarrow> bytes option" where
  "to_ipv4_mapped v6 = (if take 12 v6 = replicate 10 0 @ [0xFF, 0xFF] then Some (drop 12 v6) else None)"

section \<open>The policy\<close>

datatype EgressPolicy = DenyUnsafe | AllowLoopback

datatype DenyRule =
    PortZero
  | V4Loopback
  | V6Loopback
  | V4Unspecified
  | V6Unspecified
  | V4Multicast
  | V6Multicast
  | V4Broadcast
  | MetadataImdsV4
  | MetadataAlibabaV4
  | MetadataAwsV6
  | MetadataGcpV6

definition DENY_RULE_COUNT :: nat where "DENY_RULE_COUNT = 12"

fun deny_rule_str :: "DenyRule \<Rightarrow> string" where
  "deny_rule_str PortZero = ''port_zero''"
| "deny_rule_str V4Loopback = ''v4_loopback''"
| "deny_rule_str V6Loopback = ''v6_loopback''"
| "deny_rule_str V4Unspecified = ''v4_unspecified''"
| "deny_rule_str V6Unspecified = ''v6_unspecified''"
| "deny_rule_str V4Multicast = ''v4_multicast''"
| "deny_rule_str V6Multicast = ''v6_multicast''"
| "deny_rule_str V4Broadcast = ''v4_broadcast''"
| "deny_rule_str MetadataImdsV4 = ''metadata_imds_v4''"
| "deny_rule_str MetadataAlibabaV4 = ''metadata_alibaba_v4''"
| "deny_rule_str MetadataAwsV6 = ''metadata_aws_v6''"
| "deny_rule_str MetadataGcpV6 = ''metadata_gcp_v6''"

fun deny_rule_index :: "DenyRule \<Rightarrow> nat" where
  "deny_rule_index PortZero = 0"
| "deny_rule_index V4Loopback = 1"
| "deny_rule_index V6Loopback = 2"
| "deny_rule_index V4Unspecified = 3"
| "deny_rule_index V6Unspecified = 4"
| "deny_rule_index V4Multicast = 5"
| "deny_rule_index V6Multicast = 6"
| "deny_rule_index V4Broadcast = 7"
| "deny_rule_index MetadataImdsV4 = 8"
| "deny_rule_index MetadataAlibabaV4 = 9"
| "deny_rule_index MetadataAwsV6 = 10"
| "deny_rule_index MetadataGcpV6 = 11"

definition deny_ipv4 :: "bytes \<Rightarrow> EgressPolicy \<Rightarrow> DenyRule option" where
  "deny_ipv4 v4 policy =
     (if v4 = [169, 254, 169, 254] then Some MetadataImdsV4
      else if v4 = [100, 100, 100, 200] then Some MetadataAlibabaV4
      else if v4_is_loopback v4 \<and> policy = DenyUnsafe then Some V4Loopback
      else if v4 ! 0 = 0 then Some V4Unspecified
      else if v4_is_multicast v4 then Some V4Multicast
      else if v4_is_broadcast v4 then Some V4Broadcast
      else None)"

definition embedded_ipv4 :: "bytes \<Rightarrow> bytes option" where
  "embedded_ipv4 v6 =
     (case to_ipv4_mapped v6 of
        Some v4 \<Rightarrow> Some v4
      | None \<Rightarrow>
          let s = segments v6 in
          if s ! 0 = 0 \<and> s ! 1 = 0 \<and> s ! 2 = 0 \<and> s ! 3 = 0 \<and> s ! 4 = 0 \<and> s ! 5 = 0 then
            let hi = s ! 6; lo = s ! 7 in Some [ucast (drop_bit 8 hi), ucast hi, ucast (drop_bit 8 lo), ucast lo]
          else None)"

definition deny_ipv6 :: "bytes \<Rightarrow> EgressPolicy \<Rightarrow> DenyRule option" where
  "deny_ipv6 v6 policy =
     (if v6 = v6_new [0xFD00, 0x0EC2, 0, 0, 0, 0, 0, 0x0254] then Some MetadataAwsV6
      else if v6 = v6_new [0xFD20, 0x00CE, 0, 0, 0, 0, 0, 0x0254] then Some MetadataGcpV6
      else if v6_is_loopback v6 then (if policy = DenyUnsafe then Some V6Loopback else None)
      else if v6_is_unspecified v6 then Some V6Unspecified
      else if v6_is_multicast v6 then Some V6Multicast
      else case embedded_ipv4 v6 of Some v4 \<Rightarrow> deny_ipv4 v4 policy | None \<Rightarrow> None)"

definition deny_reason :: "SocketAddr \<Rightarrow> EgressPolicy \<Rightarrow> DenyRule option" where
  "deny_reason dest policy =
     (if port_of dest = 0 then Some PortZero
      else case ip_of dest of IpV4 v4 \<Rightarrow> deny_ipv4 v4 policy | IpV6 v6 \<Rightarrow> deny_ipv6 v6 policy)"

section \<open>Counters\<close>

record EgressGuard =
  eg_denials :: "u64 list"
  eg_failures :: u64

definition egress_guard_new :: EgressGuard where
  "egress_guard_new = \<lparr>eg_denials = replicate DENY_RULE_COUNT 0, eg_failures = 0\<rparr>"

text \<open>The compare-and-swap loop: \<open>seen\<close> are the values it finds when another thread was faster, newest last.\<close>

fun bump :: "u64 list \<Rightarrow> u64 \<Rightarrow> u64" where
  "bump [] current = saturating_add current 1"
| "bump (actual # seen) current = bump seen actual"

definition record_denial :: "DenyRule \<Rightarrow> EgressGuard \<Rightarrow> u64 \<times> EgressGuard" where
  "record_denial rule g =
     (let count = bump [] (eg_denials g ! deny_rule_index rule)
      in (count, g\<lparr>eg_denials := (eg_denials g)[deny_rule_index rule := count]\<rparr>))"

definition record_failure :: "EgressGuard \<Rightarrow> u64 \<times> EgressGuard" where
  "record_failure g = (let count = bump [] (eg_failures g) in (count, g\<lparr>eg_failures := count\<rparr>))"

definition egress_denials :: "DenyRule \<Rightarrow> EgressGuard \<Rightarrow> u64" where
  "egress_denials rule g = eg_denials g ! deny_rule_index rule"

text \<open>The sum of the counters; the addition wraps.\<close>

definition total_denials :: "EgressGuard \<Rightarrow> u64" where
  "total_denials g = sum_list (eg_denials g)"

definition should_log :: "u64 \<Rightarrow> bool" where
  "should_log count \<longleftrightarrow> count \<noteq> 0 \<and> count AND (count - 1) = 0"

section \<open>The policy against address ranges\<close>

text \<open>The refused IPv4 addresses as ranges of 32-bit numbers: 0.0.0.0/8, 127.0.0.0/8, 224.0.0.0/4, the limited
  broadcast and the two metadata hosts.\<close>

definition unsafe_v4 :: "u32 \<Rightarrow> bool" where
  "unsafe_v4 a \<longleftrightarrow> drop_bit 24 a \<in> {0, 127} \<or> drop_bit 28 a = 0xE \<or> a \<in> {0xFFFFFFFF, 0xA9FEA9FE, 0x646464C8}"

text \<open>The two ways to write an IPv4 address as an IPv6 address: mapped and compatible.\<close>

definition embeddings :: "bytes list" where
  "embeddings = [replicate 10 0 @ [0xFF, 0xFF], replicate 12 0]"

lemma to_be_split: "ucast (drop_bit 8 (from_be [a, b] :: u16)) = a" "ucast (from_be [a, b] :: u16) = b"
  using to_be_u16 [of "[a, b]"] by (simp_all add: to_be_def numeral_2_eq_2)

lemma from_be_4_eq: "(from_be [a, b, c, d] :: u32) = w \<longleftrightarrow> [a, b, c, d] = to_be 4 w"
  using to_be_u32 [of "[a, b, c, d]"] from_be_u32 [of w] by auto

lemma first_octet: "drop_bit 24 (from_be [a, b, c, d] :: u32) = ucast a"
proof (rule bit_word_eqI)
  fix n assume "n < LENGTH(32)"
  then have n: "n < 32" by simp
  show "bit (drop_bit 24 (from_be [a, b, c, d] :: u32)) n \<longleftrightarrow> bit (ucast a :: u32) n"
  proof (cases "n < 8")
    case True
    then have "(24 + n) div 8 = 3" "(24 + n) mod 8 = n" by presburger+
    then show ?thesis using True by (simp add: bit_drop_bit_eq bit_from_be bit_ucast_iff)
  next
    case False
    then have "\<not> bit a n" using bit_byte_bound by blast
    then show ?thesis using False by (simp add: bit_drop_bit_eq bit_from_be bit_ucast_iff)
  qed
qed

lemma first_nibble: "drop_bit 28 (from_be [a, b, c, d] :: u32) = ucast (drop_bit 4 a)"
proof -
  have "drop_bit 28 (from_be [a, b, c, d] :: u32) = drop_bit 4 (drop_bit 24 (from_be [a, b, c, d] :: u32))" by simp
  also have "\<dots> = ucast (drop_bit 4 a)"
    unfolding first_octet by (rule bit_word_eqI) (auto simp: bit_drop_bit_eq bit_ucast_iff dest: bit_byte_bound)
  finally show ?thesis .
qed

lemma unat_octet: "unat (ucast (a :: byte) :: u32) = unat a"
  by (simp add: unsigned_ucast_eq take_bit_nat_eq_self less_trans [OF unsigned_less])

lemma ucast_octet_eq: "(ucast (a :: byte) :: u32) = w \<longleftrightarrow> unat a = unat w"
  unfolding word_unat_eq_iff unat_octet ..

lemma multicast_nibble: "(ucast (drop_bit 4 a) :: u32) = 0xE \<longleftrightarrow> 224 \<le> a \<and> a \<le> (239 :: byte)"
proof -
  have "unat (drop_bit 4 a) = unat a div 16" by (simp add: drop_bit_eq_div unat_div)
  moreover have "n div 16 = 14 \<longleftrightarrow> 224 \<le> n \<and> n \<le> 239" for n :: nat by linarith
  ultimately have "unat (drop_bit 4 a) = 14 \<longleftrightarrow> 224 \<le> unat a \<and> unat a \<le> 239" by metis
  then show ?thesis unfolding ucast_octet_eq word_le_nat_alt by simp
qed

lemma deny_ipv4_exact: "deny_ipv4 [a, b, c, d] DenyUnsafe = None \<longleftrightarrow> \<not> unsafe_v4 (from_be [a, b, c, d])"
proof -
  have oct: "(ucast a :: u32) = 127 \<longleftrightarrow> a = 127" "(ucast a :: u32) = 0 \<longleftrightarrow> a = 0"
    unfolding ucast_octet_eq word_unat_eq_iff [of a] by simp_all
  have be: "to_be 4 w = [ucast (drop_bit 24 w), ucast (drop_bit 16 w), ucast (drop_bit 8 w), ucast w]" for w :: u32
    by (simp add: to_be_def numeral_eq_Suc)
  have hosts: "to_be 4 (0xFFFFFFFF :: u32) = [255, 255, 255, 255]" "to_be 4 (0xA9FEA9FE :: u32) = [169, 254, 169, 254]"
    "to_be 4 (0x646464C8 :: u32) = [100, 100, 100, 200]"
    unfolding be by (simp_all add: drop_bit_eq_div word_unat_eq_iff unsigned_ucast_eq take_bit_eq_mod unat_div)
  show ?thesis
    unfolding unsafe_v4_def first_octet first_nibble multicast_nibble insert_iff empty_iff oct from_be_4_eq hosts
    by (auto simp: deny_ipv4_def v4_is_loopback_def v4_is_multicast_def v4_is_broadcast_def)
qed

lemma replicate_list:
  "replicate 10 x = [x, x, x, x, x, x, x, x, x, x]" "replicate 12 x = [x, x, x, x, x, x, x, x, x, x, x, x]"
  by (simp_all add: numeral_eq_Suc)

lemma upt_8: "[0..<8] = [0, 1, 2, 3, 4, 5, 6, 7]"
  by (simp add: upt_rec)

lemma embedded_prefix:
  assumes "prefix \<in> set embeddings"
  shows "embedded_ipv4 (prefix @ [a, b, c, d]) = Some [a, b, c, d]"
proof (cases "prefix = replicate 10 0 @ [0xFF, 0xFF]")
  case True
  then show ?thesis by (simp add: embedded_ipv4_def to_ipv4_mapped_def replicate_list)
next
  case False
  then have p: "prefix = replicate 12 0" using assms by (simp add: embeddings_def)
  have "to_ipv4_mapped (prefix @ [a, b, c, d]) = None" by (simp add: p to_ipv4_mapped_def replicate_list)
  moreover have "segments (prefix @ [a, b, c, d]) = [0, 0, 0, 0, 0, 0, from_be [a, b], from_be [c, d]]"
    by (simp add: p segments_def replicate_list upt_8 from_be_def)
  ultimately show ?thesis by (simp add: embedded_ipv4_def Let_def to_be_split)
qed

lemma v6_new_Cons: "v6_new (w # ws) = ucast (drop_bit 8 w) # ucast w # v6_new ws" "v6_new [] = []"
  by (simp_all add: v6_new_def to_be_def numeral_2_eq_2)

lemma metadata_first:
  "v6_new (0xFD00 # ws) ! 0 = 0xFD" "v6_new (0xFD20 # ws) ! 0 = 0xFD"
  by (simp_all add: v6_new_Cons drop_bit_eq_div word_unat_eq_iff unsigned_ucast_eq take_bit_eq_mod unat_div)

lemma embedded_decision:
  assumes "prefix \<in> set embeddings"
  shows "deny_ipv6 (prefix @ [a, b, c, d]) DenyUnsafe = None \<longleftrightarrow> deny_ipv4 [a, b, c, d] DenyUnsafe = None"
proof -
  let ?v6 = "prefix @ [a, b, c, d]"
  have zero: "?v6 ! 0 = 0" using assms by (auto simp: embeddings_def replicate_list)
  have ne: "?v6 \<noteq> v6_new (0xFD00 # ws)" "?v6 \<noteq> v6_new (0xFD20 # ws)" for ws
    using zero metadata_first [of ws] by auto
  have lo: "a = 0 \<and> b = 0 \<and> c = 0" if "v6_is_loopback ?v6 \<or> v6_is_unspecified ?v6"
    using that assms by (auto simp: v6_is_loopback_def v6_is_unspecified_def v6_new_Cons embeddings_def replicate_list)
  have "deny_ipv4 [0, 0, 0, x] DenyUnsafe = Some V4Unspecified" for x
    by (simp add: deny_ipv4_def v4_is_loopback_def)
  then have "deny_ipv4 [a, b, c, d] DenyUnsafe \<noteq> None" if "v6_is_loopback ?v6 \<or> v6_is_unspecified ?v6"
    using lo [OF that] by simp
  then show ?thesis
    using ne zero embedded_prefix [OF assms, of a b c d] by (simp add: deny_ipv6_def v6_is_multicast_def)
qed

section \<open>Property\<close>

text \<open>C12: the egress policy refuses exactly the unsafe destinations. An IPv4 destination is refused exactly when it
  has no port or lies in one of the unsafe ranges, and writing the same host as a mapped or compatible IPv6
  address never changes the decision.\<close>

theorem egress_policy_exact:
  assumes "length v4 = 4"
  shows "(deny_reason (SocketAddrV4 v4 port) DenyUnsafe \<noteq> None \<longleftrightarrow> port = 0 \<or> unsafe_v4 (from_be v4)) \<and>
    list_all (\<lambda>prefix. deny_reason (SocketAddrV6 (prefix @ v4) port flow scope) DenyUnsafe = None \<longleftrightarrow>
                        deny_reason (SocketAddrV4 v4 port) DenyUnsafe = None) embeddings"
proof -
  obtain a b c d where v4: "v4 = [a, b, c, d]" using assms by (auto simp: length_Suc_conv eval_nat_numeral)
  show ?thesis
    using deny_ipv4_exact [of a b c d] embedded_decision [of _ a b c d] by (auto simp: v4 deny_reason_def list_all_iff)
qed

theorem egress_policy_exact_witness:
  "deny_reason (SocketAddrV4 [169, 254, 169, 254] 80) DenyUnsafe \<noteq> None \<and>
   (deny_reason (SocketAddrV6 ((replicate 10 0 @ [0xFF, 0xFF]) @ [169, 254, 169, 254]) 80 0 0) DenyUnsafe = None \<longleftrightarrow>
    deny_reason (SocketAddrV4 [169, 254, 169, 254] 80) DenyUnsafe = None)"
proof -
  have "length [169, 254, 169, 254 :: byte] = 4" by simp
  from egress_policy_exact [OF this, of 80 0 0] show ?thesis
    by (auto simp: embeddings_def deny_reason_def deny_ipv4_def)
qed

end
