(* ===== verification/Relay.thy ===== *)
theory Relay
  imports Transport Egress Lru_Table
begin

text \<open>
  The relay framing and the client relay of \<open>pq-tunnel-bin/src/relay.rs\<close>: the codec of the messages inside
  a payload slot, the bounded table of bindings from a destination to the application endpoint that last
  spoke to it, and one iteration of each of the two relay tasks. What the socket and the channels answer
  are arguments; log output is left out.
\<close>

section \<open>Framing\<close>

definition FAMILY_IPV4 :: byte where "FAMILY_IPV4 = 0x04"
definition FAMILY_IPV6 :: byte where "FAMILY_IPV6 = 0x06"
definition HDR_LEN_V4 :: nat where [layout_simps]: "HDR_LEN_V4 = 9"
definition HDR_LEN_V6 :: nat where [layout_simps]: "HDR_LEN_V6 = 21"
definition MAX_DATAGRAM_V4 :: nat where [layout_simps]: "MAX_DATAGRAM_V4 = PAYLOAD_LEN - HDR_LEN_V4"
definition MAX_DATAGRAM_V6 :: nat where [layout_simps]: "MAX_DATAGRAM_V6 = PAYLOAD_LEN - HDR_LEN_V6"

datatype RelayError =
    RelayTruncated nat
  | BadFamily byte
  | RelayTooLarge nat nat

definition encode_relay :: "SocketAddr \<Rightarrow> bytes \<Rightarrow> RelayError + bytes" where
  "encode_relay dest payload =
     (let (family, addr_bytes, cap) =
            (case dest of
               SocketAddrV4 ip _ \<Rightarrow> (FAMILY_IPV4, ip, MAX_DATAGRAM_V4)
             | SocketAddrV6 ip _ _ _ \<Rightarrow> (FAMILY_IPV6, ip, MAX_DATAGRAM_V6))
      in if length payload > cap then Inl (RelayTooLarge cap (length payload))
         else let len = (of_nat (length payload) :: u16)
              in Inr ([family] @ addr_bytes @ to_be 2 (port_of dest) @ to_be 2 len @ payload))"

definition decode_relay :: "bytes \<Rightarrow> RelayError + (SocketAddr \<times> bytes)" where
  "decode_relay msg =
     (case msg of
        [] \<Rightarrow> Inl (RelayTruncated 0)
      | family # _ \<Rightarrow>
          (case (if family = FAMILY_IPV4 then
                   (if length msg < HDR_LEN_V4 then Inl (RelayTruncated (length msg))
                    else Inr (SocketAddrV4 [msg ! 1, msg ! 2, msg ! 3, msg ! 4] (from_be [msg ! 5, msg ! 6]),
                              HDR_LEN_V4, MAX_DATAGRAM_V4))
                 else if family = FAMILY_IPV6 then
                   (if length msg < HDR_LEN_V6 then Inl (RelayTruncated (length msg))
                    else Inr (SocketAddrV6 (slice 1 17 msg) (from_be [msg ! 17, msg ! 18]) 0 0,
                              HDR_LEN_V6, MAX_DATAGRAM_V6))
                 else Inl (BadFamily family)) of
             Inl e \<Rightarrow> Inl e
           | Inr (addr, hdr_len, cap) \<Rightarrow>
               let len = unat (from_be [msg ! (hdr_len - 2), msg ! (hdr_len - 1)] :: u16)
               in if len > cap then Inl (RelayTooLarge cap len)
                  else if length msg < hdr_len + len then Inl (RelayTruncated (length msg))
                  else Inr (addr, slice hdr_len (hdr_len + len) msg)))"

section \<open>Bindings\<close>

definition MAP_TTL :: duration where "MAP_TTL = from_secs 60"
definition MAP_MAX :: nat where "MAP_MAX = 256"

type_synonym Bindings = "(SocketAddr, SocketAddr \<times> instant) table"

definition eldest :: "SocketAddr list \<Rightarrow> Bindings \<Rightarrow> SocketAddr option" where
  "eldest order b = map_option fst (min_by_key (\<lambda>e. snd (snd e)) (iterate order b))"

lemma eldest_contained: "eldest order b = Some k \<Longrightarrow> k \<in> fst ` set b"
proof -
  assume "eldest order b = Some k"
  then obtain v where "(k, v) \<in> set (iterate order b)"
    unfolding eldest_def using min_by_key_least(1) by fastforce
  then show ?thesis by (auto simp: iterate_def Let_def contains_key_iff)
qed

lemma length_delete_less: "k \<in> fst ` set t \<Longrightarrow> length (AList.delete k t) < length t"
  by (induction t) (auto simp: length_delete_le le_imp_less_Suc)

function evict_eldest :: "SocketAddr list \<Rightarrow> Bindings \<Rightarrow> Bindings" where
  "evict_eldest order b =
     (if length b > MAP_MAX then (case eldest order b of None \<Rightarrow> b | Some k \<Rightarrow> evict_eldest order (AList.delete k b)) else b)"
  by pat_completeness auto
termination
  by (relation "measure (\<lambda>(order, b). length b)") (auto dest!: eldest_contained length_delete_less)

declare evict_eldest.simps [simp del]

definition prune_bindings :: "SocketAddr list \<Rightarrow> instant \<Rightarrow> Bindings \<Rightarrow> Bindings" where
  "prune_bindings order now b =
     (let b1 = filter (\<lambda>(_, _, last). \<not> now - last > MAP_TTL) b
      in if length b1 \<le> MAP_MAX then b1 else evict_eldest order b1)"

section \<open>The two relay tasks\<close>

text \<open>The tasks share the bindings under a lock, so their iterations interleave but do not overlap. The state
  also keeps what the relay handed to the tunnel and sent to application endpoints. \<open>order\<close> is the
  iteration order of the table; a datagram longer than the buffer arrives cut to it.\<close>

record ClientRelay =
  cl_bindings :: Bindings
  cl_resets_since_data :: bool
  cl_to_tunnel :: "bytes list"
  cl_to_app :: "(bytes \<times> SocketAddr) list"

definition client_relay_new :: ClientRelay where
  "client_relay_new = \<lparr>cl_bindings = [], cl_resets_since_data = False, cl_to_tunnel = [], cl_to_app = []\<rparr>"

definition relay_recoverable_reset :: "IoError \<Rightarrow> bool" where
  "relay_recoverable_reset e \<longleftrightarrow> io_kind e = ConnectionReset \<or> io_kind e = ConnectionRefused"

definition app_to_tunnel ::
  "SocketAddr list \<Rightarrow> instant \<Rightarrow> bool \<Rightarrow> IoError + (bytes \<times> SocketAddr) \<Rightarrow> ClientRelay \<Rightarrow> flow \<times> ClientRelay" where
  "app_to_tunnel order now tunnel_closed r s =
     (case r of
        Inr (data, src) \<Rightarrow>
          let msg = take PAYLOAD_LEN data; s1 = s\<lparr>cl_resets_since_data := False\<rparr>
          in (case decode_relay msg of
                Inr (dest, _) \<Rightarrow>
                  let s2 = s1\<lparr>cl_bindings := prune_bindings order now (AList.update dest (src, now) (cl_bindings s1))\<rparr>
                  in if tunnel_closed then (Finished, s2)
                     else (Continue, s2\<lparr>cl_to_tunnel := cl_to_tunnel s2 @ [msg]\<rparr>)
              | Inl _ \<Rightarrow> (Continue, s1))
      | Inl e \<Rightarrow>
          if relay_recoverable_reset e then (Continue, s\<lparr>cl_resets_since_data := True\<rparr>) else (Finished, s))"

definition tunnel_to_app ::
  "SocketAddr list \<Rightarrow> instant \<Rightarrow> ManagerNotification option \<Rightarrow> ClientRelay \<Rightarrow> flow \<times> ClientRelay" where
  "tunnel_to_app order now n s =
     (case n of
        None \<Rightarrow> (Finished, s)
      | Some (MN_Data _ inner) \<Rightarrow>
          (case decode_relay (ip_payload inner) of
             Inr (dest, datagram) \<Rightarrow>
               let s1 = s\<lparr>cl_bindings := prune_bindings order now (cl_bindings s)\<rparr>;
                   src = map_option fst (map_of (cl_bindings s1) dest)
               in (case encode_relay dest datagram of
                     Inl _ \<Rightarrow> (Continue, s1)
                   | Inr frame \<Rightarrow>
                       (case src of
                          Some src \<Rightarrow> (Continue, s1\<lparr>cl_to_app := cl_to_app s1 @ [(frame, src)]\<rparr>)
                        | None \<Rightarrow> (Continue, s1)))
           | Inl _ \<Rightarrow> (Continue, s))
      | Some _ \<Rightarrow> (Continue, s))"

datatype relay_input =
    AppDatagram "SocketAddr list" instant bool "IoError + (bytes \<times> SocketAddr)"
  | TunnelNotification "SocketAddr list" instant "ManagerNotification option"

fun relay_step :: "relay_input \<Rightarrow> ClientRelay \<Rightarrow> flow \<times> ClientRelay" where
  "relay_step (AppDatagram order now tunnel_closed r) s = app_to_tunnel order now tunnel_closed r s"
| "relay_step (TunnelNotification order now n) s = tunnel_to_app order now n s"

section \<open>The codec\<close>

text \<open>The addresses a relay message can carry: the IPv6 flow and scope words are not framed.\<close>

fun relay_addr :: "SocketAddr \<Rightarrow> bool" where
  "relay_addr (SocketAddrV4 ip _) = (length ip = 4)"
| "relay_addr (SocketAddrV6 ip _ flow scope) = (length ip = 16 \<and> flow = 0 \<and> scope = 0)"

lemmas relay_consts = FAMILY_IPV4_def FAMILY_IPV6_def

lemma list_4: "length xs = 4 \<longleftrightarrow> (\<exists>a b c d. xs = [a, b, c, d])"
  by (auto simp: length_Suc_conv eval_nat_numeral)

lemma list_2: "length xs = 2 \<longleftrightarrow> (\<exists>a b. xs = [a, b])"
  by (auto simp: length_Suc_conv eval_nat_numeral)

lemma to_be_2: "\<exists>a b. to_be 2 w = [a, b]"
  using list_2 [of "to_be 2 w"] by simp

lemma relay_length_field: "length payload \<le> 1236 \<Longrightarrow> unat (of_nat (length payload) :: u16) = length payload"
  by (simp add: unat_of_nat)

lemma decode_encode_relay:
  assumes addr: "relay_addr dest" and enc: "encode_relay dest payload = Inr frame"
  shows "decode_relay (frame @ pad) = Inr (dest, payload)"
proof -
  obtain p1 p2 where p: "to_be 2 (port_of dest) = [p1, p2]" using to_be_2 by blast
  have port: "from_be [p1, p2] = port_of dest" using from_be_u16 [of "port_of dest"] p by simp
  obtain l1 l2 where l: "to_be 2 (of_nat (length payload) :: u16) = [l1, l2]" using to_be_2 by blast
  have len: "(from_be [l1, l2] :: u16) = of_nat (length payload)" using from_be_u16 [of "of_nat (length payload)"] l by simp
  show ?thesis
  proof (cases dest)
    case (SocketAddrV4 ip port)
    then obtain a b c d where ip: "ip = [a, b, c, d]" using addr list_4 [of ip] by auto
    have short: "length payload \<le> 1236" using enc SocketAddrV4 by (auto simp: encode_relay_def layout_simps split: if_splits)
    have "frame = [FAMILY_IPV4, a, b, c, d, p1, p2, l1, l2] @ payload"
      using enc SocketAddrV4 short p l by (simp add: encode_relay_def layout_simps ip)
    then show ?thesis
      using SocketAddrV4 port short by (simp add: decode_relay_def layout_simps relay_consts ip len relay_length_field slice_def)
  next
    case (SocketAddrV6 ip port flow scope)
    then have ip: "length ip = 16" "flow = 0" "scope = 0" using addr by auto
    have short: "length payload \<le> 1224" using enc SocketAddrV6 by (auto simp: encode_relay_def layout_simps split: if_splits)
    have "frame = [FAMILY_IPV6] @ ip @ [p1, p2, l1, l2] @ payload"
      using enc SocketAddrV6 short p l by (simp add: encode_relay_def layout_simps)
    then show ?thesis
      using SocketAddrV6 port short ip
      by (simp add: decode_relay_def layout_simps relay_consts len relay_length_field slice_def nth_append)
  qed
qed

lemma relay_split:
  assumes "length msg \<ge> n + k" "xs = take n msg" "payload = slice n (n + k) msg"
  shows "msg = xs @ payload @ drop (n + k) msg"
  using assms by (simp add: slice_def) (metis append_take_drop_id drop_drop add.commute)

lemma decode_relay_framed:
  assumes dec: "decode_relay msg = Inr (dest, payload)"
  shows "relay_addr dest \<and> (\<exists>frame pad. encode_relay dest payload = Inr frame \<and> msg = frame @ pad)"
proof -
  obtain f rest where msg: "msg = f # rest" using dec by (cases msg) (simp_all add: decode_relay_def)
  have be: "to_be 2 (from_be [a, b] :: u16) = [a, b]" for a b using to_be_u16 [of "[a, b]"] by simp
  consider (v4) "f = FAMILY_IPV4" "length msg \<ge> 9" | (v6) "f = FAMILY_IPV6" "length msg \<ge> 21" "f \<noteq> FAMILY_IPV4"
    using dec by (auto simp: decode_relay_def msg layout_simps split: if_splits)
  then show ?thesis
  proof cases
    case v4
    let ?len = "from_be [msg ! 7, msg ! 8] :: u16"
    have d: "dest = SocketAddrV4 [msg ! 1, msg ! 2, msg ! 3, msg ! 4] (from_be [msg ! 5, msg ! 6])"
      "payload = slice 9 (9 + unat ?len) msg" "unat ?len \<le> 1236" "length msg \<ge> 9 + unat ?len"
      using dec v4 by (auto simp: decode_relay_def msg layout_simps Let_def not_less split: if_splits)
    have hd: "take 9 msg = [FAMILY_IPV4, msg ! 1, msg ! 2, msg ! 3, msg ! 4, msg ! 5, msg ! 6, msg ! 7, msg ! 8]"
      using v4 by (intro nth_equalityI) (auto simp: msg nth_Cons' less_Suc_eq numeral_eq_Suc)
    have "length payload = unat ?len" using d by simp
    then have "encode_relay dest payload = Inr (take 9 msg @ payload)"
      using d by (simp add: encode_relay_def layout_simps be hd)
    then show ?thesis using d relay_split [OF d(4) refl d(2)] by auto
  next
    case v6
    let ?len = "from_be [msg ! 19, msg ! 20] :: u16"
    have d: "dest = SocketAddrV6 (slice 1 17 msg) (from_be [msg ! 17, msg ! 18]) 0 0"
      "payload = slice 21 (21 + unat ?len) msg" "unat ?len \<le> 1224" "length msg \<ge> 21 + unat ?len"
      using dec v6 by (auto simp: decode_relay_def msg layout_simps Let_def not_less relay_consts split: if_splits)
    have "take 21 msg = take 1 msg @ slice 1 17 msg @ slice 17 21 msg"
      using take_slice_split [of 1 17 msg] take_slice_split [of 17 21 msg] v6(2) by simp
    moreover have "slice 17 21 msg = [msg ! 17, msg ! 18, msg ! 19, msg ! 20]"
      using v6(2) by (intro nth_equalityI) (auto simp: nth_slice nth_Cons' less_Suc_eq numeral_eq_Suc)
    ultimately have hd: "take 21 msg = [FAMILY_IPV6] @ slice 1 17 msg @ [msg ! 17, msg ! 18] @ [msg ! 19, msg ! 20]"
      using v6(1) by (simp add: msg)
    have "length payload = unat ?len" using d by simp
    then have "encode_relay dest payload = Inr (take 21 msg @ payload)"
      using d by (simp add: encode_relay_def layout_simps be hd)
    then show ?thesis using d v6(2) relay_split [OF d(4) refl d(2)] by auto
  qed
qed

section \<open>The bindings\<close>

interpretation bindings: lru_table "evict_eldest order" "eldest order" "\<lambda>_. True" snd MAP_MAX for order
proof
  fix b :: Bindings and k
  show "evict_eldest order b =
      (if MAP_MAX < length (owned (\<lambda>_. True) b)
       then (case eldest order b of None \<Rightarrow> b | Some k \<Rightarrow> evict_eldest order (AList.delete k b)) else b)"
    by (subst evict_eldest.simps) simp
  assume ok: "table_ok b"
  show "owned (\<lambda>_. True) b = []" if "eldest order b = None"
    using that iterate_nonempty [OF ok, of order] by (auto simp: eldest_def)
  show "True \<and> (\<exists>v. map_of b k = Some v \<and> (\<forall>k' v'. map_of b k' = Some v' \<longrightarrow> True \<longrightarrow> snd v \<le> snd v'))"
    if "eldest order b = Some k"
  proof -
    obtain v where v: "min_by_key (\<lambda>e. snd (snd e)) (iterate order b) = Some (k, v)" using \<open>eldest order b = Some k\<close> by (auto simp: eldest_def)
    note m = min_by_key_least [OF v]
    have "map_of b k = Some v" using m(1) ok by (simp add: iterate_set table_ok_def)
    moreover have "snd v \<le> snd v'" if "map_of b k' = Some v'" for k' v'
      using m(2) [of "(k', v')"] map_of_SomeD [OF that] ok by (simp add: iterate_set)
    ultimately show ?thesis by blast
  qed
qed

lemma prune_spec:
  assumes ok: "table_ok b"
  shows "table_ok (prune_bindings order now b)" "length (prune_bindings order now b) \<le> MAP_MAX"
    "map_of (prune_bindings order now b) k = Some v \<Longrightarrow> map_of b k = Some v \<and> now - snd v \<le> MAP_TTL"
proof -
  let ?b = "filter (\<lambda>(_, _, last). \<not> now - last > MAP_TTL) b"
  have ok1: "table_ok ?b" using ok by simp
  show "table_ok (prune_bindings order now b)"
    using ok1 bindings.evict_ok [OF ok1, of order] by (simp add: prune_bindings_def Let_def)
  show "length (prune_bindings order now b) \<le> MAP_MAX"
    using bindings.evict_bound [OF ok1, of order] by (simp add: prune_bindings_def Let_def)
  assume "map_of (prune_bindings order now b) k = Some v"
  then have "map_of ?b k = Some v" 
    using bindings.evict_lookup [OF ok1, of order k v] by (simp add: prune_bindings_def Let_def split: if_splits)
  then show "map_of b k = Some v \<and> now - snd v \<le> MAP_TTL"
    using ok by (auto simp: map_of_filter split: option.splits if_splits prod.splits)
qed

lemma prune_keeps:
  assumes ok: "table_ok b" and len: "length b \<le> MAP_MAX" and k: "map_of b k = Some v" "now - snd v \<le> MAP_TTL"
  shows "map_of (prune_bindings order now b) k = Some v"
proof -
  let ?b = "filter (\<lambda>(_, _, last). \<not> now - last > MAP_TTL) b"
  have "length ?b \<le> MAP_MAX" using len le_trans [OF length_filter_le] by blast
  then show ?thesis using k ok by (auto simp: prune_bindings_def Let_def map_of_filter split: prod.splits)
qed

text \<open>The application endpoint that spoke last to a destination, going by the datagrams the relay accepted.\<close>

fun speaks :: "relay_input \<Rightarrow> (SocketAddr \<times> SocketAddr) option" where
  "speaks (AppDatagram _ _ _ (Inr (data, src))) =
     (case decode_relay (take PAYLOAD_LEN data) of Inr (dest, _) \<Rightarrow> Some (dest, src) | Inl _ \<Rightarrow> None)"
| "speaks _ = None"

definition last_speaker :: "relay_input list \<Rightarrow> SocketAddr \<Rightarrow> SocketAddr option" where
  "last_speaker inputs = map_of (rev (List.map_filter speaks inputs))"

lemma last_speaker_snoc:
  "last_speaker (inputs @ [i]) dest =
     (case speaks i of Some (d, src) \<Rightarrow> if d = dest then Some src else last_speaker inputs dest | None \<Rightarrow> last_speaker inputs dest)"
  by (auto simp: last_speaker_def List.map_filter_def split: option.split)

definition relay_inv :: "relay_input list \<Rightarrow> ClientRelay \<Rightarrow> bool" where
  "relay_inv inputs s \<longleftrightarrow> table_ok (cl_bindings s) \<and> length (cl_bindings s) \<le> MAP_MAX \<and>
     (\<forall>dest src t. map_of (cl_bindings s) dest = Some (src, t) \<longrightarrow> last_speaker inputs dest = Some src)"

lemma relay_step_inv:
  assumes inv: "relay_inv inputs s"
  shows "relay_inv (inputs @ [i]) (snd (relay_step i s))"
proof -
  have ok: "table_ok (cl_bindings s)" and len: "length (cl_bindings s) \<le> MAP_MAX"
    and last: "map_of (cl_bindings s) dest = Some (src, t) \<Longrightarrow> last_speaker inputs dest = Some src" for dest src t
    using inv by (auto simp: relay_inv_def)
  show ?thesis
  proof (cases "speaks i")
    case None
    have "cl_bindings (snd (relay_step i s)) = cl_bindings s \<or>
        (\<exists>order now. cl_bindings (snd (relay_step i s)) = prune_bindings order now (cl_bindings s))"
      using None
      by (cases i) (auto simp: app_to_tunnel_def tunnel_to_app_def Let_def split: sum.splits prod.splits option.splits ManagerNotification.splits)
    then show ?thesis
      using None ok len last prune_spec [OF ok] by (fastforce simp: relay_inv_def last_speaker_snoc)
  next
    case (Some ds)
    obtain d src where ds: "ds = (d, src)" by fastforce
    obtain order now where b: "cl_bindings (snd (relay_step i s)) = prune_bindings order now (AList.update d (src, now) (cl_bindings s))"
      using Some ds by (cases i rule: speaks.cases) (auto simp: app_to_tunnel_def Let_def split: sum.splits prod.splits)
    have ok1: "table_ok (AList.update d (src, now) (cl_bindings s))" using ok by simp
    have "last_speaker (inputs @ [i]) dest = Some src'"
      if "map_of (cl_bindings (snd (relay_step i s))) dest = Some (src', t)" for dest src' t
    proof -
      have "map_of (AList.update d (src, now) (cl_bindings s)) dest = Some (src', t)" using prune_spec(3) [OF ok1] that b by metis
      then show ?thesis using last Some ds by (auto simp: table_simps last_speaker_snoc split: if_splits)
    qed
    then show ?thesis using prune_spec(1,2) [OF ok1] b by (simp add: relay_inv_def)
  qed
qed

lemma relay_run_inv: "relay_inv inputs (snd (run relay_step inputs client_relay_new))"
proof (induction inputs rule: rev_induct)
  case Nil
  then show ?case by (simp add: relay_inv_def client_relay_new_def)
next
  case (snoc i inputs)
  then show ?case using relay_step_inv [OF snoc, of i] by (simp add: run_append Let_def case_prod_beta)
qed

lemma accepted_bound:
  assumes inv: "relay_inv inputs s" and sp: "speaks (AppDatagram order t c (Inr (data, src))) = Some (dest, src)"
    and room: "length (cl_bindings s) < 256"
  shows "map_of (cl_bindings (snd (relay_step (AppDatagram order t c (Inr (data, src))) s))) dest = Some (src, t)"
proof -
  let ?b = "AList.update dest (src, t) (cl_bindings s)"
  have "table_ok ?b" "length ?b \<le> MAP_MAX" using inv room by (simp_all add: relay_inv_def length_update MAP_MAX_def)
  then have "map_of (prune_bindings order t ?b) dest = Some (src, t)" by (rule prune_keeps) (simp_all add: table_simps)
  then show ?thesis using sp by (auto simp: app_to_tunnel_def Let_def split: sum.splits prod.splits)
qed

section \<open>Properties\<close>

text \<open>C39: relay framing is exact. A message decodes to a destination and a datagram exactly when it starts with the
  frame the encoder builds for them, followed by any padding; so what is decoded can always be framed again
  for the way back.\<close>

theorem relay_frames_exact:
  "decode_relay msg = Inr (dest, datagram) \<longleftrightarrow>
     relay_addr dest \<and> (\<exists>frame pad. encode_relay dest datagram = Inr frame \<and> msg = frame @ pad)"
  using decode_relay_framed decode_encode_relay by blast

text \<open>C13: replies go to whoever spoke last. Whatever applications and the tunnel send, the relay keeps at most 256
  bindings, and a reply from a destination is framed exactly and sent, if at all, to the application endpoint
  whose datagram to that destination was accepted last. It is sent while a held binding is at most 60 seconds
  old, and an accepted datagram leaves such a binding whenever the table had room.\<close>

theorem relay_replies_routed:
  assumes "decode_relay (ip_payload inner) = Inr (dest, datagram)"
  shows "let s = snd (run relay_step inputs client_relay_new);
             s1 = snd (relay_step (TunnelNotification order now (Some (MN_Data sid inner))) s);
             frame = projr (encode_relay dest datagram) in
     length (cl_bindings s) \<le> 256 \<and>
     (\<exists>sent. cl_to_app s1 = cl_to_app s @ sent \<and>
        (sent = [] \<or> (\<exists>src. last_speaker inputs dest = Some src \<and> sent = [(frame, src)])) \<and>
        (\<forall>src t. map_of (cl_bindings s) dest = Some (src, t) \<and> now - t \<le> MAP_TTL \<longrightarrow> sent = [(frame, src)]) \<and>
        (\<forall>before o1 t c data src. inputs = before @ [AppDatagram o1 t c (Inr (data, src))] \<and>
           speaks (AppDatagram o1 t c (Inr (data, src))) = Some (dest, src) \<and>
           length (cl_bindings (snd (run relay_step before client_relay_new))) < 256 \<and> now - t \<le> MAP_TTL \<longrightarrow>
           sent = [(frame, src)]))"
proof -
  let ?s = "snd (run relay_step inputs client_relay_new)"
  have inv: "table_ok (cl_bindings ?s)" "length (cl_bindings ?s) \<le> MAP_MAX"
    "\<And>dest src t. map_of (cl_bindings ?s) dest = Some (src, t) \<Longrightarrow> last_speaker inputs dest = Some src"
    using relay_run_inv [of inputs] by (auto simp: relay_inv_def)
  obtain frame where f: "encode_relay dest datagram = Inr frame" using decode_relay_framed [OF assms] by blast
  let ?b = "prune_bindings order now (cl_bindings ?s)"
  define sent where "sent = (case map_of ?b dest of Some (src, t) \<Rightarrow> [(frame, src)] | None \<Rightarrow> [])"
  have step: "cl_to_app (snd (relay_step (TunnelNotification order now (Some (MN_Data sid inner))) ?s)) = cl_to_app ?s @ sent"
    using assms f by (auto simp: tunnel_to_app_def Let_def sent_def split: option.split)
  have 1: "sent = [] \<or> (\<exists>src. last_speaker inputs dest = Some src \<and> sent = [(frame, src)])"
    using prune_spec(3) [OF inv(1), of order now dest] inv(3) by (fastforce simp: sent_def split: option.split)
  have 2: "sent = [(frame, src)]" if "map_of (cl_bindings ?s) dest = Some (src, t)" "now - t \<le> MAP_TTL" for src t
    using prune_keeps [OF inv(1,2) that(1), of now order] that(2) by (simp add: sent_def)
  have 3: "sent = [(frame, src)]"
    if "inputs = before @ [AppDatagram o1 t c (Inr (data, src))]" "speaks (AppDatagram o1 t c (Inr (data, src))) = Some (dest, src)"
      "length (cl_bindings (snd (run relay_step before client_relay_new))) < 256" "now - t \<le> MAP_TTL" for before o1 t c data src
    by (rule 2 [OF _ that(4)])
      (use accepted_bound [OF relay_run_inv [of before] that(2,3)] that(1) in \<open>simp add: run_append Let_def case_prod_beta\<close>)
  show ?thesis using inv(2) step f 1 2 3 unfolding Let_def MAP_MAX_def by (intro conjI exI [of _ sent]) auto
qed

theorem relay_replies_routed_witness:
  "let dest = SocketAddrV4 [8, 8, 8, 8] 53; app = SocketAddrV4 [127, 0, 0, 1] 4000; frame = projr (encode_relay dest [1, 2, 3]);
       s = snd (run relay_step [AppDatagram [] 5 False (Inr (frame, app))] client_relay_new);
       inner = \<lparr>ip_msg_type = Data, ip_direction = ServerToClient, ip_payload = frame @ [0, 0]\<rparr> in
     cl_to_tunnel s = [frame] \<and>
     cl_to_app (snd (relay_step (TunnelNotification [] 6 (Some (MN_Data [] inner))) s)) = [(frame, app)]"
proof -
  let ?dest = "SocketAddrV4 [8, 8, 8, 8] 53" and ?app = "SocketAddrV4 [127, 0, 0, 1] 4000"
  obtain frame where f: "encode_relay ?dest [1, 2, 3] = Inr frame" by (simp add: encode_relay_def layout_simps)
  have len: "length frame = 12" using f by (auto simp: encode_relay_def layout_simps)
  have d: "decode_relay (frame @ pad) = Inr (?dest, [1, 2, 3])" for pad by (rule decode_encode_relay [OF _ f]) simp
  let ?inputs = "[AppDatagram [] 5 False (Inr (frame, ?app))]"
  let ?s = "snd (run relay_step ?inputs client_relay_new)"
  let ?inner = "\<lparr>ip_msg_type = Data, ip_direction = ServerToClient, ip_payload = frame @ [0, 0]\<rparr>"
  have s: "cl_bindings ?s = [(?dest, ?app, 5)]" "cl_to_tunnel ?s = [frame]" "cl_to_app ?s = []"
    using d [of "[]"] len by (simp_all add: app_to_tunnel_def client_relay_new_def prune_bindings_def MAP_MAX_def MAP_TTL_def layout_values)
  have "decode_relay (ip_payload ?inner) = Inr (?dest, [1, 2, 3])" using d by simp
  from relay_replies_routed [OF this, of ?inputs "[]" 6 "[]"]
  have "cl_to_app (snd (relay_step (TunnelNotification [] 6 (Some (MN_Data [] ?inner))) ?s)) = [(frame, ?app)]"
    using s f by (auto simp: Let_def MAP_TTL_def from_secs_def simp del: relay_step.simps run_Cons)
  then show ?thesis using s(2) f by (simp add: Let_def del: relay_step.simps run_Cons)
qed

end
