(* ===== verification/Spec2Isabelle.thy ===== *)
theory Spec2Isabelle
  imports Reassembly Driver_Guarantees Relay
begin

text \<open>
  Verification development of pq-tunnel, a post-quantum UDP tunnel written in Rust. Paths are relative to
  the source tree; \<open>core\<close> stands for \<open>pq-tunnel-core/src\<close>, \<open>crypto\<close> for \<open>pq-crypto/src\<close> and \<open>bin\<close> for
  \<open>pq-tunnel-bin/src\<close>.

  \<^bold>\<open>The program.\<close> A client and a server run a three-message handshake over UDP (M1, M2, M3, each split
  into datagrams of one fixed size), derive directional keys from it, and exchange fixed-size sealed packets
  with a replay window and a cover-traffic schedule. On each side a session manager owns the handshake
  machine and the sessions, and a driver loop connects the manager with the socket, the timers and the
  application. Applications speak to a client relay that frames datagrams with their destination; the
  server applies an egress policy to those destinations. A data plane fragments and reassembles IP packets
  carried in payload slots.

  \<^bold>\<open>Conventions.\<close> Machine integers are words of their width; \<open>usize\<close>, \<open>Instant\<close> and \<open>Duration\<close>
  (nanoseconds) are natural numbers. A \<open>Result\<close> is a sum with the error on the left; a function on
  \<open>&mut self\<close> returns its result and the new state on every path. Clock readings and random draws are
  arguments. A hash map is an association list with distinct keys (\<open>Prelude\<close>), and where the iteration
  order matters it is an argument (\<open>iterate\<close> in \<open>Lru_Table\<close>). The cryptographic primitives of third-party
  crates are a record \<open>primitives\<close> (\<open>Crypto\<close>); what the code relies on are the named hypotheses
  \<open>aead_correct\<close>, \<open>hkdf_correct\<close>, \<open>kem_correct\<close>, \<open>kem_sized\<close>, \<open>dsa_correct\<close>, \<open>x25519_correct\<close> and
  \<open>hash_sized\<close>, and the concrete record \<open>demo\<close> satisfies them all. No theorem assumes that a primitive is
  hard to break.

  \<^bold>\<open>Theories.\<close>
  \<^item> \<open>Prelude\<close>: types, byte slices, big-endian integers, tables, step systems and their runs.
    \<open>Fifo_Table\<close> and \<open>Lru_Table\<close>: the contracts of the bounded tables, evicting by insertion order (rate
    table, failure gate) and by last use (relay bindings; the server sessions share its minimum search).
  \<^item> \<open>Crypto\<close> (\<open>crypto\<close>): the wrappers the protocol uses. \<open>Codec\<close> (\<open>core/codec.rs\<close>, \<open>core/error.rs\<close>):
    packet header, inner plaintext and packet layouts with their round trips. \<open>Protocol_State\<close>
    (\<open>core/state.rs\<close>), \<open>Nonce\<close> (\<open>core/nonce.rs\<close>), \<open>Scheduler\<close> (\<open>core/scheduler.rs\<close>).
  \<^item> \<open>Replay\<close> (\<open>core/replay.rs\<close>): the shifted bitmap, refined to a guard that remembers every counter.
    \<open>Envelope\<close> (\<open>core/envelope.rs\<close>): sealing and opening; opened packets are what the peer would seal, and
    no counter is used twice. \<open>Wire_Session\<close> (\<open>core/wire_session.rs\<close>): the session lifecycle over it.
  \<^item> \<open>Overlay\<close> and \<open>Reassembly\<close> (\<open>core/dataplane.rs\<close>): the overlay header, IP validation, CRC,
    fragmentation, and the reassembler with its caps; any order of fragments rebuilds the packet.
  \<^item> \<open>Handshake_Framing\<close>, \<open>Handshake_Messages\<close>, \<open>Handshake_Client\<close>, \<open>Handshake_Server\<close>
    (\<open>core/handshake_v2.rs\<close>): fragment framing, message codecs and transcripts, and the two machines as
    step relations with their invariants, authentication properties and bounded tables.
    \<open>Handshake_Agreement\<close>: an honest exchange completes with equal keys. \<open>Handshake_Total\<close>: no datagram
    makes a machine fail.
  \<^item> \<open>Manager_Common\<close>, \<open>Server_Manager\<close>, \<open>Client_Manager\<close> (\<open>core/session_manager.rs\<close>): limits, failure
    gate, and both managers with every operation. \<open>Server_Guarantees\<close> and \<open>Client_Guarantees\<close>: what they
    promise over any sequence of operations. \<open>Tunnel\<close>: the two managers bring a tunnel up.
  \<^item> \<open>Transport\<close> (\<open>core/udp.rs\<close>): datagram sizes and error classes, and the effects of a driver: the sends
    and notifications it has performed, in order. \<open>Server_Driver\<close> and \<open>Client_Driver\<close>
    (\<open>run_server_manager\<close>, \<open>run_client_manager\<close>): one definition per arm of the \<open>select!\<close>, and the loop
    over a list of the arms taken. \<open>Driver_Guarantees\<close>: the client loop goes on, loses no wake-up and
    reconnects.
  \<^item> \<open>Egress\<close> (module \<open>egress\<close> of \<open>bin/forward.rs\<close>): the destination policy, exact against address ranges.
    \<open>Relay\<close> (\<open>bin/relay.rs\<close>): the relay framing, the bindings and the two relay tasks.

  \<^bold>\<open>Bounds and loops.\<close> There is no fuel. Every loop of the source is structural recursion or has a measure
  (the eviction loops shrink their table); the driver loops run over the finite list of the arms taken, so a
  statement about all such lists covers every finite prefix of an execution. The arm the runtime picks, the
  answers of the socket and of the channels, and the interleaving of the two relay tasks are inputs.

  \<^bold>\<open>Not modelled.\<close> Two groups have behaviour of their own that no theorem here covers. The functions
  \<open>client_handshake_v2\<close> and \<open>server_handshake_v2\<close> of \<open>core/handshake_v2.rs\<close> run one handshake without a
  manager; the machines they call are modelled, their timer and error handling is not. The struct
  \<open>Forwarder\<close> of \<open>bin/forward.rs\<close> keeps a pool of sockets by session and destination with reader tasks;
  the policy it asks is modelled, the pool is not. Also left out, though partly pure code: the key and
  roster files of \<open>bin/identity.rs\<close>, the inner packet policy of \<open>bin/tun_policy.rs\<close> and
  \<open>bin/packet_len.rs\<close>, the packet checks of \<open>bin/tun/mod.rs\<close>, and the argument checks of \<open>bin/lib.rs\<close>.
  The remaining parts are calls of the operating system or tools: key generation, TUN device, routing
  commands, process wiring and the Windows waitable timer of the cover clock; the proxy stub, benchmarks,
  fuzz targets and test vectors. Buffer zeroization and log output have no value-level effect.
\<close>

section \<open>Properties that span components\<close>

text \<open>C36: demultiplexing is sound for every data packet a session seals with a counter below
  \<open>2 ^ 60\<close>: it is never taken for a handshake fragment, while every datagram of a handshake
  message is.\<close>

theorem dispatch_separates:
  assumes "cipher_wf s" "cipher_encrypt P mt payload s = (Inr pkt, s1)" "unat (cs_send_counter s) < 2 ^ 60"
    and "fragment_message t v sid msg = Inr pkts" "length sid = 8"
  shows "\<not> is_handshake_fragment pkt \<and> (\<forall>p \<in> set pkts. is_handshake_fragment p)"
  using sealed_not_fragment [OF assms(1,2,3)] fragments_recognised [OF assms(4,5)] by blast

theorem dispatch_separates_witness:
  "\<exists>s pkt s1 pkts. cipher_wf s \<and> cipher_encrypt demo Data (replicate PAYLOAD_LEN 5) s = (Inr pkt, s1) \<and>
    fragment_message HS_TYPE_CLIENT_CONFIRM 2 (replicate 8 1) (replicate M3_BODY_LEN 7) = Inr pkts \<and>
    \<not> is_handshake_fragment pkt \<and> (\<forall>p \<in> set pkts. is_handshake_fragment p)"
proof -
  obtain s pkt s1 where x: "cipher_new demo Client (replicate 32 1) (replicate 8 2) = Inr s" "cipher_wf s"
      "cipher_encrypt demo Data (replicate PAYLOAD_LEN 5) s = (Inr pkt, s1)"
    by (rule demo_exchange)
  have c: "unat (cs_send_counter s) < 2 ^ 60" using cipher_new_wf(4) [OF x(1)] by simp
  have sh: "hs_shape HS_TYPE_CLIENT_CONFIRM 1 (replicate M3_BODY_LEN 7)"
    by (simp add: hs_shape_def expected_frag_count_def message_body_len_def M3_FRAG_COUNT_def hs_types)
  obtain pkts where p: "fragment_message HS_TYPE_CLIENT_CONFIRM 2 (replicate 8 1) (replicate M3_BODY_LEN 7) = Inr pkts"
    using fragment_message_ok [OF sh] by blast
  show ?thesis using dispatch_separates [OF x(2,3) c p] x p by auto
qed

end
